(* ===== verification/Commeatus_Prelude.thy ===== *)
theory Commeatus_Prelude
  imports Main "HOL-Library.Word" "HOL-Library.Char_ord" "HOL-Library.List_Lexorder"
    "HOL-Library.Code_Target_Numeral"
begin

unbundle bit_operations_syntax

text \<open>
  Shared vocabulary of the development: machine integers at the width the Rust sources give
  them, Rust's \<open>Result\<close> with the \<open>?\<close> operator, bounds-checked slice access, checked
  \<open>usize\<close> arithmetic and big-endian byte encodings. A Rust \<open>str\<close> is its UTF-8 byte
  sequence, one \<open>char\<close> per byte, so that \<open>length\<close> is Rust's \<open>len\<close>.
\<close>

section \<open>Types\<close>

type_synonym u8 = "8 word"
type_synonym u16 = "16 word"
type_synonym u32 = "32 word"
type_synonym u64 = "64 word"
type_synonym u128 = "128 word"
type_synonym bytes = "8 word list"
type_synonym str = string

text \<open>Rust's \<open>Result<T, E>\<close>, and \<open>?\<close> as a bind that hands the first error on.\<close>

datatype ('a, 'e) result = Ok 'a | Err 'e

definition bindR :: "('a, 'e) result \<Rightarrow> ('a \<Rightarrow> ('b, 'e) result) \<Rightarrow> ('b, 'e) result" where
  "bindR r f = (case r of Ok x \<Rightarrow> f x | Err e \<Rightarrow> Err e)"

definition map_err :: "('e \<Rightarrow> 'f) \<Rightarrow> ('a, 'e) result \<Rightarrow> ('a, 'f) result" where
  "map_err g r = (case r of Ok x \<Rightarrow> Ok x | Err e \<Rightarrow> Err (g e))"

definition ok_or :: "'e \<Rightarrow> 'a option \<Rightarrow> ('a, 'e) result" where
  "ok_or e opt = (case opt of Some x \<Rightarrow> Ok x | None \<Rightarrow> Err e)"

definition is_ok :: "('a, 'e) result \<Rightarrow> bool" where
  "is_ok r = (case r of Ok _ \<Rightarrow> True | Err _ \<Rightarrow> False)"

text \<open>Collecting an iterator of results: the first error wins (\<open>collect::<Result<Vec<_>, _>>\<close>).\<close>

fun collectR :: "('a \<Rightarrow> ('b, 'e) result) \<Rightarrow> 'a list \<Rightarrow> ('b list, 'e) result" where
  "collectR f [] = Ok []"
| "collectR f (x # xs) = bindR (f x) (\<lambda>y. bindR (collectR f xs) (\<lambda>ys. Ok (y # ys)))"

text \<open>\<open>slice.get(i)\<close> and \<open>slice.get(a..b)\<close>: \<open>None\<close> out of range.\<close>

definition get :: "'a list \<Rightarrow> nat \<Rightarrow> 'a option" where
  "get xs i = (if i < length xs then Some (xs ! i) else None)"

definition get_range :: "'a list \<Rightarrow> nat \<Rightarrow> nat \<Rightarrow> 'a list option" where
  "get_range xs a b = (if a \<le> b \<and> b \<le> length xs then Some (take (b - a) (drop a xs)) else None)"

text \<open>\<open>usize\<close> is 64 bits wide on both supported targets; \<open>checked_add\<close> fails beyond it.\<close>

definition usize_bound :: nat where
  "usize_bound = 2 ^ 64"

definition checked_add :: "nat \<Rightarrow> nat \<Rightarrow> nat option" where
  "checked_add a b = (if a + b < usize_bound then Some (a + b) else None)"

definition checked_sub :: "nat \<Rightarrow> nat \<Rightarrow> nat option" where
  "checked_sub a b = (if b \<le> a then Some (a - b) else None)"

text \<open>Big-endian encodings: \<open>n\<close> octets of a natural number, and the number they denote.\<close>

primrec be_of_nat :: "nat \<Rightarrow> nat \<Rightarrow> bytes" where
  "be_of_nat 0 x = []"
| "be_of_nat (Suc n) x = be_of_nat n (x div 256) @ [of_nat (x mod 256)]"

definition nat_of_be :: "bytes \<Rightarrow> nat" where
  "nat_of_be bs = foldl (\<lambda>acc b. acc * 256 + unat b) 0 bs"

definition u16_to_be :: "u16 \<Rightarrow> bytes" where
  "u16_to_be w = be_of_nat 2 (unat w)"

definition u16_from_be :: "bytes \<Rightarrow> u16" where
  "u16_from_be bs = of_nat (nat_of_be bs)"

text \<open>Strings and bytes: \<open>as_bytes\<close> is free, the other direction is checked in \<open>Rust_Str\<close>.\<close>

definition as_bytes :: "str \<Rightarrow> bytes" where
  "as_bytes s = map of_char s"

definition chars_of_bytes :: "bytes \<Rightarrow> str" where
  "chars_of_bytes bs = map (\<lambda>b. char_of (unat b)) bs"

section \<open>Automation\<close>

named_theorems rust_defs \<open>definitions of Rust operations to unfold when evaluating\<close>

declare ok_or_def [rust_defs] get_def [rust_defs] get_range_def [rust_defs]
  checked_add_def [rust_defs] checked_sub_def [rust_defs] is_ok_def [rust_defs]

lemma bindR_simps [simp]:
  "bindR (Ok x) f = f x"
  "bindR (Err e) f = Err e"
  by (simp_all add: bindR_def)

lemma bindR_eq_Ok [simp]: "bindR r f = Ok y \<longleftrightarrow> (\<exists>x. r = Ok x \<and> f x = Ok y)"
  by (cases r) auto

lemma bindR_eq_Err: "bindR r f = Err e \<longleftrightarrow> r = Err e \<or> (\<exists>x. r = Ok x \<and> f x = Err e)"
  by (cases r) auto

lemma map_err_simps [simp]:
  "map_err g (Ok x) = Ok x"
  "map_err g (Err e) = Err (g e)"
  by (simp_all add: map_err_def)

lemma map_err_eq_Ok [simp]: "map_err g r = Ok x \<longleftrightarrow> r = Ok x"
  by (cases r) auto

lemma map_err_eq_Err: "map_err g r = Err e \<longleftrightarrow> (\<exists>d. r = Err d \<and> e = g d)"
  by (cases r) auto

lemma ok_or_simps [simp]:
  "ok_or e (Some x) = Ok x"
  "ok_or e None = Err e"
  by (simp_all add: ok_or_def)

lemma ok_or_eq_Ok [simp]: "ok_or e opt = Ok x \<longleftrightarrow> opt = Some x"
  by (cases opt) auto

lemma ok_or_eq_Err: "ok_or e opt = Err d \<longleftrightarrow> opt = None \<and> d = e"
  by (cases opt) auto

lemma is_ok_simps [simp]:
  "is_ok (Ok x)"
  "\<not> is_ok (Err e)"
  by (simp_all add: is_ok_def)

lemma is_ok_iff: "is_ok r \<longleftrightarrow> (\<exists>x. r = Ok x)"
  by (cases r) auto

lemma collectR_Ok_iff:
  "collectR f xs = Ok ys \<longleftrightarrow> list_all2 (\<lambda>x y. f x = Ok y) xs ys"
  by (induction xs arbitrary: ys) (auto simp: list_all2_Cons1)

lemma collectR_set:
  assumes "collectR f xs = Ok ys"
  shows "set ys = {y. \<exists>x \<in> set xs. f x = Ok y}"
  using assms
proof (induction xs arbitrary: ys)
  case Nil
  then show ?case by simp
next
  case (Cons x xs)
  then show ?case by auto
qed

lemma map_fixed: "map f xs = xs \<Longrightarrow> x \<in> set xs \<Longrightarrow> f x = x"
  by (induction xs) auto

section \<open>Slices and checked arithmetic\<close>

lemma get_Some_iff [simp]: "get xs i = Some x \<longleftrightarrow> i < length xs \<and> xs ! i = x"
  by (auto simp: get_def)

lemma get_None_iff [simp]: "get xs i = None \<longleftrightarrow> length xs \<le> i"
  by (auto simp: get_def)

lemma get_range_Some_iff:
  "get_range xs a b = Some ys \<longleftrightarrow> a \<le> b \<and> b \<le> length xs \<and> ys = take (b - a) (drop a xs)"
  by (auto simp: get_range_def)

lemma get_range_length: "get_range xs a b = Some ys \<Longrightarrow> length ys = b - a"
  by (auto simp: get_range_def split: if_splits)

lemma get_range_append_mid:
  "length xs = a \<Longrightarrow> length ys = n \<Longrightarrow> get_range (xs @ ys @ zs) a (a + n) = Some ys"
  by (simp add: get_range_def)

lemma checked_add_Some_iff [simp]:
  "checked_add a b = Some c \<longleftrightarrow> a + b < usize_bound \<and> c = a + b"
  by (auto simp: checked_add_def)

lemma checked_sub_Some_iff [simp]: "checked_sub a b = Some c \<longleftrightarrow> b \<le> a \<and> c = a - b"
  by (auto simp: checked_sub_def)

section \<open>Big-endian encodings\<close>

lemma length_be_of_nat [simp]: "length (be_of_nat n x) = n"
  by (induction n arbitrary: x) auto

lemma nat_of_be_Nil [simp]: "nat_of_be [] = 0"
  by (simp add: nat_of_be_def)

lemma nat_of_be_snoc [simp]: "nat_of_be (bs @ [b]) = nat_of_be bs * 256 + unat b"
  by (simp add: nat_of_be_def)

lemma unat_byte_of_nat [simp]: "unat (of_nat (x mod 256) :: u8) = x mod 256"
  by (simp add: unat_of_nat)

lemma nat_of_be_of_nat: "nat_of_be (be_of_nat n x) = x mod 256 ^ n"
proof (induction n arbitrary: x)
  case 0
  then show ?case by simp
next
  case (Suc n)
  have "nat_of_be (be_of_nat (Suc n) x) = (x div 256) mod 256 ^ n * 256 + x mod 256"
    by (simp add: Suc.IH)
  also have "\<dots> = x mod 256 ^ Suc n"
    using mod_mult2_eq [of x 256 "256 ^ n"] by (simp add: mult.commute)
  finally show ?case .
qed

lemma nat_of_be_less: "nat_of_be bs < 256 ^ length bs"
proof (induction bs rule: rev_induct)
  case Nil
  then show ?case by simp
next
  case (snoc b bs)
  have "unat b < 256" using unsigned_less [of b, where 'a = nat] by simp
  with snoc show ?case by simp
qed

lemma be_of_nat_of_be: "be_of_nat (length bs) (nat_of_be bs) = bs"
proof (induction bs rule: rev_induct)
  case Nil
  then show ?case by simp
next
  case (snoc b bs)
  have b: "unat b < 256" using unsigned_less [of b, where 'a = nat] by simp
  then have "(nat_of_be bs * 256 + unat b) div 256 = nat_of_be bs"
    and "(nat_of_be bs * 256 + unat b) mod 256 = unat b"
    by simp_all
  with snoc show ?case by simp
qed

lemma length_u16_to_be [simp]: "length (u16_to_be w) = 2"
  by (simp add: u16_to_be_def)

lemma u16_from_to_be [simp]: "u16_from_be (u16_to_be w) = w"
proof -
  have "unat w < 256 ^ 2" using unsigned_less [of w, where 'a = nat] by simp
  then show ?thesis
    by (simp add: u16_from_be_def u16_to_be_def nat_of_be_of_nat)
qed

lemma length_as_bytes [simp]: "length (as_bytes s) = length s"
  by (simp add: as_bytes_def)

lemma chars_of_as_bytes [simp]: "chars_of_bytes (as_bytes s) = s"
proof -
  have "char_of (unat (of_char c :: u8)) = c" for c
  proof -
    have "(of_char c :: u8) = of_nat (of_char c)" by (simp add: of_nat_of_char)
    moreover have "of_char c < (256::nat)" by simp
    ultimately show ?thesis by (simp add: unat_of_nat)
  qed
  then show ?thesis by (simp add: chars_of_bytes_def as_bytes_def o_def)
qed

lemma as_chars_of_bytes [simp]: "as_bytes (chars_of_bytes bs) = bs"
proof -
  have "of_char (char_of (unat b)) = b" for b :: u8
  proof -
    have "(of_char (char_of (unat b)) :: u8) = of_nat (of_char (char_of (unat b)))"
      by (simp only: of_nat_of_char)
    also have "(of_char (char_of (unat b)) :: nat) = unat b"
      using unsigned_less [of b, where 'a = nat] by simp
    finally show ?thesis by simp
  qed
  then show ?thesis by (simp add: chars_of_bytes_def as_bytes_def o_def)
qed

end
