(* ===== verification/Rust_Str.thy ===== *)
theory Rust_Str
  imports Commeatus_Prelude
begin

text \<open>
  The part of Rust's standard library on \<open>str\<close>, integers and slices that the sources use:
  ASCII case folding, trimming and splitting (with the Unicode \<open>White_Space\<close> property, read
  off the UTF-8 bytes), \<open>lines\<close>, UTF-8 validation, unsigned integer parsing, and
  \<open>slice::binary_search_by\<close>.
\<close>

section \<open>ASCII\<close>

definition code :: "char \<Rightarrow> nat" where
  "code c = of_char c"

definition is_ascii :: "str \<Rightarrow> bool" where
  "is_ascii s = list_all (\<lambda>c. code c < 128) s"

definition to_lower :: "char \<Rightarrow> char" where
  "to_lower c = (if 65 \<le> code c \<and> code c \<le> 90 then char_of (code c + 32) else c)"

definition to_ascii_lowercase :: "str \<Rightarrow> str" where
  "to_ascii_lowercase s = map to_lower s"

definition eq_ignore_ascii_case :: "str \<Rightarrow> str \<Rightarrow> bool" where
  "eq_ignore_ascii_case a b = (to_ascii_lowercase a = to_ascii_lowercase b)"

definition is_ascii_alphanumeric :: "char \<Rightarrow> bool" where
  "is_ascii_alphanumeric c =
     (48 \<le> code c \<and> code c \<le> 57 \<or> 65 \<le> code c \<and> code c \<le> 90 \<or> 97 \<le> code c \<and> code c \<le> 122)"

section \<open>Prefixes, suffixes, splitting\<close>

definition strip_prefix :: "str \<Rightarrow> str \<Rightarrow> str option" where
  "strip_prefix p s = (if take (length p) s = p then Some (drop (length p) s) else None)"

definition strip_suffix :: "str \<Rightarrow> str \<Rightarrow> str option" where
  "strip_suffix p s =
     (if length p \<le> length s \<and> drop (length s - length p) s = p
      then Some (take (length s - length p) s) else None)"

definition starts_with :: "str \<Rightarrow> str \<Rightarrow> bool" where
  "starts_with p s = (take (length p) s = p)"

definition trim_start_matches :: "char \<Rightarrow> str \<Rightarrow> str" where
  "trim_start_matches c s = dropWhile (\<lambda>x. x = c) s"

definition trim_end_matches :: "char \<Rightarrow> str \<Rightarrow> str" where
  "trim_end_matches c s = rev (dropWhile (\<lambda>x. x = c) (rev s))"

definition trim_matches :: "char \<Rightarrow> str \<Rightarrow> str" where
  "trim_matches c s = trim_end_matches c (trim_start_matches c s)"

text \<open>\<open>split(c)\<close>: one more piece than separators, so a string without one is one piece.\<close>

fun split_on :: "char \<Rightarrow> str \<Rightarrow> str list" where
  "split_on c [] = [[]]"
| "split_on c (x # xs) =
     (if x = c then [] # split_on c xs
      else (case split_on c xs of [] \<Rightarrow> [[x]] | p # ps \<Rightarrow> (x # p) # ps))"

fun join_with :: "char \<Rightarrow> str list \<Rightarrow> str" where
  "join_with c [] = []"
| "join_with c [p] = p"
| "join_with c (p # q # ps) = p @ c # join_with c (q # ps)"

text \<open>\<open>find(c)\<close>, and the two \<open>split_once\<close> directions.\<close>

fun find_char :: "char \<Rightarrow> str \<Rightarrow> nat option" where
  "find_char c [] = None"
| "find_char c (x # xs) = (if x = c then Some 0 else map_option Suc (find_char c xs))"

definition split_once :: "char \<Rightarrow> str \<Rightarrow> (str \<times> str) option" where
  "split_once c s = (case find_char c s of None \<Rightarrow> None | Some i \<Rightarrow> Some (take i s, drop (Suc i) s))"

definition rsplit_once :: "char \<Rightarrow> str \<Rightarrow> (str \<times> str) option" where
  "rsplit_once c s =
     (case find_char c (rev s) of None \<Rightarrow> None
      | Some i \<Rightarrow> Some (take (length s - Suc i) s, drop (length s - i) s))"

definition split_crlf_first :: "str \<Rightarrow> str" where
  \<comment> \<open>the first piece of a split at the string CR LF\<close>
  "split_crlf_first s =
     (case List.find (\<lambda>i. take 2 (drop i s) = [CHR 0x0D, CHR 0x0A]) [0..<length s] of
        None \<Rightarrow> s | Some i \<Rightarrow> take i s)"

text \<open>\<open>lines()\<close>: a line ends at LF or CR LF; a final LF opens no further line.\<close>

definition strip_cr :: "str \<Rightarrow> str" where
  "strip_cr l = (if l \<noteq> [] \<and> last l = CHR 0x0D then butlast l else l)"

definition lines :: "str \<Rightarrow> str list" where
  "lines s =
     (let ps = split_on (CHR 0x0A) s
      in map strip_cr (butlast ps) @ (if last ps = [] then [] else [last ps]))"

section \<open>White space\<close>

text \<open>
  The length in bytes of the \<open>White_Space\<close> character a string begins with, 0 when it begins
  with none: U+0009 to U+000D, U+0020, U+0085, U+00A0, U+1680, U+2000 to U+200A, U+2028, U+2029,
  U+202F, U+205F and U+3000.
\<close>

definition ws1 :: "char \<Rightarrow> bool" where
  "ws1 a = (9 \<le> code a \<and> code a \<le> 13 \<or> code a = 32)"

definition ws2 :: "char \<Rightarrow> char \<Rightarrow> bool" where
  "ws2 a b = (code a = 0xC2 \<and> (code b = 0x85 \<or> code b = 0xA0))"

definition ws3 :: "char \<Rightarrow> char \<Rightarrow> char \<Rightarrow> bool" where
  "ws3 a b c =
     (code a = 0xE1 \<and> code b = 0x9A \<and> code c = 0x80 \<or>
      code a = 0xE2 \<and> code b = 0x80 \<and>
        (0x80 \<le> code c \<and> code c \<le> 0x8A \<or> code c = 0xA8 \<or> code c = 0xA9 \<or> code c = 0xAF) \<or>
      code a = 0xE2 \<and> code b = 0x81 \<and> code c = 0x9F \<or>
      code a = 0xE3 \<and> code b = 0x80 \<and> code c = 0x80)"

definition ws_len :: "str \<Rightarrow> nat" where
  "ws_len s =
     (case s of [] \<Rightarrow> 0
      | a # s1 \<Rightarrow>
          if ws1 a then 1
          else (case s1 of [] \<Rightarrow> 0
                | b # s2 \<Rightarrow>
                    if ws2 a b then 2
                    else (case s2 of [] \<Rightarrow> 0 | c # _ \<Rightarrow> if ws3 a b c then 3 else 0)))"

definition ws_len_rev :: "str \<Rightarrow> nat" where
  \<comment> \<open>the same at the end of a string, on the reversed string\<close>
  "ws_len_rev s =
     (case s of [] \<Rightarrow> 0
      | a # s1 \<Rightarrow>
          if ws1 a then 1
          else (case s1 of [] \<Rightarrow> 0
                | b # s2 \<Rightarrow>
                    if ws2 b a then 2
                    else (case s2 of [] \<Rightarrow> 0 | c # _ \<Rightarrow> if ws3 c b a then 3 else 0)))"

lemma ws_len_shrinks: "0 < ws_len s \<Longrightarrow> length s - ws_len s < length s"
  by (cases s) (simp_all add: ws_len_def)

lemma ws_len_rev_shrinks: "0 < ws_len_rev s \<Longrightarrow> length s - ws_len_rev s < length s"
  by (cases s) (simp_all add: ws_len_rev_def)

function trim_start :: "str \<Rightarrow> str" where
  "trim_start s = (if 0 < ws_len s then trim_start (drop (ws_len s) s) else s)"
  by pat_completeness auto
termination
  by (relation "measure length") (auto intro: ws_len_shrinks)

function trim_start_rev :: "str \<Rightarrow> str" where
  "trim_start_rev s = (if 0 < ws_len_rev s then trim_start_rev (drop (ws_len_rev s) s) else s)"
  by pat_completeness auto
termination
  by (relation "measure length") (auto intro: ws_len_rev_shrinks)

definition trim :: "str \<Rightarrow> str" where
  "trim s = rev (trim_start_rev (rev (trim_start s)))"

text \<open>\<open>split_whitespace()\<close>: the maximal runs of other characters; \<open>acc\<close> is the current run.\<close>

function split_ws :: "str \<Rightarrow> str \<Rightarrow> str list" where
  "split_ws acc s =
     (if s = [] then (if acc = [] then [] else [rev acc])
      else if 0 < ws_len s
      then (if acc = [] then [] else [rev acc]) @ split_ws [] (drop (ws_len s) s)
      else split_ws (hd s # acc) (tl s))"
  by pat_completeness auto
termination
  by (relation "measure (\<lambda>(acc, s). length s)") (auto simp: neq_Nil_conv)

definition split_whitespace :: "str \<Rightarrow> str list" where
  "split_whitespace s = split_ws [] s"

declare trim_start.simps [simp del] trim_start_rev.simps [simp del] split_ws.simps [simp del]

section \<open>UTF-8\<close>

definition cont :: "u8 \<Rightarrow> bool" where
  "cont b = (0x80 \<le> b \<and> b \<le> 0xBF)"

text \<open>The well-formed byte sequences of the Unicode standard, as \<open>core::str::from_utf8\<close> takes them.\<close>

fun utf8_valid :: "bytes \<Rightarrow> bool" where
  "utf8_valid [] = True"
| "utf8_valid (a # r) =
     (if a < 0x80 then utf8_valid r
      else if 0xC2 \<le> a \<and> a \<le> 0xDF then
        (case r of b # r' \<Rightarrow> cont b \<and> utf8_valid r' | _ \<Rightarrow> False)
      else if 0xE0 \<le> a \<and> a \<le> 0xEF then
        (case r of b # c # r' \<Rightarrow>
           cont b \<and> (a = 0xE0 \<longrightarrow> 0xA0 \<le> b) \<and> (a = 0xED \<longrightarrow> b \<le> 0x9F) \<and> cont c \<and> utf8_valid r'
         | _ \<Rightarrow> False)
      else if 0xF0 \<le> a \<and> a \<le> 0xF4 then
        (case r of b # c # d # r' \<Rightarrow>
           cont b \<and> (a = 0xF0 \<longrightarrow> 0x90 \<le> b) \<and> (a = 0xF4 \<longrightarrow> b \<le> 0x8F) \<and>
           cont c \<and> cont d \<and> utf8_valid r'
         | _ \<Rightarrow> False)
      else False)"

definition from_utf8 :: "bytes \<Rightarrow> str option" where
  "from_utf8 bs = (if utf8_valid bs then Some (chars_of_bytes bs) else None)"

text \<open>\<open>is_char_boundary\<close> and the range access \<open>get(i..)\<close> that depends on it.\<close>

definition is_char_boundary :: "str \<Rightarrow> nat \<Rightarrow> bool" where
  "is_char_boundary s i =
     (i = 0 \<or> i = length s \<or> (i < length s \<and> (code (s ! i) < 128 \<or> 192 \<le> code (s ! i))))"

definition str_get_from :: "str \<Rightarrow> nat \<Rightarrow> str option" where
  "str_get_from s i = (if is_char_boundary s i then Some (drop i s) else None)"

section \<open>Unsigned integers\<close>

definition digit_value :: "nat \<Rightarrow> char \<Rightarrow> nat option" where
  \<comment> \<open>\<open>char::to_digit(radix)\<close> for radix 10 and 16\<close>
  "digit_value radix c =
     (let v = (if 48 \<le> code c \<and> code c \<le> 57 then code c - 48
               else if 97 \<le> code c \<and> code c \<le> 122 then code c - 87
               else if 65 \<le> code c \<and> code c \<le> 90 then code c - 55
               else 36)
      in if v < radix then Some v else None)"

fun parse_digits :: "nat \<Rightarrow> nat \<Rightarrow> str \<Rightarrow> nat option" where
  "parse_digits bound acc [] = Some acc"
| "parse_digits bound acc (c # cs) =
     (case digit_value 10 c of None \<Rightarrow> None
      | Some d \<Rightarrow> if acc * 10 + d < bound then parse_digits bound (acc * 10 + d) cs else None)"

text \<open>\<open>str::parse\<close> at an unsigned type with \<open>bound\<close> values: an optional plus sign, then digits.\<close>

definition parse_uint :: "nat \<Rightarrow> str \<Rightarrow> nat option" where
  "parse_uint bound s =
     (case s of [] \<Rightarrow> None
      | c # cs \<Rightarrow> if c = CHR ''+'' then (if cs = [] then None else parse_digits bound 0 cs)
                 else parse_digits bound 0 s)"

definition parse_u8 :: "str \<Rightarrow> u8 option" where
  "parse_u8 s = map_option of_nat (parse_uint 256 s)"

definition parse_u16 :: "str \<Rightarrow> u16 option" where
  "parse_u16 s = map_option of_nat (parse_uint 65536 s)"

section \<open>Binary search\<close>

text \<open>
  The loop of \<open>slice::binary_search_by\<close>: \<open>base\<close> and \<open>size\<close> shrink until one candidate
  is left; the comparison orders the element against the needle.
\<close>

function bsearch_loop :: "('a::linorder) list \<Rightarrow> 'a \<Rightarrow> nat \<Rightarrow> nat \<Rightarrow> nat" where
  "bsearch_loop xs x base sz =
     (if 1 < sz then
        let half = sz div 2; mid = base + half
        in bsearch_loop xs x (if x < xs ! mid then base else mid) (sz - half)
      else base)"
  by pat_completeness auto
termination
  by (relation "measure (\<lambda>(xs, x, base, sz). sz)") auto

declare bsearch_loop.simps [simp del]

definition binary_search :: "('a::linorder) list \<Rightarrow> 'a \<Rightarrow> nat option" where
  "binary_search xs x =
     (if xs = [] then None
      else let base = bsearch_loop xs x 0 (length xs)
           in if xs ! base = x then Some base else None)"

section \<open>Case folding\<close>

lemma code_less [simp]: "code c < 256"
  by (simp add: code_def)

lemma code_char_of [simp]: "n < 256 \<Longrightarrow> code (char_of n) = n"
  by (simp add: code_def)

lemma code_inject [simp]: "code c = code d \<longleftrightarrow> c = d"
  by (simp add: code_def)

lemma code_to_lower: "code (to_lower c) = (if 65 \<le> code c \<and> code c \<le> 90 then code c + 32 else code c)"
  by (simp add: to_lower_def)

lemma to_lower_idem [simp]: "to_lower (to_lower c) = to_lower c"
  by (simp add: code_to_lower flip: code_inject)

lemma to_lower_dot [simp]: "to_lower c = CHR ''.'' \<longleftrightarrow> c = CHR ''.''"
proof -
  have "code (CHR ''.'') = 46" by (simp add: code_def)
  then show ?thesis by (auto simp: code_to_lower simp flip: code_inject)
qed

lemma to_lower_dot_eq [simp]: "to_lower (CHR ''.'') = CHR ''.''"
  by simp

lemma length_to_ascii_lowercase [simp]: "length (to_ascii_lowercase s) = length s"
  by (simp add: to_ascii_lowercase_def)

lemma to_ascii_lowercase_idem [simp]:
  "to_ascii_lowercase (to_ascii_lowercase s) = to_ascii_lowercase s"
  by (simp add: to_ascii_lowercase_def)

lemma to_ascii_lowercase_Nil_iff [simp]: "to_ascii_lowercase s = [] \<longleftrightarrow> s = []"
  by (simp add: to_ascii_lowercase_def)

lemma to_ascii_lowercase_append [simp]:
  "to_ascii_lowercase (a @ b) = to_ascii_lowercase a @ to_ascii_lowercase b"
  by (simp add: to_ascii_lowercase_def)

lemma is_ascii_to_ascii_lowercase [simp]: "is_ascii (to_ascii_lowercase s) = is_ascii s"
proof -
  have "code (to_lower c) < 128 \<longleftrightarrow> code c < 128" for c
    by (auto simp: code_to_lower)
  then show ?thesis
    by (simp add: is_ascii_def to_ascii_lowercase_def list_all_iff)
qed

lemma dot_in_lowercase [simp]: "CHR ''.'' \<in> set (to_ascii_lowercase s) \<longleftrightarrow> CHR ''.'' \<in> set s"
proof -
  have "CHR ''.'' = to_lower c \<longleftrightarrow> CHR ''.'' = c" for c
    using to_lower_dot [of c] by metis
  then show ?thesis by (auto simp: to_ascii_lowercase_def image_iff)
qed

lemma eq_ignore_ascii_case_refl [simp]: "eq_ignore_ascii_case s s"
  by (simp add: eq_ignore_ascii_case_def)

lemma eq_ignore_ascii_case_length: "eq_ignore_ascii_case a b \<Longrightarrow> length a = length b"
  by (metis eq_ignore_ascii_case_def length_to_ascii_lowercase)

section \<open>Splitting and joining\<close>

lemma split_on_not_Nil [simp]: "split_on c s \<noteq> []"
  by (cases s) (auto split: list.splits)

lemma join_split [simp]: "join_with c (split_on c s) = s"
proof (induction s)
  case Nil
  then show ?case by simp
next
  case (Cons x xs)
  obtain p ps where "split_on c xs = p # ps" by (cases "split_on c xs") auto
  with Cons show ?case by (cases ps) auto
qed

lemma split_on_no_sep: "p \<in> set (split_on c s) \<Longrightarrow> c \<notin> set p"
  by (induction s arbitrary: p) (auto split: if_splits list.splits)

lemma split_on_chars: "p \<in> set (split_on c s) \<Longrightarrow> set p \<subseteq> set s"
  by (induction s arbitrary: p) (fastforce split: if_splits list.splits)+

lemma split_on_append_sep:
  "c \<notin> set p \<Longrightarrow> split_on c (p @ c # s) = p # split_on c s"
  by (induction p) auto

lemma split_on_append: "split_on c (a @ c # b) = split_on c a @ split_on c b"
proof (induction a)
  case Nil
  then show ?case by simp
next
  case (Cons x xs)
  obtain p ps where "split_on c xs = p # ps" by (cases "split_on c xs") auto
  with Cons show ?case by simp
qed

lemma split_on_single: "c \<notin> set p \<Longrightarrow> split_on c p = [p]"
  by (induction p) auto

lemma split_join:
  "ps \<noteq> [] \<Longrightarrow> \<forall>p \<in> set ps. c \<notin> set p \<Longrightarrow> split_on c (join_with c ps) = ps"
  by (induction c ps rule: join_with.induct) (simp_all add: split_on_append_sep split_on_single)

lemma split_on_lowercase:
  "split_on (CHR ''.'') (to_ascii_lowercase s) = map to_ascii_lowercase (split_on (CHR ''.'') s)"
  by (induction s) (auto simp: to_ascii_lowercase_def split: list.splits)

section \<open>Trimming one character\<close>

lemma trim_end_matches_snoc [simp]:
  "trim_end_matches c (s @ [x]) = (if x = c then trim_end_matches c s else s @ [x])"
  by (simp add: trim_end_matches_def)

lemma trim_end_matches_Nil [simp]: "trim_end_matches c [] = []"
  by (simp add: trim_end_matches_def)

lemma trim_end_matches_last: "trim_end_matches c s \<noteq> [] \<Longrightarrow> last (trim_end_matches c s) \<noteq> c"
  by (induction s rule: rev_induct) auto

lemma trim_end_matches_id: "s = [] \<or> last s \<noteq> c \<Longrightarrow> trim_end_matches c s = s"
  by (cases s rule: rev_cases) auto

lemma trim_end_matches_idem [simp]:
  "trim_end_matches c (trim_end_matches c s) = trim_end_matches c s"
  using trim_end_matches_last [of c s] by (intro trim_end_matches_id) auto

lemma trim_start_matches_hd: "trim_start_matches c s \<noteq> [] \<Longrightarrow> hd (trim_start_matches c s) \<noteq> c"
  unfolding trim_start_matches_def by (rule hd_dropWhile)

lemma trim_end_matches_hd: "trim_end_matches c s \<noteq> [] \<Longrightarrow> hd (trim_end_matches c s) = hd s"
proof (induction s rule: rev_induct)
  case (snoc x xs)
  show ?case
  proof (cases "x = c")
    case True
    with snoc have "trim_end_matches c (xs @ [x]) = trim_end_matches c xs" "xs \<noteq> []"
      by auto
    with snoc show ?thesis by simp
  next
    case False
    then show ?thesis by simp
  qed
qed simp

lemma trim_matches_ends:
  assumes "trim_matches c s \<noteq> []"
  shows "hd (trim_matches c s) \<noteq> c" and "last (trim_matches c s) \<noteq> c"
proof -
  have "trim_start_matches c s \<noteq> []"
    using assms by (auto simp: trim_matches_def)
  then show "hd (trim_matches c s) \<noteq> c"
    using assms trim_end_matches_hd trim_start_matches_hd by (simp add: trim_matches_def)
  show "last (trim_matches c s) \<noteq> c"
    using assms trim_end_matches_last by (simp add: trim_matches_def)
qed

lemma trim_matches_id:
  assumes "s = [] \<or> hd s \<noteq> c \<and> last s \<noteq> c"
  shows "trim_matches c s = s"
proof -
  have "trim_start_matches c s = s"
    using assms by (cases s) (auto simp: trim_start_matches_def)
  with assms show ?thesis by (auto simp: trim_matches_def intro!: trim_end_matches_id)
qed

lemma trim_end_matches_lowercase:
  "trim_end_matches (CHR ''.'') (to_ascii_lowercase s)
     = to_ascii_lowercase (trim_end_matches (CHR ''.'') s)"
  by (induction s rule: rev_induct) (simp_all add: to_ascii_lowercase_def)

lemma trim_matches_lowercase:
  "trim_matches (CHR ''.'') (to_ascii_lowercase s)
     = to_ascii_lowercase (trim_matches (CHR ''.'') s)"
proof -
  have "trim_start_matches (CHR ''.'') (to_ascii_lowercase s)
     = to_ascii_lowercase (trim_start_matches (CHR ''.'') s)"
    by (induction s) (simp_all add: trim_start_matches_def to_ascii_lowercase_def)
  then show ?thesis by (simp add: trim_matches_def trim_end_matches_lowercase)
qed

lemma is_ascii_trim_end_matches: "is_ascii s \<Longrightarrow> is_ascii (trim_end_matches c s)"
  by (induction s rule: rev_induct) (auto simp: is_ascii_def)

section \<open>Finding a character\<close>

lemma find_char_SomeD:
  "find_char c s = Some i \<Longrightarrow> i < length s \<and> s ! i = c \<and> c \<notin> set (take i s)"
  by (induction s arbitrary: i) (auto split: if_splits)

lemma find_char_None_iff [simp]: "find_char c s = None \<longleftrightarrow> c \<notin> set s"
  by (induction s) auto

lemma find_char_append:
  "c \<notin> set p \<Longrightarrow> find_char c (p @ c # s) = Some (length p)"
  by (induction p) auto

lemma find_char_decompose:
  assumes "find_char c s = Some i"
  shows "s = take i s @ c # drop (Suc i) s"
  using find_char_SomeD [OF assms] id_take_nth_drop [of i s] by simp

lemma split_once_Some_iff:
  "split_once c s = Some (a, b) \<longleftrightarrow> s = a @ c # b \<and> c \<notin> set a"
proof
  assume "split_once c s = Some (a, b)"
  then obtain i where i: "find_char c s = Some i" and ab: "a = take i s" "b = drop (Suc i) s"
    by (auto simp: split_once_def split: option.splits)
  show "s = a @ c # b \<and> c \<notin> set a"
    using find_char_decompose [OF i] find_char_SomeD [OF i] by (simp add: ab)
next
  assume "s = a @ c # b \<and> c \<notin> set a"
  then show "split_once c s = Some (a, b)"
    by (simp add: split_once_def find_char_append)
qed

section \<open>UTF-8 of ASCII\<close>

lemma ascii_byte_less: "code c < 128 \<Longrightarrow> (of_char c :: u8) < 0x80"
proof -
  assume "code c < 128"
  moreover have "(of_char c :: u8) = of_nat (code c)"
    by (simp add: code_def of_nat_of_char)
  ultimately show ?thesis by (simp add: word_less_nat_alt unat_of_nat)
qed

lemma utf8_valid_ascii: "is_ascii s \<Longrightarrow> utf8_valid (as_bytes s)"
  by (induction s) (auto simp: is_ascii_def as_bytes_def ascii_byte_less)

lemma from_utf8_ascii [simp]: "is_ascii s \<Longrightarrow> from_utf8 (as_bytes s) = Some s"
  by (simp add: from_utf8_def utf8_valid_ascii)

lemma from_utf8_as_bytes: "from_utf8 bs = Some s \<Longrightarrow> as_bytes s = bs"
  by (auto simp: from_utf8_def split: if_splits)

text \<open>A well-formed string starts at a character boundary, also after leading separators.\<close>

definition utf8_str :: "str \<Rightarrow> bool" where
  "utf8_str s = utf8_valid (as_bytes s)"

lemma code_of_byte: "code c = unat (of_char c :: u8)"
proof -
  have "(of_char c :: u8) = of_nat (code c)"
    by (simp add: code_def of_nat_of_char)
  then show ?thesis by (simp add: unat_of_nat code_def)
qed

lemma utf8_hd_not_cont:
  assumes "utf8_str s" "s \<noteq> []"
  shows "code (hd s) < 128 \<or> 192 \<le> code (hd s)"
proof -
  obtain c r where s: "s = c # r" using assms by (cases s) auto
  have "(of_char c :: u8) < 0x80 \<or> (0xC2 :: u8) \<le> of_char c \<or> (0xE0 :: u8) \<le> of_char c \<or>
      (0xF0 :: u8) \<le> of_char c"
    using assms by (auto simp: utf8_str_def s as_bytes_def split: if_splits)
  then show ?thesis
    by (auto simp: s code_of_byte word_less_nat_alt word_le_nat_alt)
qed

lemma utf8_str_trim_start: "utf8_str s \<Longrightarrow> code c < 128 \<Longrightarrow> utf8_str (trim_start_matches c s)"
  by (induction s)
    (auto simp: utf8_str_def as_bytes_def trim_start_matches_def ascii_byte_less)

section \<open>Integer parsing\<close>

lemma parse_digits_bound: "parse_digits bound acc s = Some n \<Longrightarrow> acc < bound \<Longrightarrow> n < bound"
  by (induction bound acc s rule: parse_digits.induct) (auto split: option.splits if_splits)

lemma parse_uint_bound: "parse_uint bound s = Some n \<Longrightarrow> 0 < bound \<Longrightarrow> n < bound"
  by (cases s) (auto simp: parse_uint_def simp del: parse_digits.simps
      dest: parse_digits_bound split: if_splits)

section \<open>Binary search\<close>

text \<open>
  On a sorted slice the loop ends at the last element not above the needle, if there is one in
  the window, so the search finds the needle exactly when the slice holds it.
\<close>

lemma bsearch_loop_in_window:
  "0 < sz \<Longrightarrow> base + sz \<le> n \<Longrightarrow> bsearch_loop xs x base sz < n"
proof (induction xs x base sz rule: bsearch_loop.induct)
  case (1 xs x base sz)
  show ?case
  proof (cases "1 < sz")
    case True
    with 1 show ?thesis by (subst bsearch_loop.simps) (auto simp: Let_def)
  next
    case False
    with "1.prems" show ?thesis by (subst bsearch_loop.simps) auto
  qed
qed

lemma bsearch_loop_finds:
  assumes "sorted xs" "base \<le> j" "j < base + sz" "base + sz \<le> length xs" "xs ! j = x"
  shows "xs ! bsearch_loop xs x base sz = x"
  using assms
proof (induction xs x base sz arbitrary: j rule: bsearch_loop.induct)
  case (1 xs x base sz)
  show ?case
  proof (cases "1 < sz")
    case False
    with "1.prems" have "j = base" by simp
    with False "1.prems" show ?thesis by (subst bsearch_loop.simps) auto
  next
    case True
    define mid where "mid = base + sz div 2"
    have mid: "base \<le> mid" "mid < base + sz" "sz div 2 \<le> sz" "mid < length xs"
      using True "1.prems" by (auto simp: mid_def)
    show ?thesis
    proof (cases "x < xs ! mid")
      case lt: True
      then have "j < mid"
        using "1.prems" mid sorted_nth_mono [of xs mid j] by (meson leD not_le_imp_less order.strict_trans2)
      then have "j < base + (sz - sz div 2)" using True by (simp add: mid_def)
      then have "xs ! bsearch_loop xs x base (sz - sz div 2) = x"
        using "1.IH" [OF True refl refl, of j] lt "1.prems" mid by (simp add: mid_def)
      with True lt show ?thesis by (subst bsearch_loop.simps) (simp add: Let_def mid_def)
    next
      case ge: False
      have "\<exists>k. mid \<le> k \<and> k < base + sz \<and> xs ! k = x"
      proof (cases "mid \<le> j")
        case True
        with "1.prems" show ?thesis by auto
      next
        case False
        then have "xs ! j \<le> xs ! mid"
          using "1.prems"(1) mid(4) by (intro sorted_nth_mono) auto
        with ge "1.prems" mid show ?thesis by auto
      qed
      then obtain k where "mid \<le> k" "k < base + sz" "xs ! k = x" by blast
      then have "xs ! bsearch_loop xs x mid (sz - sz div 2) = x"
        using "1.IH" [OF True refl refl, of k] ge "1.prems" mid by (simp add: mid_def)
      with True ge show ?thesis by (subst bsearch_loop.simps) (simp add: Let_def mid_def)
    qed
  qed
qed

theorem binary_search_iff:
  assumes "sorted xs"
  shows "binary_search xs x \<noteq> None \<longleftrightarrow> x \<in> set xs"
proof
  assume "binary_search xs x \<noteq> None"
  then have "xs \<noteq> []" and "xs ! bsearch_loop xs x 0 (length xs) = x"
    by (auto simp: binary_search_def Let_def split: if_splits)
  then show "x \<in> set xs"
    using bsearch_loop_in_window [of "length xs" 0 "length xs"] by (metis add_0 le_refl length_greater_0_conv nth_mem)
next
  assume "x \<in> set xs"
  then obtain j where "j < length xs" "xs ! j = x" by (auto simp: in_set_conv_nth)
  then show "binary_search xs x \<noteq> None"
    using bsearch_loop_finds [OF assms, of 0 j "length xs"] by (auto simp: binary_search_def Let_def)
qed

end
