(* ===== verification/Std_Net.thy ===== *)
theory Std_Net
  imports Rust_Str "HOL-Library.Monad_Syntax"
begin

text \<open>
  \<open>std::net\<close>: addresses as the integers they denote, socket addresses, their octets, and the
  parser behind \<open>str::parse\<close> (\<open>core::net::parser\<close>). A reader takes the remaining input and
  returns a value with what is left, or \<open>None\<close>, in which case the caller still has the input it
  started with (\<open>read_atomically\<close>).
\<close>

section \<open>Addresses\<close>

datatype ip_addr = V4 u32 | V6 u128

datatype socket_addr = SockV4 u32 u16 | SockV6 u128 u16 u32 u32

definition socket_addr_new :: "ip_addr \<Rightarrow> u16 \<Rightarrow> socket_addr" where
  "socket_addr_new ip port = (case ip of V4 a \<Rightarrow> SockV4 a port | V6 a \<Rightarrow> SockV6 a port 0 0)"

fun sock_ip :: "socket_addr \<Rightarrow> ip_addr" where
  "sock_ip (SockV4 a p) = V4 a"
| "sock_ip (SockV6 a p f s) = V6 a"

fun sock_port :: "socket_addr \<Rightarrow> u16" where
  "sock_port (SockV4 a p) = p"
| "sock_port (SockV6 a p f s) = p"

fun sock_is_ipv4 :: "socket_addr \<Rightarrow> bool" where
  "sock_is_ipv4 (SockV4 a p) = True"
| "sock_is_ipv4 (SockV6 a p f s) = False"

definition v4_octets :: "u32 \<Rightarrow> bytes" where
  "v4_octets a = be_of_nat 4 (unat a)"

definition v6_octets :: "u128 \<Rightarrow> bytes" where
  "v6_octets a = be_of_nat 16 (unat a)"

definition v4_from_octets :: "bytes \<Rightarrow> u32" where
  "v4_from_octets bs = of_nat (nat_of_be bs)"

definition v6_from_octets :: "bytes \<Rightarrow> u128" where
  "v6_from_octets bs = of_nat (nat_of_be bs)"

fun ip_is_loopback :: "ip_addr \<Rightarrow> bool" where
  "ip_is_loopback (V4 a) = (drop_bit 24 a = 127)"
| "ip_is_loopback (V6 a) = (a = 1)"

fun ip_is_unspecified :: "ip_addr \<Rightarrow> bool" where
  "ip_is_unspecified (V4 a) = (a = 0)"
| "ip_is_unspecified (V6 a) = (a = 0)"

section \<open>The parser\<close>

type_synonym 'a reader = "str \<Rightarrow> ('a \<times> str) option"

fun read_given_char :: "char \<Rightarrow> unit reader" where
  "read_given_char c [] = None"
| "read_given_char c (x # xs) = (if x = c then Some ((), xs) else None)"

definition digits_value :: "nat \<Rightarrow> str \<Rightarrow> nat" where
  "digits_value radix ds =
     foldl (\<lambda>acc c. acc * radix + (case digit_value radix c of Some d \<Rightarrow> d | None \<Rightarrow> 0)) 0 ds"

text \<open>
  \<open>read_number(radix, max_digits, allow_zero_prefix)\<close> at a type with \<open>bound\<close> values: the
  maximal run of digits, at most \<open>max_digits\<close> of them, whose value fits the type.
\<close>

definition read_number :: "nat \<Rightarrow> nat option \<Rightarrow> bool \<Rightarrow> nat \<Rightarrow> nat reader" where
  "read_number radix max_digits allow_zero_prefix bound s =
     (let ds = takeWhile (\<lambda>c. digit_value radix c \<noteq> None) s; v = digits_value radix ds
      in if ds = [] then None
         else if (case max_digits of Some m \<Rightarrow> m < length ds | None \<Rightarrow> False) then None
         else if \<not> allow_zero_prefix \<and> hd ds = CHR ''0'' \<and> 1 < length ds then None
         else if bound \<le> v then None
         else Some (v, drop (length ds) s))"

definition read_octet :: "nat reader" where
  "read_octet = read_number 10 (Some 3) False 256"

definition read_ipv4_addr :: "u32 reader" where
  "read_ipv4_addr s = do {
     (a, s) \<leftarrow> read_octet s;
     (_, s) \<leftarrow> read_given_char (CHR ''.'') s;
     (b, s) \<leftarrow> read_octet s;
     (_, s) \<leftarrow> read_given_char (CHR ''.'') s;
     (c, s) \<leftarrow> read_octet s;
     (_, s) \<leftarrow> read_given_char (CHR ''.'') s;
     (d, s) \<leftarrow> read_octet s;
     Some (of_nat (((a * 256 + b) * 256 + c) * 256 + d), s)
   }"

text \<open>\<open>read_separator(':', index, inner)\<close>: no separator before the first group.\<close>

definition read_separator :: "char \<Rightarrow> nat \<Rightarrow> 'a reader \<Rightarrow> 'a reader" where
  "read_separator sep index inner s =
     (if 0 < index then do { (_, s) \<leftarrow> read_given_char sep s; inner s } else inner s)"

text \<open>
  \<open>read_groups\<close>: the 16-bit groups read from index \<open>i\<close> on, whether the last two came from an
  embedded IPv4 address, and the rest of the input.
\<close>

function read_groups :: "nat \<Rightarrow> nat \<Rightarrow> str \<Rightarrow> nat list \<times> bool \<times> str" where
  "read_groups limit i s =
     (if i < limit then
        (case (if i < limit - 1 then read_separator (CHR '':'') i read_ipv4_addr s else None) of
           Some (v4, s') \<Rightarrow> ([unat v4 div 65536, unat v4 mod 65536], True, s')
         | None \<Rightarrow>
             (case read_separator (CHR '':'') i (read_number 16 (Some 4) True 65536) s of
                None \<Rightarrow> ([], False, s)
              | Some (g, s') \<Rightarrow>
                  (case read_groups limit (Suc i) s' of (gs, v4, r) \<Rightarrow> (g # gs, v4, r))))
      else ([], False, s))"
  by pat_completeness auto
termination
  by (relation "measure (\<lambda>(limit, i, s). limit - i)") auto

declare read_groups.simps [simp del]

definition v6_of_groups :: "nat list \<Rightarrow> u128" where
  "v6_of_groups gs = of_nat (foldl (\<lambda>acc g. acc * 65536 + g) 0 gs)"

definition read_ipv6_addr :: "u128 reader" where
  "read_ipv6_addr s =
     (case read_groups 8 0 s of (head, head_ipv4, s) \<Rightarrow>
        if length head = 8 then Some (v6_of_groups head, s)
        else if head_ipv4 then None
        else do {
          (_, s) \<leftarrow> read_given_char (CHR '':'') s;
          (_, s) \<leftarrow> read_given_char (CHR '':'') s;
          (case read_groups (8 - (length head + 1)) 0 s of (tail, _, s) \<Rightarrow>
             Some (v6_of_groups (head @ replicate (8 - length tail - length head) 0 @ tail), s))
        })"

definition read_ip_addr :: "ip_addr reader" where
  "read_ip_addr s =
     (case read_ipv4_addr s of Some (a, r) \<Rightarrow> Some (V4 a, r)
      | None \<Rightarrow> (case read_ipv6_addr s of Some (a, r) \<Rightarrow> Some (V6 a, r) | None \<Rightarrow> None))"

definition read_port :: "nat reader" where
  "read_port s = do { (_, s) \<leftarrow> read_given_char (CHR '':'') s; read_number 10 None True 65536 s }"

definition read_scope_id :: "nat reader" where
  "read_scope_id s =
     do { (_, s) \<leftarrow> read_given_char (CHR ''%'') s; read_number 10 None True (2 ^ 32) s }"

definition read_socket_addr_v4 :: "socket_addr reader" where
  "read_socket_addr_v4 s = do {
     (ip, s) \<leftarrow> read_ipv4_addr s;
     (port, s) \<leftarrow> read_port s;
     Some (SockV4 ip (of_nat port), s)
   }"

definition read_socket_addr_v6 :: "socket_addr reader" where
  "read_socket_addr_v6 s = do {
     (_, s) \<leftarrow> read_given_char (CHR ''['') s;
     (ip, s) \<leftarrow> read_ipv6_addr s;
     (scope_id, s) \<leftarrow> (case read_scope_id s of Some r \<Rightarrow> Some r | None \<Rightarrow> Some (0, s));
     (_, s) \<leftarrow> read_given_char (CHR '']'') s;
     (port, s) \<leftarrow> read_port s;
     Some (SockV6 ip (of_nat port) 0 (of_nat scope_id), s)
   }"

definition read_socket_addr :: "socket_addr reader" where
  "read_socket_addr s =
     (case read_socket_addr_v4 s of Some r \<Rightarrow> Some r | None \<Rightarrow> read_socket_addr_v6 s)"

text \<open>\<open>parse_with\<close>: the reader must use up the whole input.\<close>

definition parse_with :: "'a reader \<Rightarrow> str \<Rightarrow> 'a option" where
  "parse_with p s = (case p s of Some (x, r) \<Rightarrow> if r = [] then Some x else None | None \<Rightarrow> None)"

definition parse_ip_addr :: "str \<Rightarrow> ip_addr option" where
  "parse_ip_addr s = parse_with read_ip_addr s"

definition parse_socket_addr :: "str \<Rightarrow> socket_addr option" where
  "parse_socket_addr s = parse_with read_socket_addr s"

section \<open>Octets\<close>

lemma length_v4_octets [simp]: "length (v4_octets a) = 4"
  by (simp add: v4_octets_def)

lemma length_v6_octets [simp]: "length (v6_octets a) = 16"
  by (simp add: v6_octets_def)

lemma v4_from_to_octets [simp]: "v4_from_octets (v4_octets a) = a"
proof -
  have "unat a < 256 ^ 4" using unsigned_less [of a, where 'a = nat] by simp
  then show ?thesis by (simp add: v4_from_octets_def v4_octets_def nat_of_be_of_nat)
qed

lemma v6_from_to_octets [simp]: "v6_from_octets (v6_octets a) = a"
proof -
  have "unat a < 256 ^ 16" using unsigned_less [of a, where 'a = nat] by simp
  then show ?thesis by (simp add: v6_from_octets_def v6_octets_def nat_of_be_of_nat)
qed

lemma v4_to_from_octets: "length bs = 4 \<Longrightarrow> v4_octets (v4_from_octets bs) = bs"
  using nat_of_be_less [of bs] be_of_nat_of_be [of bs]
  by (simp add: v4_from_octets_def v4_octets_def unat_of_nat)

lemma v6_to_from_octets: "length bs = 16 \<Longrightarrow> v6_octets (v6_from_octets bs) = bs"
  using nat_of_be_less [of bs] be_of_nat_of_be [of bs]
  by (simp add: v6_from_octets_def v6_octets_def unat_of_nat)

lemma u16_to_from_be: "length bs = 2 \<Longrightarrow> u16_to_be (u16_from_be bs) = bs"
  using nat_of_be_less [of bs] be_of_nat_of_be [of bs]
  by (simp add: u16_from_be_def u16_to_be_def unat_of_nat)

lemma sock_ip_new [simp]: "sock_ip (socket_addr_new ip port) = ip"
  by (simp add: socket_addr_new_def split: ip_addr.splits)

lemma sock_port_new [simp]: "sock_port (socket_addr_new ip port) = port"
  by (simp add: socket_addr_new_def split: ip_addr.splits)

end
