(* ===== verification/Flow_Plan.thy ===== *)
theory Flow_Plan
  imports Std_Net Rust_Str
begin

text \<open>
  \<open>crates/core/src/flow.rs\<close> and \<open>plan.rs\<close>: the canonical flow the adapters build, the
  identities of rules and endpoints, and the execution plan the runtime returns. Field names carry
  the initial of their struct.
\<close>

section \<open>Flows\<close>

datatype flow_id = FlowId u64

definition flow_id_new :: "u64 \<Rightarrow> flow_id" where
  "flow_id_new v = FlowId v"

fun flow_id_get :: "flow_id \<Rightarrow> u64" where
  "flow_id_get (FlowId v) = v"

record source_context =
  s_uid :: "u32 option"
  s_package :: "str option"

definition source_default :: source_context where
  "source_default = \<lparr>s_uid = None, s_package = None\<rparr>"

datatype destination_host = HDomain str | HIp ip_addr

record destination =
  d_host :: destination_host
  d_port :: u16

datatype transport_protocol = Tcp | Udp

datatype network_kind = UnknownNet | Ethernet | Wifi | Cellular

record network_context =
  n_kind :: network_kind
  n_interface :: "str option"

definition network_default :: network_context where
  "network_default = \<lparr>n_kind = UnknownNet, n_interface = None\<rparr>"

record flow_context =
  f_id :: flow_id
  f_source :: source_context
  f_destination :: destination
  f_transport :: transport_protocol
  f_network :: network_context

definition flow_new ::
  "flow_id \<Rightarrow> source_context \<Rightarrow> destination \<Rightarrow> transport_protocol \<Rightarrow> network_context \<Rightarrow> flow_context"
where
  "flow_new i s d t n =
     \<lparr>f_id = i, f_source = s, f_destination = d, f_transport = t, f_network = n\<rparr>"

section \<open>Endpoints and plans\<close>

definition MAX_ENDPOINT_ID_LENGTH :: nat where
  "MAX_ENDPOINT_ID_LENGTH = 64"

datatype endpoint_id = EndpointId str

datatype endpoint_id_error = EndpointIdError

definition endpoint_char :: "char \<Rightarrow> bool" where
  "endpoint_char c = (is_ascii_alphanumeric c \<or> c \<in> {CHR ''-'', CHR ''_'', CHR ''.''})"

definition endpoint_id_new :: "str \<Rightarrow> (endpoint_id, endpoint_id_error) result" where
  "endpoint_id_new value =
     (if value = [] \<or> MAX_ENDPOINT_ID_LENGTH < length value \<or> \<not> list_all endpoint_char value
      then Err EndpointIdError
      else Ok (EndpointId value))"

fun endpoint_id_str :: "endpoint_id \<Rightarrow> str" where
  "endpoint_id_str (EndpointId s) = s"

datatype endpoint = Direct | Proxy endpoint_id

datatype reject_reason = RPolicy | RSecurity | RUnsupported

datatype execution_action = ERoute endpoint | EReject reject_reason

datatype rule_id = RuleId u64

definition rule_id_new :: "u64 \<Rightarrow> rule_id" where
  "rule_id_new v = RuleId v"

fun rule_id_get :: "rule_id \<Rightarrow> u64" where
  "rule_id_get (RuleId v) = v"

datatype policy_tier = UserHard | Safety | Compatibility | Adaptive | DefaultTier

fun tier_rank :: "policy_tier \<Rightarrow> u8" where
  "tier_rank UserHard = 0"
| "tier_rank Safety = 1"
| "tier_rank Compatibility = 2"
| "tier_rank Adaptive = 3"
| "tier_rank DefaultTier = 4"

record execution_plan =
  p_flow_id :: flow_id
  p_action :: execution_action
  p_matched_rule :: "rule_id option"
  p_tier :: policy_tier

section \<open>Lemmas\<close>

lemma endpoint_id_new_Ok_iff:
  "endpoint_id_new v = Ok e \<longleftrightarrow>
     e = EndpointId v \<and> v \<noteq> [] \<and> length v \<le> MAX_ENDPOINT_ID_LENGTH \<and> list_all endpoint_char v"
  by (auto simp: endpoint_id_new_def)

lemma endpoint_id_new_str [simp]: "endpoint_id_new v = Ok e \<Longrightarrow> endpoint_id_str e = v"
  by (auto simp: endpoint_id_new_Ok_iff)

text \<open>
  The documented authority of tiers, strongest first and in the order of their declaration, as a
  linear order of its own; the ranks the engine sorts by agree with it.
\<close>

definition tiers_by_authority :: "policy_tier list" where
  "tiers_by_authority = [UserHard, Safety, Compatibility, Adaptive, DefaultTier]"

instantiation policy_tier :: linorder
begin

definition less_eq_policy_tier :: "policy_tier \<Rightarrow> policy_tier \<Rightarrow> bool" where
  "a \<le> b \<longleftrightarrow> b \<in> set (dropWhile (\<lambda>t. t \<noteq> a) tiers_by_authority)"

definition less_policy_tier :: "policy_tier \<Rightarrow> policy_tier \<Rightarrow> bool" where
  "(a :: policy_tier) < b \<longleftrightarrow> a \<le> b \<and> a \<noteq> b"

instance
proof
  fix a b c :: policy_tier
  show "a < b \<longleftrightarrow> a \<le> b \<and> \<not> b \<le> a"
    by (cases a; cases b) (simp_all add: less_policy_tier_def less_eq_policy_tier_def tiers_by_authority_def)
  show "a \<le> a" "a \<le> b \<or> b \<le> a" "a \<le> b \<Longrightarrow> b \<le> a \<Longrightarrow> a = b"
    by (cases a; cases b; simp add: less_eq_policy_tier_def tiers_by_authority_def)+
  show "a \<le> b \<Longrightarrow> b \<le> c \<Longrightarrow> a \<le> c"
    by (cases a; cases b; cases c) (simp_all add: less_eq_policy_tier_def tiers_by_authority_def)
qed

end

lemma tier_rank_mono [simp]: "tier_rank a \<le> tier_rank b \<longleftrightarrow> a \<le> b"
  by (cases a; cases b) (simp_all add: less_eq_policy_tier_def tiers_by_authority_def word_le_nat_alt)

lemma tier_rank_strict_mono [simp]: "tier_rank a < tier_rank b \<longleftrightarrow> a < b"
  using tier_rank_mono [of b a] by (simp add: not_le [symmetric] del: tier_rank_mono)

lemma tier_rank_inj: "tier_rank a = tier_rank b \<longleftrightarrow> a = b"
  by (cases a; cases b) simp_all

lemma tier_DefaultTier_max [simp]: "t \<le> DefaultTier"
  by (cases t) (simp_all add: less_eq_policy_tier_def tiers_by_authority_def)

end
