(* ===== verification/Cidr.thy ===== *)
theory Cidr
  imports Std_Net
begin

text \<open>
  \<open>crates/core/src/cidr.rs\<close>: canonical IP networks. The mask functions keep the \<open>u8\<close>
  subtraction and the shift of the source at their widths, with the release profile's
  wrap-around and shift masking, so they are total; parsing is the only producer of networks in
  the program and it bounds the prefix (\<open>wf_cidr\<close>).
\<close>

section \<open>Definitions\<close>

datatype ip_cidr = CidrV4 u32 u8 | CidrV6 u128 u8

datatype cidr_parse_error = MissingPrefix | InvalidAddress | InvalidPrefix | PrefixOutOfRange

definition v4_mask :: "u8 \<Rightarrow> u32" where
  "v4_mask prefix = (if prefix = 0 then 0 else push_bit (unat ((32 - prefix) AND 31)) (- 1))"

definition v6_mask :: "u8 \<Rightarrow> u128" where
  "v6_mask prefix = (if prefix = 0 then 0 else push_bit (unat ((128 - prefix) AND 127)) (- 1))"

fun contains :: "ip_cidr \<Rightarrow> ip_addr \<Rightarrow> bool" where
  "contains (CidrV4 network prefix) (V4 address) = (address AND v4_mask prefix = network)"
| "contains (CidrV6 network prefix) (V6 address) = (address AND v6_mask prefix = network)"
| "contains _ _ = False"

definition cidr_from_str :: "str \<Rightarrow> (ip_cidr, cidr_parse_error) result" where
  "cidr_from_str value =
     bindR (ok_or MissingPrefix (split_once (CHR ''/'') value)) (\<lambda>(address, prefix).
     bindR (ok_or InvalidAddress (parse_ip_addr address)) (\<lambda>address.
     bindR (ok_or InvalidPrefix (parse_u8 prefix)) (\<lambda>prefix.
     (case address of
        V4 a \<Rightarrow> if prefix \<le> 32 then Ok (CidrV4 (a AND v4_mask prefix) prefix)
                else Err PrefixOutOfRange
      | V6 a \<Rightarrow> if prefix \<le> 128 then Ok (CidrV6 (a AND v6_mask prefix) prefix)
                else Err PrefixOutOfRange))))"

text \<open>The networks the parser builds: prefix in range, no host bits.\<close>

fun wf_cidr :: "ip_cidr \<Rightarrow> bool" where
  "wf_cidr (CidrV4 network prefix) = (prefix \<le> 32 \<and> network AND v4_mask prefix = network)"
| "wf_cidr (CidrV6 network prefix) = (prefix \<le> 128 \<and> network AND v6_mask prefix = network)"

text \<open>The specification: membership is equality of the leading prefix bits.\<close>

definition same_prefix :: "nat \<Rightarrow> 'a::len word \<Rightarrow> 'a word \<Rightarrow> bool" where
  "same_prefix p a b \<longleftrightarrow> drop_bit (LENGTH('a) - p) a = drop_bit (LENGTH('a) - p) b"

fun ip_same_prefix :: "nat \<Rightarrow> ip_addr \<Rightarrow> ip_addr \<Rightarrow> bool" where
  "ip_same_prefix p (V4 a) (V4 b) = same_prefix p b a"
| "ip_same_prefix p (V6 a) (V6 b) = same_prefix p b a"
| "ip_same_prefix p _ _ = False"

fun ip_width :: "ip_addr \<Rightarrow> nat" where
  "ip_width (V4 a) = 32"
| "ip_width (V6 a) = 128"

section \<open>Masks select the leading bits\<close>

lemma unat_and_mask: "unat (x AND mask k) = unat x mod 2 ^ k" for x :: u8
  by (simp only: take_bit_eq_mask [symmetric] unsigned_take_bit_eq) (simp only: take_bit_eq_mod)

lemma v4_shift: "p \<le> 32 \<Longrightarrow> unat ((32 - p) AND 31) = (32 - unat p) mod 32" for p :: u8
proof -
  assume p: "p \<le> 32"
  have "(31 :: u8) = mask 5" by (simp add: mask_eq_exp_minus_1)
  then show ?thesis
    using p unat_and_mask [of "32 - p" 5] by (simp add: unat_sub)
qed

lemma v6_shift: "p \<le> 128 \<Longrightarrow> unat ((128 - p) AND 127) = (128 - unat p) mod 128" for p :: u8
proof -
  assume p: "p \<le> 128"
  have "(127 :: u8) = mask 7" by (simp add: mask_eq_exp_minus_1)
  then show ?thesis
    using p unat_and_mask [of "128 - p" 7] by (simp add: unat_sub)
qed

lemma push_bit_full [simp]: "push_bit LENGTH('a) x = 0" for x :: "'a::len word"
  by (rule bit_word_eqI) (simp add: bit_simps)

lemma v4_mask_eq:
  assumes "p \<le> 32"
  shows "v4_mask p = NOT (mask (32 - unat p))"
proof (cases "p = 0")
  case True
  have "NOT (mask 32) = (0 :: u32)" using push_bit_full [of "- 1 :: u32"] by simp
  with True show ?thesis by (simp add: v4_mask_def)
next
  case False
  then have "0 < unat p" by (simp add: unat_gt_0)
  then have "(32 - unat p) mod 32 = 32 - unat p" by simp
  with False show ?thesis by (simp add: v4_mask_def v4_shift [OF assms])
qed

lemma v6_mask_eq:
  assumes "p \<le> 128"
  shows "v6_mask p = NOT (mask (128 - unat p))"
proof (cases "p = 0")
  case True
  have "NOT (mask 128) = (0 :: u128)" using push_bit_full [of "- 1 :: u128"] by simp
  with True show ?thesis by (simp add: v6_mask_def)
next
  case False
  then have "0 < unat p" by (simp add: unat_gt_0)
  then have "(128 - unat p) mod 128 = 128 - unat p" by simp
  with False show ?thesis by (simp add: v6_mask_def v6_shift [OF assms])
qed

lemma mask_eq_iff_same_prefix:
  fixes a b :: "'a::len word"
  shows "a AND NOT (mask n) = b AND NOT (mask n) \<longleftrightarrow> drop_bit n a = drop_bit n b"
proof -
  have "a AND NOT (mask n) = push_bit n (drop_bit n a)" for a :: "'a word"
    by (rule bit_word_eqI) (auto simp: bit_simps)
  moreover have "drop_bit n (push_bit n (drop_bit n a)) = drop_bit n a" for a :: "'a word"
    by (rule bit_word_eqI) (auto simp: bit_simps dest: bit_imp_le_length)
  ultimately show ?thesis by metis
qed

lemma and_mask_absorb:
  fixes a :: "'a::len word"
  shows "(a AND m) AND m = a AND m"
  by (simp add: and.assoc)

section \<open>Properties\<close>

lemma cidr_from_str_Ok:
  "cidr_from_str s = Ok c \<longleftrightarrow>
     (\<exists>addr prefix p. split_once (CHR ''/'') s = Some (addr, prefix) \<and> parse_u8 prefix = Some p \<and>
        ((\<exists>a. parse_ip_addr addr = Some (V4 a) \<and> p \<le> 32 \<and> c = CidrV4 (a AND v4_mask p) p) \<or>
         (\<exists>a. parse_ip_addr addr = Some (V6 a) \<and> p \<le> 128 \<and> c = CidrV6 (a AND v6_mask p) p)))"
  by (auto simp: cidr_from_str_def split: ip_addr.split_asm if_split_asm)

lemma cidr_from_str_wf: "cidr_from_str s = Ok c \<Longrightarrow> wf_cidr c"
  by (auto simp: cidr_from_str_Ok and_mask_absorb)

lemma contains_v4_iff:
  "p \<le> 32 \<Longrightarrow> contains (CidrV4 (a AND v4_mask p) p) (V4 x) \<longleftrightarrow> same_prefix (unat p) x a"
  by (simp add: v4_mask_eq mask_eq_iff_same_prefix same_prefix_def)

lemma contains_v6_iff:
  "p \<le> 128 \<Longrightarrow> contains (CidrV6 (a AND v6_mask p) p) (V6 x) \<longleftrightarrow> same_prefix (unat p) x a"
  by (simp add: v6_mask_eq mask_eq_iff_same_prefix same_prefix_def)

text \<open>
  Property C3: parsing \<open>address/prefix\<close> yields, for a prefix within the address width, a
  well-formed network that contains exactly the addresses of the same family that agree with the
  given address on the leading prefix bits; a longer prefix is \<open>PrefixOutOfRange\<close>.
\<close>

theorem cidr_parse_membership:
  assumes "split_once (CHR ''/'') s = Some (addr, pre)"
    and "parse_ip_addr addr = Some ip" and "parse_u8 pre = Some p"
  shows "if unat p \<le> ip_width ip
    then \<exists>c. cidr_from_str s = Ok c \<and> wf_cidr c \<and>
      (\<forall>x. contains c x \<longleftrightarrow> ip_same_prefix (unat p) ip x)
    else cidr_from_str s = Err PrefixOutOfRange"
proof (cases ip)
  case (V4 a)
  have "contains (CidrV4 (a AND v4_mask p) p) x \<longleftrightarrow> ip_same_prefix (unat p) ip x" if "p \<le> 32" for x
    using contains_v4_iff [OF that] V4 by (cases x) auto
  with V4 assms show ?thesis
    by (auto simp: cidr_from_str_def word_le_nat_alt and_mask_absorb)
next
  case (V6 a)
  have "contains (CidrV6 (a AND v6_mask p) p) x \<longleftrightarrow> ip_same_prefix (unat p) ip x" if "p \<le> 128" for x
    using contains_v6_iff [OF that] V6 by (cases x) auto
  with V6 assms show ?thesis
    by (auto simp: cidr_from_str_def word_le_nat_alt and_mask_absorb)
qed

theorem cidr_parse_membership_witness:
  "\<exists>c. cidr_from_str ''10.42.99.7/16'' = Ok c \<and> wf_cidr c \<and>
     (\<forall>x. contains c x \<longleftrightarrow> ip_same_prefix 16 (V4 0x0a2a6307) x)"
proof -
  have "split_once (CHR ''/'') ''10.42.99.7/16'' = Some (''10.42.99.7'', ''16'')"
    and "parse_ip_addr ''10.42.99.7'' = Some (V4 0x0a2a6307)" and "parse_u8 ''16'' = Some 16"
    by code_simp+
  from cidr_parse_membership [OF this] show ?thesis by simp
qed

end
