(* ===== verification/Domain_Name.thy ===== *)
theory Domain_Name
  imports Rust_Str
begin

text \<open>
  Domain names as all three crates normalise them: outer dots trimmed, ASCII lower case, at most
  253 bytes, labels of 1 to 63 bytes. The sources repeat the check in three functions that differ
  only in their error; the locale \<open>name_normalizer\<close> is the contract they share, and each
  component interprets it on its own function.
\<close>

section \<open>Definitions\<close>

definition fold_domain :: "str \<Rightarrow> str" where
  "fold_domain value = to_ascii_lowercase (trim_matches (CHR ''.'') value)"

definition valid_domain :: "str \<Rightarrow> bool" where
  "valid_domain value =
     (\<not> (value = [] \<or> 253 < length value \<or> \<not> is_ascii value \<or>
         list_ex (\<lambda>label. label = [] \<or> 63 < length label) (split_on (CHR ''.'') value)))"

text \<open>The abstract relation of suffix rules: equal, or a suffix that starts at a label boundary.\<close>

definition label_suffix :: "str \<Rightarrow> str \<Rightarrow> bool" where
  "label_suffix sfx d \<longleftrightarrow> d = sfx \<or> (\<exists>p. d = p @ CHR ''.'' # sfx)"

section \<open>Canonical names\<close>

lemma valid_domain_not_Nil: "valid_domain d \<Longrightarrow> d \<noteq> []"
  by (simp add: valid_domain_def)

lemma valid_domain_length: "valid_domain d \<Longrightarrow> length d \<le> 253"
  by (simp add: valid_domain_def)

lemma valid_domain_ascii: "valid_domain d \<Longrightarrow> is_ascii d"
  by (simp add: valid_domain_def)

lemma valid_domain_labels:
  "valid_domain d \<Longrightarrow> l \<in> set (split_on (CHR ''.'') d) \<Longrightarrow> l \<noteq> [] \<and> length l \<le> 63"
  by (auto simp: valid_domain_def list_ex_iff)

lemma split_on_hd_sep: "s \<noteq> [] \<Longrightarrow> hd s = c \<Longrightarrow> [] \<in> set (split_on c s)"
  by (cases s) auto

lemma split_on_last_sep: "s \<noteq> [] \<Longrightarrow> last s = c \<Longrightarrow> [] \<in> set (split_on c s)"
  using split_on_append [of c "butlast s" "[]"] by (metis UnCI append_butlast_last_id list.set_intros(1) set_append split_on.simps(1))

lemma valid_domain_ends:
  assumes "valid_domain d"
  shows "hd d \<noteq> CHR ''.''" and "last d \<noteq> CHR ''.''"
  using assms split_on_hd_sep [of d "CHR ''.''"] split_on_last_sep [of d "CHR ''.''"]
    valid_domain_labels [of d] valid_domain_not_Nil by auto

lemma fold_domain_lower [simp]: "to_ascii_lowercase (fold_domain s) = fold_domain s"
  by (simp add: fold_domain_def)

lemma trim_matches_valid: "valid_domain d \<Longrightarrow> trim_matches (CHR ''.'') d = d"
  using valid_domain_ends by (intro trim_matches_id) auto

lemma trim_end_matches_valid: "valid_domain d \<Longrightarrow> trim_end_matches (CHR ''.'') d = d"
  using valid_domain_ends by (intro trim_end_matches_id) auto

lemma fold_domain_idem: "valid_domain (fold_domain s) \<Longrightarrow> fold_domain (fold_domain s) = fold_domain s"
  unfolding fold_domain_def [of "fold_domain s"] by (simp add: trim_matches_valid)

section \<open>The contract of the normalisers\<close>

locale name_normalizer =
  fixes norm :: "str \<Rightarrow> (str, 'e) result"
  assumes norm_Ok_iff: "norm s = Ok d \<longleftrightarrow> d = fold_domain s \<and> valid_domain d"
begin

lemma norm_valid: "norm s = Ok d \<Longrightarrow> valid_domain d"
  by (auto simp: norm_Ok_iff)

lemma norm_idem: "norm s = Ok d \<Longrightarrow> norm d = Ok d"
  by (auto simp: norm_Ok_iff fold_domain_idem)

lemma norm_case_insensitive: "eq_ignore_ascii_case a b \<Longrightarrow> norm a = Ok d \<longleftrightarrow> norm b = Ok d"
  by (simp add: norm_Ok_iff fold_domain_def eq_ignore_ascii_case_def
      trim_matches_lowercase [symmetric])

lemma norm_collect_set:
  "collectR norm xs = Ok ys \<Longrightarrow> set ys = fold_domain ` set xs"
  by (induction xs arbitrary: ys) (auto simp: norm_Ok_iff)

lemma norm_collect_valid: "collectR norm xs = Ok ys \<Longrightarrow> \<forall>y \<in> set ys. valid_domain y"
  by (auto simp: collectR_set norm_Ok_iff)

lemma norm_collect_Ok: "(\<exists>ys. collectR norm xs = Ok ys) \<longleftrightarrow> (\<forall>x \<in> set xs. valid_domain (fold_domain x))"
  by (induction xs) (auto simp: norm_Ok_iff)

end

section \<open>Suffixes at label boundaries\<close>

lemma label_suffix_refl [simp]: "label_suffix d d"
  by (simp add: label_suffix_def)

lemma label_suffix_length: "label_suffix s d \<Longrightarrow> length s \<le> length d"
  by (auto simp: label_suffix_def)

lemma first_sep_shift:
  "c \<notin> set q \<Longrightarrow> q @ c # r = p @ c # s \<Longrightarrow> r = s \<or> (\<exists>p'. r = p' @ c # s)"
  by (induction q arbitrary: p) (auto simp: Cons_eq_append_conv)

lemma label_suffix_step:
  assumes "find_char (CHR ''.'') d = Some i"
  shows "label_suffix s d \<longleftrightarrow> d = s \<or> label_suffix s (drop (Suc i) d)"
proof -
  let ?r = "drop (Suc i) d"
  have d: "d = take i d @ CHR ''.'' # ?r" and nodot: "CHR ''.'' \<notin> set (take i d)"
    using find_char_decompose [OF assms] find_char_SomeD [OF assms] by auto
  have "(\<exists>p. d = p @ CHR ''.'' # s) \<longleftrightarrow> ?r = s \<or> (\<exists>p. ?r = p @ CHR ''.'' # s)"
  proof
    assume "\<exists>p. d = p @ CHR ''.'' # s"
    then obtain p where p: "d = p @ CHR ''.'' # s" ..
    with d have "take i d @ CHR ''.'' # ?r = p @ CHR ''.'' # s" by (rule trans [OF sym])
    then show "?r = s \<or> (\<exists>p. ?r = p @ CHR ''.'' # s)"
      using first_sep_shift [OF nodot] by blast
  next
    assume "?r = s \<or> (\<exists>p. ?r = p @ CHR ''.'' # s)"
    then show "\<exists>p. d = p @ CHR ''.'' # s"
      using d by (metis append.assoc append_Cons)
  qed
  then show ?thesis by (auto simp: label_suffix_def)
qed

lemma label_suffix_no_dot: "CHR ''.'' \<notin> set d \<Longrightarrow> label_suffix s d \<longleftrightarrow> d = s"
  by (auto simp: label_suffix_def)

lemma label_suffix_lower:
  "label_suffix s d \<Longrightarrow> label_suffix (to_ascii_lowercase s) (to_ascii_lowercase d)"
  by (auto simp: label_suffix_def to_ascii_lowercase_def)

lemma label_suffix_trans: "label_suffix a b \<Longrightarrow> label_suffix b c \<Longrightarrow> label_suffix a c"
  by (auto simp: label_suffix_def)

end
