(* ===== verification/Domain_Set.thy ===== *)
theory Domain_Set
  imports Domain_Name
begin

text \<open>
  \<open>crates/core/src/domain_set.rs\<close>: sorted domain sets compiled from blocklists and their
  lookup by binary search over the query's label suffixes, and the block filter with exceptions.
  The main result is that the compiled set decides the label-boundary specification.
\<close>

section \<open>Definitions\<close>

definition MAX_DOMAIN_LENGTH :: nat where
  "MAX_DOMAIN_LENGTH = 253"

record domain_set =
  exact :: "str list"
  suffixes :: "str list"

record domain_filter =
  blocked :: domain_set
  allowed :: domain_set

datatype domain_set_error = InvalidDomain str

definition normalize_domain :: "str \<Rightarrow> (str, domain_set_error) result" where
  "normalize_domain value =
     (let value = to_ascii_lowercase (trim_matches (CHR ''.'') value)
      in if value = [] \<or> MAX_DOMAIN_LENGTH < length value \<or> \<not> is_ascii value \<or>
           list_ex (\<lambda>label. label = [] \<or> 63 < length label) (split_on (CHR ''.'') value)
         then Err (InvalidDomain value)
         else Ok value)"

definition domain_set_compile :: "str list \<Rightarrow> str list \<Rightarrow> (domain_set, domain_set_error) result" where
  "domain_set_compile exacts sfxs =
     bindR (collectR normalize_domain exacts) (\<lambda>exacts.
     bindR (collectR normalize_domain sfxs) (\<lambda>sfxs.
     Ok \<lparr>exact = remdups_adj (sort exacts), suffixes = remdups_adj (sort sfxs)\<rparr>))"

definition domain_set_is_empty :: "domain_set \<Rightarrow> bool" where
  "domain_set_is_empty d = (exact d = [] \<and> suffixes d = [])"

definition domain_set_len :: "domain_set \<Rightarrow> nat" where
  "domain_set_len d = length (exact d) + length (suffixes d)"

definition exact_len :: "domain_set \<Rightarrow> nat" where
  "exact_len d = length (exact d)"

definition suffix_len :: "domain_set \<Rightarrow> nat" where
  "suffix_len d = length (suffixes d)"

text \<open>The loop of \<open>matches\<close>: the candidate loses its first label until a suffix rule equals it.\<close>

function suffix_loop :: "str list \<Rightarrow> str \<Rightarrow> bool" where
  "suffix_loop sfxs candidate =
     (if binary_search sfxs candidate \<noteq> None then True
      else (case find_char (CHR ''.'') candidate of
              None \<Rightarrow> False
            | Some dot \<Rightarrow> suffix_loop sfxs (drop (dot + 1) candidate)))"
  by pat_completeness auto
termination
  by (relation "measure (\<lambda>(sfxs, candidate). length candidate)") (auto dest: find_char_SomeD)

declare suffix_loop.simps [simp del]

definition domain_set_matches :: "domain_set \<Rightarrow> str \<Rightarrow> bool" where
  "domain_set_matches d domain =
     (let domain = trim_end_matches (CHR ''.'') domain
      in if domain = [] \<or> MAX_DOMAIN_LENGTH < length domain \<or> \<not> is_ascii domain then False
         else if binary_search (exact d) domain \<noteq> None then True
         else suffix_loop (suffixes d) domain)"

definition domain_filter_new :: "domain_set \<Rightarrow> domain_set \<Rightarrow> domain_filter" where
  "domain_filter_new b a = \<lparr>blocked = b, allowed = a\<rparr>"

definition is_blocked :: "domain_filter \<Rightarrow> str \<Rightarrow> bool" where
  "is_blocked f domain \<longleftrightarrow>
     domain_set_matches (blocked f) domain \<and> \<not> domain_set_matches (allowed f) domain"

definition blocked_len :: "domain_filter \<Rightarrow> nat" where
  "blocked_len f = domain_set_len (blocked f)"

definition allowed_len :: "domain_filter \<Rightarrow> nat" where
  "allowed_len f = domain_set_len (allowed f)"

text \<open>Well-formed sets, and the specification of lookup over the rules of the set.\<close>

definition wf_domain_set :: "domain_set \<Rightarrow> bool" where
  "wf_domain_set d \<longleftrightarrow>
     sorted (exact d) \<and> distinct (exact d) \<and> (\<forall>x \<in> set (exact d). valid_domain x) \<and>
     sorted (suffixes d) \<and> distinct (suffixes d) \<and> (\<forall>x \<in> set (suffixes d). valid_domain x)"

definition queryable :: "str \<Rightarrow> bool" where
  "queryable d \<longleftrightarrow> d \<noteq> [] \<and> length d \<le> MAX_DOMAIN_LENGTH \<and> is_ascii d"

definition covers :: "str set \<Rightarrow> str set \<Rightarrow> str \<Rightarrow> bool" where
  "covers E S d \<longleftrightarrow> queryable d \<and> (d \<in> E \<or> (\<exists>s \<in> S. label_suffix s d))"

section \<open>The normaliser meets the shared contract\<close>

interpretation core_name: name_normalizer normalize_domain
  by unfold_locales (auto simp: normalize_domain_def fold_domain_def valid_domain_def Let_def
      MAX_DOMAIN_LENGTH_def)

section \<open>Lookup\<close>

lemma sorted_distinct_remdups_adj: "sorted xs \<Longrightarrow> distinct (remdups_adj xs)"
  by (induction xs rule: remdups_adj.induct) force+

lemma compile_Ok_fields:
  assumes "domain_set_compile E S = Ok d"
  shows "set (exact d) = fold_domain ` set E" and "set (suffixes d) = fold_domain ` set S"
  using assms core_name.norm_collect_set by (auto simp: domain_set_compile_def)

lemma compile_wf: "domain_set_compile E S = Ok d \<Longrightarrow> wf_domain_set d"
  using core_name.norm_collect_valid
  by (auto simp: domain_set_compile_def wf_domain_set_def sorted_distinct_remdups_adj)

lemma suffix_loop_iff:
  assumes "sorted sfxs"
  shows "suffix_loop sfxs d \<longleftrightarrow> (\<exists>s \<in> set sfxs. label_suffix s d)"
  using assms
proof (induction sfxs d rule: suffix_loop.induct)
  case (1 sfxs candidate)
  note found = binary_search_iff [OF "1.prems", of candidate]
  show ?case
  proof (cases "candidate \<in> set sfxs")
    case True
    with found show ?thesis by (subst suffix_loop.simps) (auto intro!: bexI [of _ candidate])
  next
    case False
    show ?thesis
    proof (cases "find_char (CHR ''.'') candidate")
      case None
      then have "\<not> suffix_loop sfxs candidate"
        using False found by (subst suffix_loop.simps) (simp del: find_char_None_iff)
      with None False show ?thesis by (auto simp: label_suffix_no_dot)
    next
      case (Some dot)
      have "suffix_loop sfxs candidate \<longleftrightarrow> suffix_loop sfxs (drop (Suc dot) candidate)"
        using False found Some by (subst suffix_loop.simps) auto
      also have "\<dots> \<longleftrightarrow> (\<exists>s \<in> set sfxs. label_suffix s (drop (Suc dot) candidate))"
        using "1.IH" [of dot] "1.prems" False found Some by simp
      also have "\<dots> \<longleftrightarrow> (\<exists>s \<in> set sfxs. label_suffix s candidate)"
        using False label_suffix_step [OF Some] by auto
      finally show ?thesis .
    qed
  qed
qed

lemma matches_iff_covers:
  assumes "wf_domain_set d"
  shows "domain_set_matches d q
    \<longleftrightarrow> covers (set (exact d)) (set (suffixes d)) (trim_end_matches (CHR ''.'') q)"
  using assms binary_search_iff [of "exact d"] suffix_loop_iff [of "suffixes d"]
  by (auto simp: domain_set_matches_def covers_def queryable_def wf_domain_set_def Let_def)

text \<open>A rule below a covered name is covered too; an empty set covers nothing.\<close>

lemma covers_mono: "covers E S d \<Longrightarrow> E \<subseteq> E' \<Longrightarrow> S \<subseteq> S' \<Longrightarrow> covers E' S' d"
  by (auto simp: covers_def)

lemma covers_empty [simp]: "\<not> covers {} {} d"
  by (simp add: covers_def)

lemma covers_subdomain:
  "covers E S d \<Longrightarrow> d \<notin> E \<Longrightarrow> queryable (p @ CHR ''.'' # d) \<Longrightarrow> covers E S (p @ CHR ''.'' # d)"
  unfolding covers_def by (meson label_suffix_def label_suffix_trans)

section \<open>The interface of compiled sets\<close>

text \<open>
  What the clients of a compiled set rely on: compilation succeeds exactly on valid names and
  lookup decides coverage by the rules compiled in. The block filter's laws follow from it.
\<close>

locale compiled_set =
  fixes compile :: "str list \<Rightarrow> str list \<Rightarrow> ('s, 'e) result"
    and matches :: "'s \<Rightarrow> str \<Rightarrow> bool"
  assumes compile_total:
    "(\<exists>s. compile E S = Ok s) \<longleftrightarrow> (\<forall>x \<in> set E \<union> set S. valid_domain (fold_domain x))"
    and compile_matches: "compile E S = Ok s \<Longrightarrow> matches s q \<longleftrightarrow>
      covers (fold_domain ` set E) (fold_domain ` set S) (trim_end_matches (CHR ''.'') q)"
begin

lemma compile_permutation_invariant:
  "set E = set E' \<Longrightarrow> set S = set S' \<Longrightarrow> compile E S = Ok s \<Longrightarrow>
    \<exists>s'. compile E' S' = Ok s' \<and> (\<forall>q. matches s' q \<longleftrightarrow> matches s q)"
  using compile_total [of E S] compile_total [of E' S'] compile_matches by metis

lemma compile_nothing: "compile [] [] = Ok s \<Longrightarrow> \<not> matches s q"
  using compile_matches [of "[]" "[]"] by simp

lemma trailing_dots_ignored: "compile E S = Ok s \<Longrightarrow> matches s (q @ ''.'') \<longleftrightarrow> matches s q"
  by (simp add: compile_matches)

lemma exception_wins:
  "compile E S = Ok b \<Longrightarrow> compile [] A = Ok a \<Longrightarrow> x \<in> set A \<Longrightarrow> q = fold_domain x \<Longrightarrow>
    \<not> (matches b q \<and> \<not> matches a q)"
proof -
  assume a: "compile [] A = Ok a" and x: "x \<in> set A" "q = fold_domain x"
  then have v: "valid_domain q" using compile_total [of "[]" A] by auto
  then have "queryable q"
    by (auto simp: queryable_def MAX_DOMAIN_LENGTH_def valid_domain_def)
  then have "matches a q"
    using compile_matches [OF a, of q] x trim_end_matches_valid [OF v]
    by (auto simp: covers_def intro!: bexI [of _ x])
  then show "\<not> (matches b q \<and> \<not> matches a q)" by simp
qed

end

interpretation ds: compiled_set domain_set_compile domain_set_matches
proof unfold_locales
  fix E S
  show "(\<exists>s. domain_set_compile E S = Ok s)
      \<longleftrightarrow> (\<forall>x \<in> set E \<union> set S. valid_domain (fold_domain x))"
    using core_name.norm_collect_Ok [of E] core_name.norm_collect_Ok [of S]
    by (auto simp: domain_set_compile_def)
next
  fix E S s q
  assume "domain_set_compile E S = Ok s"
  then show "domain_set_matches s q \<longleftrightarrow>
      covers (fold_domain ` set E) (fold_domain ` set S) (trim_end_matches (CHR ''.'') q)"
    using matches_iff_covers [OF compile_wf] compile_Ok_fields by simp
qed

section \<open>Properties\<close>

text \<open>
  Property C2: compiling rule lists succeeds exactly when every rule normalises to a valid name,
  and the sorted, deduplicated set then matches a query (up to trailing dots) exactly when the
  query is one of the exact rules or ends in a suffix rule at a DNS label boundary.
\<close>

theorem domain_set_refines_label_suffixes:
  "(case domain_set_compile E S of
      Ok d \<Rightarrow> wf_domain_set d \<and>
        (\<forall>q. domain_set_matches d q \<longleftrightarrow>
           covers (fold_domain ` set E) (fold_domain ` set S) (trim_end_matches (CHR ''.'') q))
    | Err e \<Rightarrow> \<not> list_all (\<lambda>x. valid_domain (fold_domain x)) (E @ S))"
proof (cases "domain_set_compile E S")
  case (Ok d)
  then show ?thesis by (simp add: compile_wf ds.compile_matches)
next
  case (Err e)
  then show ?thesis using ds.compile_total [of E S] by (auto simp: list_all_iff)
qed

text \<open>
  The filter of a compiled block set and a compiled exception set blocks a query
  exactly when a block rule covers it and no exception does; the exception's own name and names
  below an exception are never blocked.
\<close>

theorem filter_exceptions_win:
  assumes "domain_set_compile E S = Ok b" and "domain_set_compile [] A = Ok a"
    and "q' = trim_end_matches (CHR ''.'') q"
  shows "(is_blocked (domain_filter_new b a) q \<longleftrightarrow>
      covers (fold_domain ` set E) (fold_domain ` set S) q' \<and>
      \<not> covers {} (fold_domain ` set A) q') \<and>
    (\<forall>x \<in> set A. label_suffix (fold_domain x) q' \<longrightarrow> \<not> is_blocked (domain_filter_new b a) q)"
  using ds.compile_matches [OF assms(1)] ds.compile_matches [OF assms(2)] assms(3)
  by (auto simp: is_blocked_def domain_filter_new_def covers_def)

theorem filter_exceptions_win_witness:
  "\<exists>b a. domain_set_compile [] [''example.com''] = Ok b \<and>
     domain_set_compile [] [''API.example.com.''] = Ok a \<and>
     is_blocked (domain_filter_new b a) ''ads.example.com'' \<and>
     \<not> is_blocked (domain_filter_new b a) ''x.api.example.com''"
proof -
  let ?b = "\<lparr>exact = [], suffixes = [''example.com'']\<rparr>"
  let ?a = "\<lparr>exact = [], suffixes = [''api.example.com'']\<rparr>"
  have b: "domain_set_compile [] [''example.com''] = Ok ?b"
    and a: "domain_set_compile [] [''API.example.com.''] = Ok ?a"
    by code_simp+
  have f: "fold_domain ''API.example.com.'' = ''api.example.com''" by code_simp
  have q: "''x.api.example.com'' = trim_end_matches (CHR ''.'') ''x.api.example.com''" by code_simp
  have "label_suffix ''api.example.com'' ''x.api.example.com''"
    by (simp add: label_suffix_def)
  then have "\<not> is_blocked (domain_filter_new ?b ?a) ''x.api.example.com''"
    using filter_exceptions_win [OF b a q] f by (metis list.set_intros(1))
  moreover have "is_blocked (domain_filter_new ?b ?a) ''ads.example.com''" by code_simp
  ultimately show ?thesis using a b by blast
qed

end
