(* ===== verification/Policy.thy ===== *)
theory Policy
  imports Flow_Plan Cidr Domain_Set "HOL-Library.Multiset"
begin

text \<open>
  \<open>crates/core/src/policy.rs\<close> and \<open>runtime.rs\<close>: typed matchers, the precedence-compiled
  first-match engine and the runtime that turns its decision into a plan. The engine is shown to
  implement the abstract selection "among the matching rules of the strongest tier, the one that
  was configured first".
\<close>

section \<open>Definitions\<close>

datatype matcher =
    MAny
  | MUid u32
  | MPackage str
  | MDomainExact str
  | MDomainSuffix str
  | MDomainFilter domain_filter
  | MIp ip_addr
  | MCidr ip_cidr
  | MPort u16
  | MTransport transport_protocol
  | MNetwork network_kind
  | MAll "matcher list"
  | MAnyOf "matcher list"
  | MNot matcher

definition domain_matches_suffix :: "str \<Rightarrow> str \<Rightarrow> bool" where
  "domain_matches_suffix domain suffix =
     (let domain = trim_end_matches (CHR ''.'') domain;
          suffix = trim_matches (CHR ''.'') suffix
      in if suffix = [] then False
         else if eq_ignore_ascii_case domain suffix then True
         else (case checked_add (length suffix) 1 of
             None \<Rightarrow> False
           | Some required_len \<Rightarrow>
             (case checked_sub (length domain) required_len of
                None \<Rightarrow> False
              | Some prefix_len \<Rightarrow>
                  is_char_boundary domain prefix_len \<and>
                  get (as_bytes domain) prefix_len = Some (of_char (CHR ''.'')) \<and>
                  (case str_get_from domain (prefix_len + 1) of
                     None \<Rightarrow> False
                   | Some tail \<Rightarrow> eq_ignore_ascii_case tail suffix))))"

fun matches :: "matcher \<Rightarrow> flow_context \<Rightarrow> bool" where
  "matches MAny flow = True"
| "matches (MUid uid) flow = (s_uid (f_source flow) = Some uid)"
| "matches (MPackage package) flow =
     (case s_package (f_source flow) of None \<Rightarrow> False | Some value \<Rightarrow> value = package)"
| "matches (MDomainExact expected) flow =
     (case d_host (f_destination flow) of
        HDomain domain \<Rightarrow> eq_ignore_ascii_case domain expected | HIp _ \<Rightarrow> False)"
| "matches (MDomainSuffix suffix) flow =
     (case d_host (f_destination flow) of
        HDomain domain \<Rightarrow> domain_matches_suffix domain suffix | HIp _ \<Rightarrow> False)"
| "matches (MDomainFilter flt) flow =
     (case d_host (f_destination flow) of
        HDomain domain \<Rightarrow> is_blocked flt domain | HIp _ \<Rightarrow> False)"
| "matches (MIp expected) flow =
     (case d_host (f_destination flow) of HIp actual \<Rightarrow> actual = expected | HDomain _ \<Rightarrow> False)"
| "matches (MCidr cidr) flow =
     (case d_host (f_destination flow) of HIp actual \<Rightarrow> contains cidr actual | HDomain _ \<Rightarrow> False)"
| "matches (MPort p) flow = (d_port (f_destination flow) = p)"
| "matches (MTransport protocol) flow = (f_transport flow = protocol)"
| "matches (MNetwork knd) flow = (n_kind (f_network flow) = knd)"
| "matches (MAll ms) flow = list_all (\<lambda>m. matches m flow) ms"
| "matches (MAnyOf ms) flow = list_ex (\<lambda>m. matches m flow) ms"
| "matches (MNot m) flow = (\<not> matches m flow)"

datatype policy_action = PRoute endpoint | PReject reject_reason

record policy_rule =
  r_id :: rule_id
  r_tier :: policy_tier
  r_matcher :: matcher
  r_action :: policy_action

record policy_decision =
  dec_rule_id :: "rule_id option"
  dec_tier :: policy_tier
  dec_action :: policy_action

record policy_engine =
  pe_rules :: "policy_rule list"
  pe_default_action :: policy_action

text \<open>\<open>sort_by_key\<close> of the standard library is stable, as is \<open>sort_key\<close>.\<close>

definition policy_engine_new :: "policy_rule list \<Rightarrow> policy_action \<Rightarrow> policy_engine" where
  "policy_engine_new rs default_action =
     \<lparr>pe_rules = sort_key (\<lambda>rule. tier_rank (r_tier rule)) rs, pe_default_action = default_action\<rparr>"

definition decide :: "policy_engine \<Rightarrow> flow_context \<Rightarrow> policy_decision" where
  "decide e flow =
     (case find (\<lambda>rule. matches (r_matcher rule) flow) (pe_rules e) of
        Some rule \<Rightarrow> \<lparr>dec_rule_id = Some (r_id rule), dec_tier = r_tier rule, dec_action = r_action rule\<rparr>
      | None \<Rightarrow> \<lparr>dec_rule_id = None, dec_tier = DefaultTier, dec_action = pe_default_action e\<rparr>)"

record runtime =
  rt_policy :: policy_engine

definition runtime_new :: "policy_engine \<Rightarrow> runtime" where
  "runtime_new p = \<lparr>rt_policy = p\<rparr>"

definition plan :: "runtime \<Rightarrow> flow_context \<Rightarrow> execution_plan" where
  "plan rt flow =
     (let decision = decide (rt_policy rt) flow;
          action = (case dec_action decision of
                      PRoute endpoint \<Rightarrow> ERoute endpoint
                    | PReject reason \<Rightarrow> EReject reason)
      in \<lparr>p_flow_id = f_id flow, p_action = action,
          p_matched_rule = dec_rule_id decision, p_tier = dec_tier decision\<rparr>)"

section \<open>Specification\<close>

text \<open>
  The rules that match a flow, and the configured selection: strongest tier in the documented order,
  then first written.
\<close>

definition matching :: "flow_context \<Rightarrow> policy_rule list \<Rightarrow> policy_rule list" where
  "matching flow rs = filter (\<lambda>rule. matches (r_matcher rule) flow) rs"

definition strongest :: "flow_context \<Rightarrow> policy_rule list \<Rightarrow> policy_rule \<Rightarrow> bool" where
  "strongest flow rs r \<longleftrightarrow> (\<exists>before after. rs = before @ r # after \<and> matches (r_matcher r) flow \<and>
     (\<forall>x \<in> set (matching flow before). r_tier r < r_tier x) \<and>
     (\<forall>x \<in> set (matching flow after). r_tier r \<le> r_tier x))"

text \<open>Rules keep their meaning when their position among the rules of other tiers changes.\<close>

definition tier_rules :: "policy_tier \<Rightarrow> policy_rule list \<Rightarrow> policy_rule list" where
  "tier_rules t rs = filter (\<lambda>r. r_tier r = t) rs"

text \<open>The decision the configured rules and default prescribe.\<close>

definition prescribed ::
  "policy_rule list \<Rightarrow> policy_action \<Rightarrow> flow_context \<Rightarrow> policy_decision \<Rightarrow> bool" where
  "prescribed rs da flow d \<longleftrightarrow>
     (matching flow rs = [] \<and> d = \<lparr>dec_rule_id = None, dec_tier = DefaultTier, dec_action = da\<rparr>) \<or>
     (\<exists>r. strongest flow rs r \<and>
        d = \<lparr>dec_rule_id = Some (r_id r), dec_tier = r_tier r, dec_action = r_action r\<rparr>)"

section \<open>Suffix matching\<close>

lemma char_boundary_tail:
  assumes "i < length s" "code (s ! i) < 128 \<or> 192 \<le> code (s ! i)"
  shows "str_get_from s i = Some (drop i s)"
  using assms by (simp add: str_get_from_def is_char_boundary_def)

lemma lowercase_not_cont:
  "to_lower a = to_lower b \<Longrightarrow> code b < 128 \<or> 192 \<le> code b \<Longrightarrow> code a < 128 \<or> 192 \<le> code a"
  by (cases "a = b") (auto simp: to_lower_def code_def split: if_splits)

lemma suffix_tail_boundary:
  assumes "utf8_str u" "sfx = trim_end_matches (CHR ''.'') u" "sfx \<noteq> []"
    and "eq_ignore_ascii_case (drop i d) sfx" "i < length d"
  shows "code (d ! i) < 128 \<or> 192 \<le> code (d ! i)"
proof -
  have u: "u \<noteq> []" "hd u = hd sfx"
    using assms(2,3) by (auto simp: trim_end_matches_hd)
  have "to_ascii_lowercase (drop i d) = to_ascii_lowercase sfx"
    using assms(4) by (simp add: eq_ignore_ascii_case_def)
  then have "to_lower (hd (drop i d)) = to_lower (hd sfx)"
    using assms(3,5) by (cases "drop i d"; cases sfx) (auto simp: to_ascii_lowercase_def)
  then show ?thesis
    using utf8_hd_not_cont [OF assms(1) u(1)] u(2) lowercase_not_cont [of "d ! i" "hd sfx"] assms(5)
    by (simp add: hd_drop_conv_nth)
qed

lemma suffix_tail_get:
  assumes "utf8_str u" "s = trim_end_matches (CHR ''.'') u" "s \<noteq> []" "length s + 1 \<le> length d"
  shows "(case str_get_from d (length d - (length s + 1) + 1) of None \<Rightarrow> False
      | Some t \<Rightarrow> eq_ignore_ascii_case t s) \<longleftrightarrow>
    eq_ignore_ascii_case (drop (length d - length s) d) s"
proof -
  have i: "length d - (length s + 1) + 1 = length d - length s" "length d - length s < length d"
    using assms(3,4) by (simp_all add: Suc_diff_Suc Suc_le_lessD)
      (metis diff_less length_greater_0_conv less_le_trans Suc_le_lessD gr_implies_not0 linorder_not_less)
  show ?thesis
  proof (cases "eq_ignore_ascii_case (drop (length d - length s) d) s")
    case True
    then show ?thesis
      using suffix_tail_boundary [OF assms(1-3) True i(2)] i by (simp add: char_boundary_tail)
  next
    case False
    then show ?thesis unfolding i(1) by (auto simp: str_get_from_def split: option.splits if_splits)
  qed
qed

lemma label_suffix_drop:
  "label_suffix s d \<longleftrightarrow> d = s \<or> (length s + 1 \<le> length d \<and>
     d ! (length d - (length s + 1)) = CHR ''.'' \<and> drop (length d - length s) d = s)"
proof -
  have "(\<exists>p. d = p @ CHR ''.'' # s) \<longleftrightarrow> length s + 1 \<le> length d \<and>
     d ! (length d - (length s + 1)) = CHR ''.'' \<and> drop (length d - length s) d = s" (is "_ \<longleftrightarrow> ?R")
  proof
    assume ?R
    moreover from this have "Suc (length d - (length s + 1)) = length d - length s" by linarith
    moreover from calculation have "length d - (length s + 1) < length d" by linarith
    ultimately show "\<exists>p. d = p @ CHR ''.'' # s"
      using id_take_nth_drop [of "length d - (length s + 1)" d] by metis
  qed auto
  then show ?thesis by (simp add: label_suffix_def)
qed

lemma lowercase_dot_nth:
  "i < length d \<Longrightarrow> to_ascii_lowercase d ! i = CHR ''.'' \<longleftrightarrow> d ! i = CHR ''.''"
  by (simp add: to_ascii_lowercase_def)

lemma lowercase_drop: "to_ascii_lowercase (drop i d) = drop i (to_ascii_lowercase d)"
  by (simp add: to_ascii_lowercase_def drop_map)

lemma trim_matches_length: "length (trim_matches c s) \<le> length s"
  unfolding trim_matches_def trim_end_matches_def trim_start_matches_def
  by (metis (no_types, lifting) length_dropWhile_le length_rev order_trans)

lemma dot_byte_iff [simp]: "(of_char c :: u8) = 46 \<longleftrightarrow> c = CHR ''.''"
proof -
  have "(of_char c :: u8) = 46 \<longleftrightarrow> unat (of_char c :: u8) = 46"
    by (simp add: word_unat_eq_iff)
  also have "\<dots> \<longleftrightarrow> code c = code (CHR ''.'')"
    by (simp add: code_of_byte)
  finally show ?thesis by (simp only: code_inject)
qed

lemma domain_matches_suffix_cases:
  fixes domain suffix :: str
  defines "d \<equiv> trim_end_matches (CHR ''.'') domain" and "s \<equiv> trim_matches (CHR ''.'') suffix"
  assumes "length s + 1 < usize_bound" "utf8_str (trim_start_matches (CHR ''.'') suffix)"
  shows "domain_matches_suffix domain suffix \<longleftrightarrow> s \<noteq> [] \<and> (eq_ignore_ascii_case d s \<or>
      (length s + 1 \<le> length d \<and> d ! (length d - (length s + 1)) = CHR ''.'' \<and>
       eq_ignore_ascii_case (drop (length d - length s) d) s))"
proof (cases "s \<noteq> [] \<and> \<not> eq_ignore_ascii_case d s \<and> length s + 1 \<le> length d")
  case True
  let ?p = "length d - (length s + 1)"
  have p: "?p < length d" using True by linarith
  have "domain_matches_suffix domain suffix \<longleftrightarrow> is_char_boundary d ?p \<and> d ! ?p = CHR ''.'' \<and>
      (case str_get_from d (?p + 1) of None \<Rightarrow> False | Some t \<Rightarrow> eq_ignore_ascii_case t s)"
    using True assms(3) p
    by (simp add: domain_matches_suffix_def Let_def d_def [symmetric] s_def [symmetric]
        checked_add_def checked_sub_def get_def as_bytes_def)
  moreover have "d ! ?p = CHR ''.'' \<Longrightarrow> is_char_boundary d ?p"
    using p by (simp add: is_char_boundary_def code_def)
  ultimately show ?thesis
    using True suffix_tail_get [OF assms(4), of s d] by (auto simp: s_def trim_matches_def)
next
  case False
  then show ?thesis
    by (auto simp: domain_matches_suffix_def Let_def d_def [symmetric] s_def [symmetric]
        checked_add_def checked_sub_def split: option.splits)
qed

section \<open>Selection\<close>

lemma find_eq_hd_filter: "find P xs = (case filter P xs of [] \<Rightarrow> None | x # _ \<Rightarrow> Some x)"
  by (induction xs) auto

lemma sort_key_first:
  assumes "find P (sort_key f xs) = Some r"
  shows "\<exists>us vs. xs = us @ r # vs \<and> P r \<and>
    (\<forall>u \<in> set us. P u \<longrightarrow> f r < f u) \<and> (\<forall>v \<in> set vs. P v \<longrightarrow> f r \<le> f v)"
proof -
  obtain rest where sorted_form: "sort_key f (filter P xs) = r # rest"
    using assms by (auto simp: find_eq_hd_filter filter_sort split: list.splits)
  have "sorted (map f (r # rest))"
    unfolding sorted_form [symmetric] by simp
  then have least: "\<forall>x \<in> set (filter P xs). f r \<le> f x"
    by (metis (no_types, lifting) set_sort sorted_form image_eqI list.set_map list.simps(9) order_refl
        set_ConsD sorted_wrt.simps(2))
  have "filter (\<lambda>x. f x = f r) (filter P xs) = filter (\<lambda>x. f x = f r) (r # rest)"
    unfolding sorted_form [symmetric] by (rule sort_key_stable [symmetric])
  then obtain ys where "filter (\<lambda>x. P x \<and> f x = f r) xs = r # ys"
    by (simp add: conj_commute)
  then obtain us vs where "xs = us @ r # vs" "\<forall>u \<in> set us. \<not> (P u \<and> f u = f r)" "P r"
    by (auto simp: filter_eq_Cons_iff)
  with least show ?thesis by (fastforce simp: order.strict_iff_order)
qed

lemma strongest_unique:
  assumes "strongest flow rs r" "strongest flow rs r'"
  shows "r = r'"
proof -
  obtain us vs where r: "rs = us @ r # vs" "matches (r_matcher r) flow"
      "\<forall>x \<in> set (matching flow us). r_tier r < r_tier x" "\<forall>x \<in> set (matching flow vs). r_tier r \<le> r_tier x"
    using assms(1) unfolding strongest_def by auto
  obtain us' vs' where r': "rs = us' @ r' # vs'" "matches (r_matcher r') flow"
      "\<forall>x \<in> set (matching flow us'). r_tier r' < r_tier x" "\<forall>x \<in> set (matching flow vs'). r_tier r' \<le> r_tier x"
    using assms(2) unfolding strongest_def by auto
  from r(1) r'(1) have "us @ r # vs = us' @ r' # vs'" by simp
  then have "r = r' \<or> (r' \<in> set vs \<and> r \<in> set us') \<or> (r \<in> set vs' \<and> r' \<in> set us)"
    by (fastforce simp: append_eq_append_conv2 append_eq_Cons_conv Cons_eq_append_conv)
  then consider "r = r'" | "r' \<in> set vs" "r \<in> set us'" | "r \<in> set vs'" "r' \<in> set us" by blast
  then show ?thesis
  proof cases
    case 2
    with r(2,4) r'(2,3) have "r_tier r \<le> r_tier r'" "r_tier r' < r_tier r" by (simp_all add: matching_def)
    then show ?thesis by simp
  next
    case 3
    with r(2,3) r'(2,4) have "r_tier r' \<le> r_tier r" "r_tier r < r_tier r'" by (simp_all add: matching_def)
    then show ?thesis by simp
  qed
qed

lemma decide_prescribed: "prescribed rs da flow (decide (policy_engine_new rs da) flow)"
proof (cases "find (\<lambda>rule. matches (r_matcher rule) flow) (pe_rules (policy_engine_new rs da))")
  case None
  then have "matching flow rs = []"
    by (simp add: policy_engine_new_def matching_def find_None_iff filter_empty_conv)
  with None show ?thesis by (simp add: prescribed_def decide_def policy_engine_new_def)
next
  case (Some r)
  then have "strongest flow rs r"
    using sort_key_first [of "\<lambda>rule. matches (r_matcher rule) flow" "\<lambda>rule. tier_rank (r_tier rule)" rs r]
    by (fastforce simp: policy_engine_new_def strongest_def matching_def)
  with Some show ?thesis by (auto simp: prescribed_def decide_def)
qed

lemma prescribed_unique: "prescribed rs da flow d \<Longrightarrow> prescribed rs da flow d' \<Longrightarrow> d = d'"
proof -
  have "\<not> strongest flow rs r" if "matching flow rs = []" for r
    using that by (auto simp: strongest_def matching_def)
  then show "prescribed rs da flow d \<Longrightarrow> prescribed rs da flow d' \<Longrightarrow> d = d'"
    unfolding prescribed_def by (metis strongest_unique)
qed

text \<open>
  Property C1: the compiled engine returns a decision exactly when the configured rule list
  prescribes it: the rule of the strongest tier among those that match, the first written one
  among equals, and the default action when none matches.
\<close>

theorem decide_refines_precedence:
  "decide (policy_engine_new rs da) flow = d \<longleftrightarrow> prescribed rs da flow d"
  using decide_prescribed prescribed_unique by blast

text \<open>
  The suffix matcher accepts a domain exactly when, both sides in lower case and
  without outer dots, the non-empty suffix is the domain or ends it at a label boundary. The
  hypotheses are what the type \<open>str\<close> guarantees: well-formed UTF-8 and a length below the
  address range.
\<close>

theorem domain_suffix_label_boundary:
  assumes "utf8_str suffix" "length suffix + 1 < usize_bound"
  shows "domain_matches_suffix domain suffix \<longleftrightarrow>
    fold_domain suffix \<noteq> [] \<and>
    label_suffix (fold_domain suffix) (to_ascii_lowercase (trim_end_matches (CHR ''.'') domain))"
proof -
  define d s where "d = trim_end_matches (CHR ''.'') domain" and "s = trim_matches (CHR ''.'') suffix"
  have u: "utf8_str (trim_start_matches (CHR ''.'') suffix)"
    using assms(1) by (rule utf8_str_trim_start) (simp add: code_def)
  have len: "length s + 1 < usize_bound"
    using assms(2) trim_matches_length [of "CHR ''.''" suffix] by (simp add: s_def)
  have "domain_matches_suffix domain suffix \<longleftrightarrow> s \<noteq> [] \<and> (eq_ignore_ascii_case d s \<or>
      (length s + 1 \<le> length d \<and> d ! (length d - (length s + 1)) = CHR ''.'' \<and>
       eq_ignore_ascii_case (drop (length d - length s) d) s))"
    unfolding d_def s_def by (rule domain_matches_suffix_cases) (use len u in \<open>simp_all add: s_def\<close>)
  also have "\<dots> \<longleftrightarrow> to_ascii_lowercase s \<noteq> [] \<and> label_suffix (to_ascii_lowercase s) (to_ascii_lowercase d)"
    by (auto simp: label_suffix_drop eq_ignore_ascii_case_def lowercase_drop lowercase_dot_nth
        to_ascii_lowercase_def [of "[]"])
  finally show ?thesis by (simp add: d_def s_def fold_domain_def)
qed

theorem domain_suffix_label_boundary_witness:
  "domain_matches_suffix ''API.Example.COM.'' ''.example.com'' \<longleftrightarrow>
    fold_domain ''.example.com'' \<noteq> [] \<and>
    label_suffix (fold_domain ''.example.com'')
      (to_ascii_lowercase (trim_end_matches (CHR ''.'') ''API.Example.COM.''))"
  by (rule domain_suffix_label_boundary) (code_simp+)

text \<open>
  Only the order of rules within one tier matters. Two rule lists with the same
  rules in the same order in every tier compile to the same engine.
\<close>

theorem engine_depends_on_tier_order:
  assumes "\<forall>t. tier_rules t rs = tier_rules t rs'"
  shows "policy_engine_new rs da = policy_engine_new rs' da"
proof -
  let ?f = "\<lambda>r. tier_rank (r_tier r)"
  have same: "filter (\<lambda>x. ?f k = ?f x) rs = filter (\<lambda>x. ?f k = ?f x) rs'" for k :: policy_rule
    using spec [OF assms, of "r_tier k"] by (simp add: tier_rules_def tier_rank_inj eq_commute)
  have count: "count (mset xs) k = count (mset (filter (\<lambda>x. ?f k = ?f x) xs)) k" for xs k
    by simp
  have "mset rs = mset rs'"
    by (rule multiset_eqI) (simp only: count [of rs] count [of rs'] same)
  moreover have "filter (\<lambda>x. ?f k = ?f x) (sort_key ?f rs) = filter (\<lambda>x. ?f k = ?f x) rs"
    for k :: policy_rule
    using sort_key_stable [of ?f "?f k" rs] by (simp add: eq_commute)
  ultimately have "sort_key ?f rs' = sort_key ?f rs"
    using same by (intro properties_for_sort_key) simp_all
  then show ?thesis by (simp add: policy_engine_new_def)
qed

theorem engine_depends_on_tier_order_witness:
  "policy_engine_new
     [\<lparr>r_id = RuleId 1, r_tier = Adaptive, r_matcher = MAny, r_action = PRoute Direct\<rparr>,
      \<lparr>r_id = RuleId 2, r_tier = UserHard, r_matcher = MAny, r_action = PReject RPolicy\<rparr>] (PRoute Direct)
   = policy_engine_new
     [\<lparr>r_id = RuleId 2, r_tier = UserHard, r_matcher = MAny, r_action = PReject RPolicy\<rparr>,
      \<lparr>r_id = RuleId 1, r_tier = Adaptive, r_matcher = MAny, r_action = PRoute Direct\<rparr>] (PRoute Direct)"
  by (rule engine_depends_on_tier_order) (simp add: tier_rules_def)

end
