(* ===== verification/Blocklist.thy ===== *)
theory Blocklist
  imports Domain_Set Std_Net
begin

text \<open>
  \<open>crates/compat/src/lib.rs\<close>: the importer of blocklists. Every line is a comment, an adblock
  rule, a hosts entry or a bare domain; the accepted names are compiled into a
  \<open>DomainFilter\<close>. A compiled list blocks what its lines say, and every error of the
  importer names the line it is about or is the size limit.
\<close>

section \<open>Definitions\<close>

definition MAX_BLOCKLIST_BYTES :: nat where
  "MAX_BLOCKLIST_BYTES = 8 * 1024 * 1024"

definition MAX_BLOCKLIST_ENTRIES :: nat where
  "MAX_BLOCKLIST_ENTRIES = 250000"

record blocklist_stats =
  source_lines :: nat
  accepted_block :: nat
  accepted_allow :: nat
  ignored :: nat

record compiled_blocklist =
  cb_filter :: domain_filter
  cb_stats :: blocklist_stats

text \<open>The messages of \<open>BlocklistError\<close>, one constructor per place that builds one.\<close>

datatype blocklist_message =
    TooManyBytes
  | TooManyEntries
  | SecondHostname
  | UnsupportedSyntax
  | InvalidBlocklistDomain
  | DomainSetMessage domain_set_error

record blocklist_error =
  be_line :: "nat option"
  be_message :: blocklist_message

definition blocklist_error_global :: "blocklist_message \<Rightarrow> blocklist_error" where
  "blocklist_error_global m = \<lparr>be_line = None, be_message = m\<rparr>"

definition blocklist_error_at :: "nat \<Rightarrow> blocklist_message \<Rightarrow> blocklist_error" where
  "blocklist_error_at l m = \<lparr>be_line = Some l, be_message = m\<rparr>"

datatype rule_kind = BlockExact | BlockSuffix | AllowSuffix

definition parse_domain :: "nat \<Rightarrow> str \<Rightarrow> (str, blocklist_error) result" where
  "parse_domain ln value =
     (let value = to_ascii_lowercase (trim_matches (CHR ''.'') value)
      in if value = [] \<or> 253 < length value \<or> \<not> is_ascii value \<or>
           list_ex (\<lambda>label. label = [] \<or> 63 < length label) (split_on (CHR ''.'') value)
         then Err (blocklist_error_at ln InvalidBlocklistDomain)
         else Ok value)"

definition is_localhost_alias :: "str \<Rightarrow> bool" where
  "is_localhost_alias value =
     (eq_ignore_ascii_case value ''localhost'' \<or>
      eq_ignore_ascii_case value ''localhost.localdomain'' \<or>
      eq_ignore_ascii_case value ''broadcasthost'' \<or>
      eq_ignore_ascii_case value ''ip6-localhost'' \<or>
      eq_ignore_ascii_case value ''ip6-loopback'')"

fun hosts_fields :: "nat \<Rightarrow> str option \<Rightarrow> str list \<Rightarrow> (str option, blocklist_error) result" where
  "hosts_fields ln accepted [] = Ok accepted"
| "hosts_fields ln accepted (host # hosts) =
     (if is_localhost_alias host then hosts_fields ln accepted hosts
      else if accepted \<noteq> None then Err (blocklist_error_at ln SecondHostname)
      else bindR (parse_domain ln host) (\<lambda>d. hosts_fields ln (Some d) hosts))"

definition parse_plain_line :: "nat \<Rightarrow> str \<Rightarrow> ((rule_kind \<times> str) option, blocklist_error) result" where
  "parse_plain_line ln value =
     (let before_comment = trim (hd (split_on (CHR ''#'') value))
      in case split_whitespace before_comment of
           [] \<Rightarrow> Ok None
         | first # hosts \<Rightarrow>
             if parse_ip_addr first \<noteq> None then
               bindR (hosts_fields ln None hosts)
                 (\<lambda>accepted. Ok (map_option (\<lambda>domain. (BlockExact, domain)) accepted))
             else if hosts \<noteq> [] then Err (blocklist_error_at ln UnsupportedSyntax)
             else bindR (parse_domain ln first) (\<lambda>d. Ok (Some (BlockExact, d))))"

definition strip_both :: "str \<Rightarrow> str \<Rightarrow> str \<Rightarrow> str option" where
  "strip_both p q value =
     (case strip_prefix p value of None \<Rightarrow> None | Some rest \<Rightarrow> strip_suffix q rest)"

definition parse_line :: "str \<Rightarrow> nat \<Rightarrow> ((rule_kind \<times> str) option, blocklist_error) result" where
  "parse_line raw ln =
     (let value = trim raw
      in if value = [] \<or> starts_with ''#'' value \<or> starts_with ''!'' value then Ok None
         else (case strip_both ''@@||'' ''^'' value of
             Some domain \<Rightarrow> bindR (parse_domain ln domain) (\<lambda>d. Ok (Some (AllowSuffix, d)))
           | None \<Rightarrow>
             (case strip_both ''||'' ''^'' value of
                Some domain \<Rightarrow> bindR (parse_domain ln domain) (\<lambda>d. Ok (Some (BlockSuffix, d)))
              | None \<Rightarrow> parse_plain_line ln value)))"

definition enforce_entry_limit :: "nat \<Rightarrow> nat \<Rightarrow> (unit, blocklist_error) result" where
  "enforce_entry_limit current ln =
     (if MAX_BLOCKLIST_ENTRIES \<le> current then Err (blocklist_error_at ln TooManyEntries) else Ok ())"

text \<open>The mutable locals of \<open>compile_blocklist\<close> and its loop over the numbered lines.\<close>

record blocklist_state =
  blocked_exact :: "str list"
  blocked_suffix :: "str list"
  allowed_suffix :: "str list"
  bl_stats :: blocklist_stats

definition blocklist_init :: blocklist_state where
  "blocklist_init = \<lparr>blocked_exact = [], blocked_suffix = [], allowed_suffix = [],
     bl_stats = \<lparr>source_lines = 0, accepted_block = 0, accepted_allow = 0, ignored = 0\<rparr>\<rparr>"

definition entries :: "blocklist_state \<Rightarrow> nat" where
  "entries st = length (blocked_exact st) + length (blocked_suffix st) + length (allowed_suffix st)"

fun add_rule :: "rule_kind \<Rightarrow> str \<Rightarrow> blocklist_state \<Rightarrow> blocklist_state" where
  "add_rule BlockExact domain st =
     st\<lparr>blocked_exact := blocked_exact st @ [domain],
        bl_stats := (bl_stats st)\<lparr>accepted_block := accepted_block (bl_stats st) + 1\<rparr>\<rparr>"
| "add_rule BlockSuffix domain st =
     st\<lparr>blocked_suffix := blocked_suffix st @ [domain],
        bl_stats := (bl_stats st)\<lparr>accepted_block := accepted_block (bl_stats st) + 1\<rparr>\<rparr>"
| "add_rule AllowSuffix domain st =
     st\<lparr>allowed_suffix := allowed_suffix st @ [domain],
        bl_stats := (bl_stats st)\<lparr>accepted_allow := accepted_allow (bl_stats st) + 1\<rparr>\<rparr>"

definition blocklist_step :: "str \<Rightarrow> nat \<Rightarrow> blocklist_state \<Rightarrow> (blocklist_state, blocklist_error) result" where
  "blocklist_step raw_line index st =
     (let st = st\<lparr>bl_stats := (bl_stats st)\<lparr>source_lines := source_lines (bl_stats st) + 1\<rparr>\<rparr>;
          line_number = index + 1
      in bindR (parse_line raw_line line_number) (\<lambda>parsed.
         case parsed of
           Some (knd, domain) \<Rightarrow>
             bindR (enforce_entry_limit (entries st) line_number) (\<lambda>_. Ok (add_rule knd domain st))
         | None \<Rightarrow> Ok (st\<lparr>bl_stats := (bl_stats st)\<lparr>ignored := ignored (bl_stats st) + 1\<rparr>\<rparr>)))"

fun blocklist_loop :: "str list \<Rightarrow> nat \<Rightarrow> blocklist_state \<Rightarrow> (blocklist_state, blocklist_error) result" where
  "blocklist_loop [] index st = Ok st"
| "blocklist_loop (raw_line # rest) index st =
     bindR (blocklist_step raw_line index st) (\<lambda>st. blocklist_loop rest (index + 1) st)"

definition compile_blocklist :: "str \<Rightarrow> (compiled_blocklist, blocklist_error) result" where
  "compile_blocklist text =
     (if MAX_BLOCKLIST_BYTES < length text then Err (blocklist_error_global TooManyBytes)
      else
        bindR (blocklist_loop (lines text) 0 blocklist_init) (\<lambda>st.
        bindR (map_err (\<lambda>e. blocklist_error_global (DomainSetMessage e))
                 (domain_set_compile (blocked_exact st) (blocked_suffix st))) (\<lambda>blocked.
        bindR (map_err (\<lambda>e. blocklist_error_global (DomainSetMessage e))
                 (domain_set_compile [] (allowed_suffix st))) (\<lambda>allowed.
        Ok \<lparr>cb_filter = domain_filter_new blocked allowed, cb_stats = bl_stats st\<rparr>))))"

section \<open>Specification\<close>

text \<open>
  What the lines of a list say, in the syntaxes the importer supports and independently of its
  parser. An exception is written \<open>@@||name^\<close> and a suffix rule \<open>||name^\<close>. Any other line
  that is not a comment is read up to a \<open>#\<close>: it is a single name, or an address followed by hosts
  of which one is not a name of the local machine. Names count in lower case and without outer dots.
\<close>

definition local_names :: "str set" where
  "local_names = {''localhost'', ''localhost.localdomain'', ''broadcasthost'', ''ip6-localhost'', ''ip6-loopback''}"

definition plain_words :: "str \<Rightarrow> str list" where
  "plain_words l = split_whitespace (trim (takeWhile (\<lambda>c. c \<noteq> CHR ''#'') (trim l)))"

definition plain_line :: "str \<Rightarrow> bool" where
  "plain_line l \<longleftrightarrow> trim l \<noteq> [] \<and> hd (trim l) \<notin> {CHR ''#'', CHR ''!''} \<and>
     (\<forall>name. trim l \<noteq> ''||'' @ name @ ''^'' \<and> trim l \<noteq> ''@@||'' @ name @ ''^'')"

definition plain_name :: "str \<Rightarrow> str \<Rightarrow> bool" where
  "plain_name l name \<longleftrightarrow>
     plain_words l = [name] \<and> parse_ip_addr name = None \<or>
     (\<exists>address hosts. plain_words l = address # hosts \<and> parse_ip_addr address \<noteq> None \<and>
        filter (\<lambda>h. to_ascii_lowercase h \<notin> local_names) hosts = [name])"

fun declares :: "rule_kind \<Rightarrow> str \<Rightarrow> str \<Rightarrow> bool" where
  "declares AllowSuffix l d \<longleftrightarrow> (\<exists>name. trim l = ''@@||'' @ name @ ''^'' \<and> d = fold_domain name)"
| "declares BlockSuffix l d \<longleftrightarrow> (\<exists>name. trim l = ''||'' @ name @ ''^'' \<and> d = fold_domain name)"
| "declares BlockExact l d \<longleftrightarrow> plain_line l \<and> (\<exists>name. plain_name l name \<and> d = fold_domain name)"

definition declared :: "rule_kind \<Rightarrow> str list \<Rightarrow> str set" where
  "declared k ls = {d. \<exists>l \<in> set ls. declares k l d}"

section \<open>Lemmas\<close>

interpretation compat_name: name_normalizer "parse_domain ln" for ln
  by unfold_locales (auto simp: parse_domain_def fold_domain_def valid_domain_def Let_def)

lemma strip_both_iff: "strip_both p q v = Some d \<longleftrightarrow> v = p @ d @ q"
proof
  assume "strip_both p q v = Some d"
  then have "take (length p) v = p" "drop (length (drop (length p) v) - length q) (drop (length p) v) = q"
    "d = take (length (drop (length p) v) - length q) (drop (length p) v)"
    by (auto simp: strip_both_def strip_prefix_def strip_suffix_def split: option.splits if_splits)
  then show "v = p @ d @ q" by (metis append_take_drop_id)
qed (simp add: strip_both_def strip_prefix_def strip_suffix_def)

lemma strip_both_None: "strip_both p q v = None \<longleftrightarrow> (\<forall>d. v \<noteq> p @ d @ q)"
  by (metis strip_both_iff not_None_eq)

lemma split_on_hd: "hd (split_on c s) = takeWhile (\<lambda>x. x \<noteq> c) s"
  by (induction s) (auto split: list.splits)

lemma local_names_iff: "is_localhost_alias h \<longleftrightarrow> to_ascii_lowercase h \<in> local_names"
proof -
  have "\<forall>n \<in> local_names. to_ascii_lowercase n = n" by code_simp
  then show ?thesis by (auto simp: is_localhost_alias_def eq_ignore_ascii_case_def local_names_def)
qed

lemma hosts_fields_declares:
  assumes "hosts_fields ln acc hs = Ok r"
  shows "r = (case filter (\<lambda>h. to_ascii_lowercase h \<notin> local_names) hs of [] \<Rightarrow> acc | h # _ \<Rightarrow> Some (fold_domain h)) \<and>
    length (filter (\<lambda>h. to_ascii_lowercase h \<notin> local_names) hs) + (if acc = None then 0 else 1) \<le> 1"
  using assms
proof (induction hs arbitrary: acc)
  case (Cons h hs)
  show ?case
  proof (cases "is_localhost_alias h")
    case True
    with Cons.IH [of acc] Cons.prems show ?thesis by (simp add: local_names_iff)
  next
    case False
    with Cons.prems have "acc = None" "hosts_fields ln (Some (fold_domain h)) hs = Ok r"
      by (auto simp: compat_name.norm_Ok_iff split: if_splits)
    with Cons.IH [of "Some (fold_domain h)"] False show ?thesis by (auto simp: local_names_iff)
  qed
qed simp

lemma parse_plain_line_declares:
  assumes "parse_plain_line ln (trim l) = Ok r"
  shows "r = Some (k, d) \<longleftrightarrow> k = BlockExact \<and> (\<exists>name. plain_name l name \<and> d = fold_domain name)"
proof (cases "plain_words l")
  case Nil
  with assms show ?thesis by (simp add: parse_plain_line_def plain_name_def plain_words_def split_on_hd)
next
  case (Cons first hosts)
  note w = Cons [unfolded plain_words_def]
  show ?thesis
  proof (cases "parse_ip_addr first = None")
    case True
    with assms w have "hosts = []" "r = Some (BlockExact, fold_domain first)"
      by (auto simp: parse_plain_line_def split_on_hd compat_name.norm_Ok_iff split: if_splits)
    with True Cons show ?thesis by (auto simp: plain_name_def)
  next
    case False
    with assms w obtain a where a: "hosts_fields ln None hosts = Ok a" "r = map_option (Pair BlockExact) a"
      by (auto simp: parse_plain_line_def split_on_hd)
    from hosts_fields_declares [OF a(1)] a(2) False Cons show ?thesis
      by (auto simp: plain_name_def split: list.splits)
  qed
qed

lemma parse_line_declares:
  assumes "parse_line l n = Ok r"
  shows "r = Some (k, d) \<longleftrightarrow> declares k l d"
proof -
  consider (comment) "trim l = [] \<or> hd (trim l) \<in> {CHR ''#'', CHR ''!''}" "r = None"
    | (allow) name where "trim l = ''@@||'' @ name @ ''^''" "r = Some (AllowSuffix, fold_domain name)"
    | (block) name where "trim l = ''||'' @ name @ ''^''" "r = Some (BlockSuffix, fold_domain name)"
    | (plain) "plain_line l" "parse_plain_line n (trim l) = Ok r"
    using assms
    by (cases "trim l")
      (auto simp: parse_line_def Let_def starts_with_def plain_line_def strip_both_iff strip_both_None
        compat_name.norm_Ok_iff split: option.splits if_splits)
  then show ?thesis
  proof cases
    case comment
    then show ?thesis by (cases k) (auto simp: plain_line_def)
  next
    case allow
    then show ?thesis by (cases k) (auto simp: plain_line_def)
  next
    case block
    then show ?thesis by (cases k) (auto simp: plain_line_def)
  next
    case plain
    from parse_plain_line_declares [OF plain(2)] plain(1) show ?thesis
      by (cases k) (auto simp: plain_line_def)
  qed
qed

lemma hosts_fields_valid:
  assumes "hosts_fields ln acc hs = Ok (Some d)"
    and "pred_option (\<lambda>a. valid_domain a \<and> fold_domain a = a) acc"
  shows "valid_domain d \<and> fold_domain d = d"
  using assms
proof (induction hs arbitrary: acc)
  case Nil
  then show ?case by simp
next
  case (Cons h hs)
  show ?case
  proof (cases "is_localhost_alias h")
    case True
    with Cons show ?thesis by simp
  next
    case False
    with Cons.prems obtain a where "parse_domain ln h = Ok a" "hosts_fields ln (Some a) hs = Ok (Some d)"
      by (auto split: if_splits)
    then show ?thesis
      by (intro Cons.IH [of "Some a"]) (auto simp: compat_name.norm_Ok_iff fold_domain_idem)
  qed
qed

lemma parse_line_canonical:
  assumes "parse_line l n = Ok (Some (k, d))"
  shows "valid_domain d \<and> fold_domain d = d"
  using assms
  by (auto simp: parse_line_def parse_plain_line_def Let_def compat_name.norm_Ok_iff fold_domain_idem
      split: option.splits list.splits if_splits dest: hosts_fields_valid)

definition bl_inv :: "str list \<Rightarrow> blocklist_state \<Rightarrow> bool" where
  "bl_inv ls st \<longleftrightarrow>
     set (blocked_exact st) = declared BlockExact ls \<and>
     set (blocked_suffix st) = declared BlockSuffix ls \<and>
     set (allowed_suffix st) = declared AllowSuffix ls \<and>
     (\<forall>x \<in> set (blocked_exact st) \<union> set (blocked_suffix st) \<union> set (allowed_suffix st).
        valid_domain x \<and> fold_domain x = x) \<and>
     source_lines (bl_stats st) = length ls \<and>
     accepted_block (bl_stats st) = length (blocked_exact st) + length (blocked_suffix st) \<and>
     accepted_allow (bl_stats st) = length (allowed_suffix st) \<and>
     ignored (bl_stats st) + entries st = length ls \<and>
     entries st \<le> MAX_BLOCKLIST_ENTRIES"

lemma declared_snoc:
  assumes "parse_line l n = Ok r"
  shows "declared k (ls @ [l]) = declared k ls \<union> {d. r = Some (k, d)}"
  using parse_line_declares [OF assms] by (auto simp: declared_def)

lemma bl_inv_init: "bl_inv [] blocklist_init"
  by (simp add: bl_inv_def blocklist_init_def declared_def entries_def)

lemma bl_inv_step:
  assumes "bl_inv ls st" "blocklist_step l n st = Ok st'"
  shows "bl_inv (ls @ [l]) st'"
proof -
  obtain parsed where p: "parse_line l (n + 1) = Ok parsed"
    using assms(2) by (auto simp: blocklist_step_def Let_def)
  show ?thesis
  proof (cases parsed)
    case None
    then show ?thesis using assms p
      by (auto simp: bl_inv_def blocklist_step_def declared_snoc [OF p] entries_def)
  next
    case (Some kd)
    then obtain k d where kd: "parsed = Some (k, d)" by (cases kd) auto
    then show ?thesis using assms p parse_line_canonical [of l "n + 1" k d]
      by (cases k) (auto simp: bl_inv_def blocklist_step_def declared_snoc [OF p]
          entries_def enforce_entry_limit_def split: if_splits)
  qed
qed

lemma bl_inv_loop:
  assumes "bl_inv seen st" "blocklist_loop ls n st = Ok st'"
  shows "bl_inv (seen @ ls) st'"
  using assms
proof (induction ls arbitrary: seen n st)
  case Nil
  then show ?case by simp
next
  case (Cons l ls)
  then obtain st1 where "blocklist_step l n st = Ok st1" "blocklist_loop ls (n + 1) st1 = Ok st'"
    by auto
  with Cons show ?case using bl_inv_step [of seen st l n st1] by fastforce
qed

lemma parse_domain_error_line: "parse_domain n s = Err e \<Longrightarrow> be_line e = Some n"
  by (auto simp: parse_domain_def blocklist_error_at_def Let_def split: if_splits)

lemma hosts_fields_error_line: "hosts_fields n acc hs = Err e \<Longrightarrow> be_line e = Some n"
  by (induction hs arbitrary: acc)
    (auto simp: bindR_eq_Err blocklist_error_at_def dest: parse_domain_error_line split: if_splits)

lemma parse_line_error_line: "parse_line l n = Err e \<Longrightarrow> be_line e = Some n"
  by (auto simp: parse_line_def parse_plain_line_def Let_def bindR_eq_Err blocklist_error_at_def
      dest: parse_domain_error_line hosts_fields_error_line
      split: option.splits list.splits if_splits)

lemma step_error_line: "blocklist_step l n st = Err e \<Longrightarrow> be_line e = Some (n + 1)"
  by (auto simp: blocklist_step_def Let_def bindR_eq_Err enforce_entry_limit_def
      blocklist_error_at_def dest: parse_line_error_line split: option.splits if_splits)

lemma loop_error_names_line:
  assumes "blocklist_loop ls n st = Err e"
  shows "\<exists>m. be_line e = Some m \<and> n < m \<and> m \<le> n + length ls"
  using assms
proof (induction ls arbitrary: n st)
  case Nil
  then show ?case by simp
next
  case (Cons l ls)
  show ?case
  proof (cases "blocklist_step l n st")
    case (Ok st')
    with Cons show ?thesis by fastforce
  next
    case (Err d)
    then have "be_line d = Some (n + 1)"
      using step_error_line by blast
    with Cons.prems Err show ?thesis by simp
  qed
qed

text \<open>The names an importer accepts are canonical, so compiling the sets cannot fail afterwards.\<close>

lemma loop_sets_compile:
  assumes "blocklist_loop ls 0 blocklist_init = Ok st"
  obtains b a where "domain_set_compile (blocked_exact st) (blocked_suffix st) = Ok b"
    and "domain_set_compile [] (allowed_suffix st) = Ok a"
proof -
  have inv: "bl_inv ls st" using bl_inv_loop [OF bl_inv_init assms] by simp
  then have "\<forall>x \<in> set (blocked_exact st) \<union> set (blocked_suffix st). valid_domain (fold_domain x)"
    and "\<forall>x \<in> set [] \<union> set (allowed_suffix st). valid_domain (fold_domain x)"
    by (auto simp: bl_inv_def)
  then show thesis using ds.compile_total that by metis
qed

section \<open>Properties\<close>

text \<open>
  Property C20: a compiled blocklist blocks a query exactly when a line of the text declares a rule
  that blocks it and no exception covers it. Names on their own and hosts entries block that name,
  \<open>||d^\<close> blocks \<open>d\<close> and everything below it, \<open>@@||d^\<close> excepts \<open>d\<close> and everything
  below it.
\<close>

theorem blocklist_blocks_what_lines_say:
  assumes "compile_blocklist txt = Ok c"
  shows "is_blocked (cb_filter c) q \<longleftrightarrow>
    covers (declared BlockExact (lines txt)) (declared BlockSuffix (lines txt))
      (trim_end_matches (CHR ''.'') q) \<and>
    \<not> covers {} (declared AllowSuffix (lines txt)) (trim_end_matches (CHR ''.'') q)"
proof -
  obtain st b a where loop: "blocklist_loop (lines txt) 0 blocklist_init = Ok st"
    and b: "domain_set_compile (blocked_exact st) (blocked_suffix st) = Ok b"
    and a: "domain_set_compile [] (allowed_suffix st) = Ok a"
    and c: "cb_filter c = domain_filter_new b a"
    using assms by (auto simp: compile_blocklist_def split: if_splits)
  have inv: "bl_inv (lines txt) st" using bl_inv_loop [OF bl_inv_init loop] by simp
  then have "fold_domain ` set (blocked_exact st) = declared BlockExact (lines txt)"
    "fold_domain ` set (blocked_suffix st) = declared BlockSuffix (lines txt)"
    "fold_domain ` set (allowed_suffix st) = declared AllowSuffix (lines txt)"
    by (auto simp: bl_inv_def image_def)
  then show ?thesis
    using ds.compile_matches [OF b] ds.compile_matches [OF a]
    by (simp add: c is_blocked_def domain_filter_new_def)
qed

definition sample_list :: str where
  "sample_list = ''||ads.example^'' @ [CHR 0x0A] @ ''@@||ok.ads.example^''"

theorem blocklist_blocks_what_lines_say_witness:
  "\<exists>c. compile_blocklist sample_list = Ok c \<and>
     (is_blocked (cb_filter c) ''x.ads.example'' \<longleftrightarrow>
      covers (declared BlockExact (lines sample_list)) (declared BlockSuffix (lines sample_list))
        (trim_end_matches (CHR ''.'') ''x.ads.example'') \<and>
      \<not> covers {} (declared AllowSuffix (lines sample_list)) (trim_end_matches (CHR ''.'') ''x.ads.example'')) \<and>
     is_blocked (cb_filter c) ''x.ads.example'' \<and> \<not> is_blocked (cb_filter c) ''ok.ads.example''"
proof -
  have "case compile_blocklist sample_list of
      Ok c \<Rightarrow> is_blocked (cb_filter c) ''x.ads.example'' \<and> \<not> is_blocked (cb_filter c) ''ok.ads.example''
    | Err _ \<Rightarrow> False" by code_simp
  then obtain c where "compile_blocklist sample_list = Ok c" "is_blocked (cb_filter c) ''x.ads.example''"
    "\<not> is_blocked (cb_filter c) ''ok.ads.example''"
    by (auto split: result.splits)
  with blocklist_blocks_what_lines_say [OF this(1)] show ?thesis by blast
qed

text \<open>
  Property C21: the importer is total on texts within the byte limit up to errors that name a line
  of the text: the result is either the size error, an error at a line number between 1 and the
  number of lines, or a filter whose statistics account for every line and whose entry count is
  within the limit. In particular the final set compilation never fails.
\<close>

theorem blocklist_errors_and_stats:
  "(case compile_blocklist txt of
      Err e \<Rightarrow>
        e = blocklist_error_global TooManyBytes \<and> MAX_BLOCKLIST_BYTES < length txt \<or>
        (\<exists>m. be_line e = Some m \<and> 1 \<le> m \<and> m \<le> length (lines txt))
    | Ok c \<Rightarrow>
        source_lines (cb_stats c) = length (lines txt) \<and>
        accepted_block (cb_stats c) + accepted_allow (cb_stats c) + ignored (cb_stats c)
          = length (lines txt) \<and>
        accepted_block (cb_stats c) + accepted_allow (cb_stats c) \<le> MAX_BLOCKLIST_ENTRIES)"
proof (cases "MAX_BLOCKLIST_BYTES < length txt")
  case True
  then show ?thesis by (simp add: compile_blocklist_def)
next
  case False
  show ?thesis
  proof (cases "blocklist_loop (lines txt) 0 blocklist_init")
    case (Err e)
    then show ?thesis
      using False loop_error_names_line [OF Err] by (auto simp: compile_blocklist_def)
  next
    case (Ok st)
    then obtain b a where "domain_set_compile (blocked_exact st) (blocked_suffix st) = Ok b"
      and "domain_set_compile [] (allowed_suffix st) = Ok a"
      by (rule loop_sets_compile)
    moreover have "bl_inv (lines txt) st" using bl_inv_loop [OF bl_inv_init Ok] by simp
    ultimately show ?thesis
      using False Ok by (auto simp: compile_blocklist_def bl_inv_def entries_def)
  qed
qed

end
