(* ===== verification/Platform.thy ===== *)
theory Platform
  imports Rust_Str
begin

text \<open>
  \<open>crates/platform/src/lib.rs\<close>: the capability probe and the validation of interception
  requests against it. The file system is a parameter: which paths exist and what a file holds
  (\<open>None\<close> when it cannot be read as text).
\<close>

section \<open>Definitions\<close>

datatype platform_kind = Android | Linux | OtherPlatform

datatype support_level = Available | Unavailable | UnknownSupport

definition is_available :: "support_level \<Rightarrow> bool" where
  "is_available l = (l = Available)"

record platform_capabilities =
  cap_platform :: platform_kind
  cap_tun :: support_level
  cap_tproxy :: support_level
  cap_ebpf :: support_level
  cap_btf :: support_level
  cap_bpffs :: support_level

record file_system =
  fs_exists :: "str \<Rightarrow> bool"
  fs_read_to_string :: "str \<Rightarrow> str option"

definition contains_str :: "str \<Rightarrow> str \<Rightarrow> bool" where
  "contains_str needle s = list_ex (\<lambda>i. take (length needle) (drop i s) = needle) [0..<Suc (length s)]"

definition file_contains :: "file_system \<Rightarrow> str \<Rightarrow> str \<Rightarrow> bool" where
  "file_contains fs path needle =
     (case fs_read_to_string fs path of
        None \<Rightarrow> False
      | Some content \<Rightarrow> list_ex (contains_str needle) (lines content))"

definition if_exists :: "file_system \<Rightarrow> str \<Rightarrow> support_level" where
  "if_exists fs path = (if fs_exists fs path then Available else Unavailable)"

definition probe :: "platform_kind \<Rightarrow> file_system \<Rightarrow> platform_capabilities" where
  "probe current fs =
     (let platform = current
      in if platform = OtherPlatform
         then \<lparr>cap_platform = platform, cap_tun = UnknownSupport, cap_tproxy = UnknownSupport,
               cap_ebpf = UnknownSupport, cap_btf = UnknownSupport, cap_bpffs = UnknownSupport\<rparr>
         else
           let tun = if_exists fs ''/dev/net/tun'';
               btf = if_exists fs ''/sys/kernel/btf/vmlinux'';
               bpffs = if_exists fs ''/sys/fs/bpf'';
               ebpf = (if is_available btf \<or> is_available bpffs \<or>
                          fs_exists fs ''/proc/sys/kernel/unprivileged_bpf_disabled''
                       then Available else UnknownSupport);
               tproxy = (if file_contains fs ''/proc/net/ip_tables_targets'' ''TPROXY'' \<or>
                            file_contains fs ''/proc/modules'' ''xt_TPROXY''
                         then Available else UnknownSupport)
           in \<lparr>cap_platform = platform, cap_tun = tun, cap_tproxy = tproxy,
               cap_ebpf = ebpf, cap_btf = btf, cap_bpffs = bpffs\<rparr>)"

datatype interception_mode = ExplicitProxy | ModeTun | ModeTproxy | ModeEbpf

record interception_request =
  ir_mode :: interception_mode

record capability_error =
  ce_mode :: interception_mode
  ce_support :: support_level

record probed_backend =
  pb_capabilities :: platform_capabilities

definition from_capabilities :: "platform_capabilities \<Rightarrow> probed_backend" where
  "from_capabilities c = \<lparr>pb_capabilities = c\<rparr>"

definition backend_current :: "platform_kind \<Rightarrow> file_system \<Rightarrow> probed_backend" where
  "backend_current current fs = \<lparr>pb_capabilities = probe current fs\<rparr>"

definition validate :: "probed_backend \<Rightarrow> interception_request \<Rightarrow> (unit, capability_error) result" where
  "validate backend request =
     (let support = (case ir_mode request of
          ExplicitProxy \<Rightarrow> Available
        | ModeTun \<Rightarrow> cap_tun (pb_capabilities backend)
        | ModeTproxy \<Rightarrow> cap_tproxy (pb_capabilities backend)
        | ModeEbpf \<Rightarrow> cap_ebpf (pb_capabilities backend))
      in if support = Available then Ok ()
         else Err \<lparr>ce_mode = ir_mode request, ce_support = support\<rparr>)"

section \<open>Properties\<close>

text \<open>
  Property C22: on a probed backend a mode is accepted exactly on the evidence the probe looks at:
  explicit proxying everywhere; off Android and Linux nothing else; there the tunnel device, one of
  the two TPROXY listings, or one of the three eBPF surfaces. A refusal reports the requested mode
  and never reports support.
\<close>

theorem validate_needs_evidence:
  "(validate (backend_current current fs) req = Ok () \<longleftrightarrow>
      ir_mode req = ExplicitProxy \<or> current \<noteq> OtherPlatform \<and>
        (ir_mode req = ModeTun \<and> fs_exists fs ''/dev/net/tun'' \<or>
         ir_mode req = ModeTproxy \<and>
           (file_contains fs ''/proc/net/ip_tables_targets'' ''TPROXY'' \<or>
            file_contains fs ''/proc/modules'' ''xt_TPROXY'') \<or>
         ir_mode req = ModeEbpf \<and>
           (fs_exists fs ''/sys/kernel/btf/vmlinux'' \<or> fs_exists fs ''/sys/fs/bpf'' \<or>
            fs_exists fs ''/proc/sys/kernel/unprivileged_bpf_disabled''))) \<and>
   (case validate (backend_current current fs) req of
      Ok _ \<Rightarrow> True
    | Err e \<Rightarrow> ce_mode e = ir_mode req \<and> ce_support e \<noteq> Available)"
  by (cases "ir_mode req")
    (auto simp: validate_def backend_current_def probe_def if_exists_def is_available_def Let_def)

end
