(* ===== verification/Rust_Coll.thy ===== *)
theory Rust_Coll
  imports Commeatus_Prelude "HOL-Library.AList"
begin

text \<open>
  Collections of the standard library as the sources use them. A \<open>HashMap\<close> is an association
  list with distinct keys: its list order stands for the map's unspecified iteration order, so
  results are stated for every such list. \<open>push_new\<close> is the idiom
  \<open>if !v.contains(&x) { v.push(x) }\<close>.
\<close>

section \<open>Vectors without duplicates\<close>

definition push_new :: "'a \<Rightarrow> 'a list \<Rightarrow> 'a list" where
  "push_new x xs = (if x \<in> set xs then xs else xs @ [x])"

definition push_all_new :: "'a list \<Rightarrow> 'a list \<Rightarrow> 'a list" where
  "push_all_new xs ys = foldl (\<lambda>acc x. push_new x acc) ys xs"

lemma set_push_new [simp]: "set (push_new x xs) = insert x (set xs)"
  by (auto simp: push_new_def)

lemma distinct_push_new [simp]: "distinct (push_new x xs) \<longleftrightarrow> distinct xs"
  by (auto simp: push_new_def)

lemma push_new_not_Nil [simp]: "push_new x xs \<noteq> []"
  by (auto simp: push_new_def)

lemma length_push_new: "length (push_new x xs) \<le> Suc (length xs)"
  by (simp add: push_new_def)

lemma push_all_new_Nil [simp]: "push_all_new [] ys = ys"
  by (simp add: push_all_new_def)

lemma push_all_new_Cons [simp]: "push_all_new (x # xs) ys = push_all_new xs (push_new x ys)"
  by (simp add: push_all_new_def)

lemma push_all_new_append [simp]: "push_all_new (xs @ xs') ys = push_all_new xs' (push_all_new xs ys)"
  by (simp add: push_all_new_def)

lemma set_push_all_new [simp]: "set (push_all_new xs ys) = set xs \<union> set ys"
  by (induction xs arbitrary: ys) auto

lemma distinct_push_all_new [simp]: "distinct (push_all_new xs ys) \<longleftrightarrow> distinct ys"
  by (induction xs arbitrary: ys) auto

lemma length_push_all_new: "length (push_all_new xs ys) \<le> length xs + length ys"
proof (induction xs arbitrary: ys)
  case Nil
  then show ?case by simp
next
  case (Cons x xs)
  show ?case using Cons [of "push_new x ys"] length_push_new [of x ys] by simp
qed

lemma push_all_new_eq_Nil [simp]: "push_all_new xs ys = [] \<longleftrightarrow> xs = [] \<and> ys = []"
  by (metis Un_empty set_empty set_push_all_new)

lemma push_all_new_subset: "set xs \<subseteq> set ys \<Longrightarrow> push_all_new xs ys = ys"
  by (induction xs arbitrary: ys) (auto simp: push_new_def)

lemma push_all_new_distinct:
  "distinct xs \<Longrightarrow> set xs \<inter> set ys = {} \<Longrightarrow> push_all_new xs ys = ys @ xs"
  by (induction xs arbitrary: ys) (auto simp: push_new_def)

section \<open>Hash maps\<close>

type_synonym ('k, 'v) hashmap = "('k \<times> 'v) list"

definition wf_map :: "('k, 'v) hashmap \<Rightarrow> bool" where
  "wf_map m \<longleftrightarrow> distinct (map fst m)"

definition hm_get :: "('k, 'v) hashmap \<Rightarrow> 'k \<Rightarrow> 'v option" where
  "hm_get m k = map_of m k"

definition hm_contains :: "('k, 'v) hashmap \<Rightarrow> 'k \<Rightarrow> bool" where
  "hm_contains m k = (hm_get m k \<noteq> None)"

definition hm_insert :: "'k \<Rightarrow> 'v \<Rightarrow> ('k, 'v) hashmap \<Rightarrow> ('k, 'v) hashmap" where
  "hm_insert k v m = AList.update k v m"

definition hm_remove :: "'k \<Rightarrow> ('k, 'v) hashmap \<Rightarrow> ('k, 'v) hashmap" where
  "hm_remove k m = AList.delete k m"

definition hm_retain :: "('k \<Rightarrow> 'v \<Rightarrow> bool) \<Rightarrow> ('k, 'v) hashmap \<Rightarrow> ('k, 'v) hashmap" where
  "hm_retain P m = filter (\<lambda>(k, v). P k v) m"

text \<open>\<open>iter().min_by_key(f)\<close>: the first entry with the least key.\<close>

fun hm_min_by_key :: "('v \<Rightarrow> 'a::linorder) \<Rightarrow> ('k, 'v) hashmap \<Rightarrow> ('k \<times> 'v) option" where
  "hm_min_by_key f [] = None"
| "hm_min_by_key f (p # m) =
     (case hm_min_by_key f m of
        None \<Rightarrow> Some p
      | Some q \<Rightarrow> if f (snd p) \<le> f (snd q) then Some p else Some q)"

lemma hm_get_insert [simp]: "hm_get (hm_insert k v m) k' = (if k' = k then Some v else hm_get m k')"
  by (simp add: hm_get_def hm_insert_def update_conv')

lemma hm_get_remove [simp]: "hm_get (hm_remove k m) k' = (if k' = k then None else hm_get m k')"
  by (simp add: hm_get_def hm_remove_def delete_conv')

lemma wf_map_Nil [simp]: "wf_map []"
  by (simp add: wf_map_def)

lemma hm_get_Nil [simp]: "hm_get [] k = None"
  by (simp add: hm_get_def)

lemma wf_map_insert [simp]: "wf_map m \<Longrightarrow> wf_map (hm_insert k v m)"
  by (simp add: wf_map_def hm_insert_def distinct_update)

lemma wf_map_remove [simp]: "wf_map m \<Longrightarrow> wf_map (hm_remove k m)"
  by (simp add: wf_map_def hm_remove_def distinct_delete)

lemma wf_map_retain [simp]: "wf_map m \<Longrightarrow> wf_map (hm_retain P m)"
  by (auto simp: wf_map_def hm_retain_def distinct_map inj_on_def)

lemma hm_get_Some_mem: "wf_map m \<Longrightarrow> hm_get m k = Some v \<longleftrightarrow> (k, v) \<in> set m"
  by (simp add: hm_get_def wf_map_def)

lemma hm_get_retain:
  assumes "wf_map m"
  shows "hm_get (hm_retain P m) k
    = (case hm_get m k of None \<Rightarrow> None | Some v \<Rightarrow> if P k v then Some v else None)"
  using assms by (induction m) (auto simp: hm_get_def hm_retain_def wf_map_def map_of_eq_None_iff
      split: option.splits)

lemma length_hm_insert:
  "length (hm_insert k v m) = (if hm_contains m k then length m else Suc (length m))"
  by (induction m) (auto simp: hm_insert_def hm_contains_def hm_get_def)

lemma length_hm_remove_le: "length (hm_remove k m) \<le> length m"
  by (simp add: hm_remove_def length_delete_le)

lemma length_hm_remove:
  "wf_map m \<Longrightarrow> length (hm_remove k m) = (if hm_contains m k then length m - 1 else length m)"
proof (induction m)
  case Nil
  then show ?case by (simp add: hm_remove_def hm_contains_def)
next
  case (Cons p m)
  obtain a v where p: "p = (a, v)" by (cases p)
  have m: "wf_map m" "a \<notin> fst ` set m" using Cons.prems by (auto simp: p wf_map_def)
  show ?case
  proof (cases "a = k")
    case True
    then have "hm_remove k m = m"
      using m by (simp add: hm_remove_def delete_idem)
    with True show ?thesis by (simp add: p hm_remove_def hm_contains_def hm_get_def AList.delete_eq)
  next
    case False
    have "0 < length m" if "hm_contains m k"
      using that by (cases m) (auto simp: hm_contains_def)
    with False Cons.IH m(1) show ?thesis
      by (auto simp: p hm_remove_def hm_contains_def hm_get_def AList.delete_eq)
  qed
qed

lemma length_hm_retain_le: "length (hm_retain P m) \<le> length m"
  by (simp add: hm_retain_def)

lemma hm_retain_set: "set (hm_retain P m) = {(k, v) \<in> set m. P k v}"
  by (auto simp: hm_retain_def)

lemma hm_insert_set: "wf_map m \<Longrightarrow> set (hm_insert k v m) = insert (k, v) {p \<in> set m. fst p \<noteq> k}"
proof -
  assume m: "wf_map m"
  have "(a, b) \<in> set (hm_insert k v m) \<longleftrightarrow> (a, b) \<in> insert (k, v) {p \<in> set m. fst p \<noteq> k}" for a b
    using hm_get_Some_mem [of "hm_insert k v m" a b] hm_get_Some_mem [of m a b] m
    by (auto split: if_splits)
  then show ?thesis by auto
qed

lemma hm_remove_set: "set (hm_remove k m) = {p \<in> set m. fst p \<noteq> k}"
  by (auto simp: hm_remove_def AList.delete_eq)

lemma hm_min_by_key_None_iff [simp]: "hm_min_by_key f m = None \<longleftrightarrow> m = []"
  by (cases m) (auto split: option.splits)

lemma hm_min_by_key_least:
  "hm_min_by_key f m = Some p \<Longrightarrow> p \<in> set m \<and> (\<forall>q \<in> set m. f (snd p) \<le> f (snd q))"
proof (induction m arbitrary: p)
  case Nil
  then show ?case by simp
next
  case (Cons a m)
  show ?case
  proof (cases "hm_min_by_key f m")
    case None
    with Cons.prems show ?thesis by simp
  next
    case (Some q)
    then show ?thesis using Cons.prems Cons.IH [OF Some] by (fastforce split: if_splits)
  qed
qed

end
