(* ===== verification/Dns_Hosts.thy ===== *)
theory Dns_Hosts
  imports Domain_Name Std_Net Rust_Coll
begin

text \<open>
  The data of \<open>crates/dns/src/lib.rs\<close>: errors, hosts tables, queries and answers, and the
  system resolver over the operating system's lookup. Durations are nanoseconds. Of an error's
  message only the hosts line number is kept.
\<close>

section \<open>Definitions\<close>

definition MAX_HOSTS_BYTES :: nat where
  "MAX_HOSTS_BYTES = 4 * 1024 * 1024"

definition MAX_HOSTS_ENTRIES :: nat where
  "MAX_HOSTS_ENTRIES = 100000"

definition MAX_RESOLVED_ADDRESSES :: nat where
  "MAX_RESOLVED_ADDRESSES = 16"

type_synonym duration = nat

definition from_secs :: "nat \<Rightarrow> duration" where
  "from_secs s = s * 1000000000"

definition from_millis :: "nat \<Rightarrow> duration" where
  "from_millis ms = ms * 1000000"

definition DEFAULT_CACHE_CAPACITY :: nat where
  "DEFAULT_CACHE_CAPACITY = 4096"

definition DEFAULT_CACHE_TTL :: duration where
  "DEFAULT_CACHE_TTL = from_secs 60"

definition MAX_CACHE_TTL :: duration where
  "MAX_CACHE_TTL = from_secs 300"

datatype dns_error_kind =
    InvalidName
  | HostsParse
  | NoResolvers
  | NoRecords
  | ResolverFailure
  | InvalidResponse
  | InvalidConfiguration

record dns_error =
  de_kind :: dns_error_kind
  de_line :: "nat option"

definition dns_error_new :: "dns_error_kind \<Rightarrow> dns_error" where
  "dns_error_new k = \<lparr>de_kind = k, de_line = None\<rparr>"

definition hosts_error :: "nat \<Rightarrow> dns_error" where
  "hosts_error ln = \<lparr>de_kind = HostsParse, de_line = Some ln\<rparr>"

definition normalize_name :: "str \<Rightarrow> (str, dns_error) result" where
  "normalize_name name =
     (let name = to_ascii_lowercase (trim_matches (CHR ''.'') name)
      in if name = [] \<or> 253 < length name \<or> \<not> is_ascii name \<or>
           list_ex (\<lambda>label. label = [] \<or> 63 < length label) (split_on (CHR ''.'') name)
         then Err (dns_error_new InvalidName)
         else Ok name)"

record hosts_table =
  records :: "(str, ip_addr list) hashmap"

definition hosts_default :: hosts_table where
  "hosts_default = \<lparr>records = []\<rparr>"

text \<open>\<open>records.entry(name).or_default()\<close> followed by pushes of the addresses not yet there.\<close>

definition hosts_add :: "str \<Rightarrow> ip_addr list \<Rightarrow> hosts_table \<Rightarrow> hosts_table" where
  "hosts_add name addrs t =
     (let current = (case hm_get (records t) name of None \<Rightarrow> [] | Some xs \<Rightarrow> xs)
      in t\<lparr>records := hm_insert name (push_all_new addrs current) (records t)\<rparr>)"

fun hosts_names ::
  "nat \<Rightarrow> ip_addr \<Rightarrow> str list \<Rightarrow> nat \<Rightarrow> nat \<Rightarrow> hosts_table
    \<Rightarrow> (nat \<times> nat \<times> hosts_table, dns_error) result" where
  "hosts_names ln address [] entries names table = Ok (entries, names, table)"
| "hosts_names ln address (name # rest) entries names table =
     (if MAX_HOSTS_ENTRIES \<le> entries then Err (hosts_error ln)
      else bindR (map_err (\<lambda>_. hosts_error ln) (normalize_name name)) (\<lambda>name.
        hosts_names ln address rest (entries + 1) (names + 1) (hosts_add name [address] table)))"

definition hosts_line :: "str \<Rightarrow> nat \<Rightarrow> nat \<Rightarrow> hosts_table \<Rightarrow> (nat \<times> hosts_table, dns_error) result" where
  "hosts_line raw_line ln entries table =
     (let stripped = trim (hd (split_on (CHR ''#'') raw_line))
      in if stripped = [] then Ok (entries, table)
         else (case split_whitespace stripped of
             [] \<Rightarrow> Err (hosts_error ln)
           | first # rest \<Rightarrow>
               bindR (ok_or (hosts_error ln) (parse_ip_addr first)) (\<lambda>address.
               bindR (hosts_names ln address rest entries 0 table) (\<lambda>(entries, names, table).
               if names = 0 then Err (hosts_error ln) else Ok (entries, table)))))"

fun hosts_loop :: "str list \<Rightarrow> nat \<Rightarrow> nat \<Rightarrow> hosts_table \<Rightarrow> (hosts_table, dns_error) result" where
  "hosts_loop [] index entries table = Ok table"
| "hosts_loop (raw_line # rest) index entries table =
     bindR (hosts_line raw_line (index + 1) entries table) (\<lambda>(entries, table).
       hosts_loop rest (index + 1) entries table)"

definition hosts_parse :: "str \<Rightarrow> (hosts_table, dns_error) result" where
  "hosts_parse txt =
     (if MAX_HOSTS_BYTES < length txt then Err (dns_error_new HostsParse)
      else hosts_loop (lines txt) 0 0 hosts_default)"

definition hosts_merge :: "hosts_table \<Rightarrow> hosts_table \<Rightarrow> hosts_table" where
  "hosts_merge t other = fold (\<lambda>(name, incoming). hosts_add name incoming) (records other) t"

definition hosts_resolve :: "hosts_table \<Rightarrow> str \<Rightarrow> ip_addr list option" where
  "hosts_resolve t name = hm_get (records t) name"

definition hosts_len :: "hosts_table \<Rightarrow> nat" where
  "hosts_len t = length (records t)"

definition hosts_is_empty :: "hosts_table \<Rightarrow> bool" where
  "hosts_is_empty t = (records t = [])"

record dns_query =
  q_name :: str

definition dns_query_new :: "str \<Rightarrow> (dns_query, dns_error) result" where
  "dns_query_new name = bindR (normalize_name name) (\<lambda>n. Ok \<lparr>q_name = n\<rparr>)"

definition deduplicate_bounded :: "ip_addr list \<Rightarrow> ip_addr list" where
  "deduplicate_bounded addresses = push_all_new (take MAX_RESOLVED_ADDRESSES addresses) []"

record dns_answer =
  a_addresses :: "ip_addr list"
  a_ttl :: "duration option"

definition dns_answer_new :: "ip_addr list \<Rightarrow> duration option \<Rightarrow> (dns_answer, dns_error) result" where
  "dns_answer_new addresses ttl =
     (let addresses = deduplicate_bounded addresses
      in if addresses = [] then Err (dns_error_new NoRecords)
         else Ok \<lparr>a_addresses = addresses, a_ttl = ttl\<rparr>)"

text \<open>
  \<open>SystemResolver\<close>: \<open>lookup\<close> is the operating system's \<open>to_socket_addrs\<close> on a name
  and port 0, \<open>None\<close> when it fails.
\<close>

definition system_resolve ::
  "(str \<Rightarrow> socket_addr list option) \<Rightarrow> dns_query \<Rightarrow> (dns_answer, dns_error) result" where
  "system_resolve lookup query =
     bindR (ok_or (dns_error_new ResolverFailure) (lookup (q_name query))) (\<lambda>addresses.
     let result = push_all_new (map sock_ip (take MAX_RESOLVED_ADDRESSES addresses)) []
     in if result = [] then Err (dns_error_new NoRecords) else dns_answer_new result None)"

section \<open>Specification\<close>

text \<open>The declarations of a hosts text in order: the address and each name of every line.\<close>

definition line_decls :: "str \<Rightarrow> (str \<times> ip_addr) list" where
  "line_decls raw =
     (case split_whitespace (trim (hd (split_on (CHR ''#'') raw))) of
        [] \<Rightarrow> []
      | first # rest \<Rightarrow>
          (case parse_ip_addr first of
             None \<Rightarrow> []
           | Some a \<Rightarrow> map (\<lambda>n. (fold_domain n, a)) rest))"

definition decls_for :: "str \<Rightarrow> (str \<times> ip_addr) list \<Rightarrow> ip_addr list" where
  "decls_for name ds = map snd (filter (\<lambda>d. fst d = name) ds)"

definition declared :: "str \<Rightarrow> (str \<times> ip_addr) list \<Rightarrow> ip_addr list option" where
  "declared name ds = (case decls_for name ds of [] \<Rightarrow> None | as \<Rightarrow> Some (push_all_new as []))"

definition wf_hosts :: "hosts_table \<Rightarrow> bool" where
  "wf_hosts t \<longleftrightarrow> wf_map (records t) \<and>
     (\<forall>(n, as) \<in> set (records t). valid_domain n \<and> fold_domain n = n \<and> as \<noteq> [] \<and> distinct as)"

section \<open>Lemmas\<close>

interpretation dns_name: name_normalizer normalize_name
  by unfold_locales (auto simp: normalize_name_def fold_domain_def valid_domain_def Let_def)

lemma dns_query_new_Ok_iff:
  "dns_query_new s = Ok q \<longleftrightarrow> q = \<lparr>q_name = fold_domain s\<rparr> \<and> valid_domain (fold_domain s)"
  by (auto simp: dns_query_new_def dns_name.norm_Ok_iff)

lemma deduplicate_bounded_props:
  "distinct (deduplicate_bounded xs)"
  "length (deduplicate_bounded xs) \<le> MAX_RESOLVED_ADDRESSES"
  "set (deduplicate_bounded xs) \<subseteq> set xs"
proof -
  show "length (deduplicate_bounded xs) \<le> MAX_RESOLVED_ADDRESSES"
    using length_push_all_new [of "take MAX_RESOLVED_ADDRESSES xs" "[]"]
    by (simp add: deduplicate_bounded_def)
qed (auto simp: deduplicate_bounded_def dest: in_set_takeD)

lemma deduplicate_bounded_eq_Nil [simp]: "deduplicate_bounded xs = [] \<longleftrightarrow> xs = []"
  by (simp add: deduplicate_bounded_def MAX_RESOLVED_ADDRESSES_def)

lemma deduplicate_bounded_id:
  "distinct xs \<Longrightarrow> length xs \<le> MAX_RESOLVED_ADDRESSES \<Longrightarrow> deduplicate_bounded xs = xs"
  by (simp add: deduplicate_bounded_def push_all_new_distinct)

lemma dns_answer_new_Ok_iff:
  "dns_answer_new as ttl = Ok a \<longleftrightarrow>
     as \<noteq> [] \<and> a = \<lparr>a_addresses = deduplicate_bounded as, a_ttl = ttl\<rparr>"
  by (auto simp: dns_answer_new_def Let_def)

lemma hosts_resolve_add [simp]:
  "hosts_resolve (hosts_add n as t) m =
     (if m = n then Some (push_all_new as (case hosts_resolve t n of None \<Rightarrow> [] | Some xs \<Rightarrow> xs))
      else hosts_resolve t m)"
  by (simp add: hosts_resolve_def hosts_add_def Let_def)

lemma decls_for_append [simp]: "decls_for n (xs @ ys) = decls_for n xs @ decls_for n ys"
  by (simp add: decls_for_def)

lemma decls_for_Cons:
  "decls_for n (d # ds) = (if fst d = n then snd d # decls_for n ds else decls_for n ds)"
  by (simp add: decls_for_def)

text \<open>A table holds the declarations \<open>ds\<close> when every name resolves to what they declare.\<close>

definition holds :: "(str \<times> ip_addr) list \<Rightarrow> hosts_table \<Rightarrow> bool" where
  "holds ds t \<longleftrightarrow> (\<forall>n. hosts_resolve t n = declared n ds)"

lemma holds_add:
  "holds ds t \<Longrightarrow> holds (ds @ [(n, a)]) (hosts_add n [a] t)"
  by (auto simp: holds_def declared_def decls_for_Cons decls_for_def [of _ "[]"]
      split: list.splits)

lemma hosts_names_holds:
  "hosts_names ln a ns e k t = Ok (e', k', t') \<Longrightarrow> holds ds t \<Longrightarrow>
    holds (ds @ map (\<lambda>n. (fold_domain n, a)) ns) t' \<and> k' = k + length ns \<and> e' = e + length ns"
proof (induction ns arbitrary: e k t ds)
  case Nil
  then show ?case by simp
next
  case (Cons n ns)
  then have "hosts_names ln a ns (e + 1) (k + 1) (hosts_add (fold_domain n) [a] t) = Ok (e', k', t')"
    by (auto simp: dns_name.norm_Ok_iff split: if_splits)
  with Cons.IH [OF this holds_add [OF Cons.prems(2), of "fold_domain n" a]] show ?case by simp
qed

lemma split_whitespace_Nil [simp]: "split_whitespace [] = []"
  by code_simp

lemma hosts_line_holds:
  assumes "hosts_line raw ln e t = Ok (e', t')" "holds ds t"
  shows "holds (ds @ line_decls raw) t'"
proof (cases "trim (hd (split_on (CHR ''#'') raw)) = []")
  case True
  then show ?thesis using assms by (simp add: hosts_line_def line_decls_def)
next
  case False
  with assms(1) obtain first rest a k where
    "split_whitespace (trim (hd (split_on (CHR ''#'') raw))) = first # rest"
    and "parse_ip_addr first = Some a" and "hosts_names ln a rest e 0 t = Ok (e', k, t')"
    by (auto simp: hosts_line_def Let_def split: list.splits if_splits)
  with hosts_names_holds [OF this(3) assms(2)] show ?thesis by (simp add: line_decls_def)
qed

lemma hosts_loop_holds:
  assumes "hosts_loop ls i e t = Ok t'" "holds ds t"
  shows "holds (ds @ concat (map line_decls ls)) t'"
  using assms
proof (induction ls arbitrary: i e t ds)
  case Nil
  then show ?case by simp
next
  case (Cons l ls)
  then obtain e1 t1 where "hosts_line l (i + 1) e t = Ok (e1, t1)" "hosts_loop ls (i + 1) e1 t1 = Ok t'"
    by auto
  with Cons.IH [OF this(2) hosts_line_holds [OF this(1) Cons.prems(2)]] show ?case by simp
qed

lemma holds_default: "holds [] hosts_default"
  by (simp add: holds_def hosts_default_def hosts_resolve_def declared_def decls_for_def)

lemma wf_hosts_add:
  assumes "wf_hosts t" "valid_domain n" "fold_domain n = n" "as \<noteq> []"
  shows "wf_hosts (hosts_add n as t)"
proof -
  have "distinct (case hm_get (records t) n of None \<Rightarrow> [] | Some xs \<Rightarrow> xs)"
    using assms(1) hm_get_Some_mem [of "records t" n]
    by (fastforce simp: wf_hosts_def split: option.splits)
  with assms show ?thesis
    by (auto simp: wf_hosts_def hosts_add_def Let_def hm_insert_set)
qed

lemma hosts_names_wf:
  "hosts_names ln a ns e k t = Ok (e', k', t') \<Longrightarrow> wf_hosts t \<Longrightarrow> wf_hosts t'"
  by (induction ns arbitrary: e k t)
    (auto simp: dns_name.norm_Ok_iff fold_domain_idem wf_hosts_add split: if_splits)

lemma hosts_loop_wf: "hosts_loop ls i e t = Ok t' \<Longrightarrow> wf_hosts t \<Longrightarrow> wf_hosts t'"
proof (induction ls arbitrary: i e t)
  case Nil
  then show ?case by simp
next
  case (Cons l ls)
  then obtain e1 t1 where step: "hosts_line l (i + 1) e t = Ok (e1, t1)"
    and rest: "hosts_loop ls (i + 1) e1 t1 = Ok t'" by auto
  have "wf_hosts t1"
    using step Cons.prems(2)
    by (auto simp: hosts_line_def Let_def dest: hosts_names_wf split: list.splits if_splits)
  with rest show ?case by (rule Cons.IH)
qed

lemma merge_fold:
  "wf_map rs \<Longrightarrow> hosts_resolve (fold (\<lambda>(n, as). hosts_add n as) rs t) m =
     (case hm_get rs m of
        None \<Rightarrow> hosts_resolve t m
      | Some as \<Rightarrow> Some (push_all_new as (case hosts_resolve t m of None \<Rightarrow> [] | Some xs \<Rightarrow> xs)))"
proof (induction rs arbitrary: t)
  case Nil
  then show ?case by simp
next
  case (Cons p rs)
  obtain n as where p: "p = (n, as)" by (cases p)
  have "wf_map rs" "hm_get rs n = None"
    using Cons.prems by (auto simp: p wf_map_def hm_get_def map_of_eq_None_iff)
  then show ?case by (auto simp: p Cons.IH hm_get_def split: option.split)
qed

lemma wf_hosts_merge:
  assumes "wf_hosts t" "wf_hosts u"
  shows "wf_hosts (hosts_merge t u)"
proof -
  have "wf_hosts t \<Longrightarrow> \<forall>(n, as) \<in> set rs. valid_domain n \<and> fold_domain n = n \<and> as \<noteq> [] \<Longrightarrow>
      wf_hosts (fold (\<lambda>(n, as). hosts_add n as) rs t)" for rs t
    by (induction rs arbitrary: t) (auto simp: wf_hosts_add)
  from this [OF assms(1), of "records u"] show ?thesis
    using assms(2) unfolding hosts_merge_def wf_hosts_def [of u] by blast
qed

section \<open>Properties\<close>

text \<open>
  Property C18: a parsed hosts table resolves a name to exactly the addresses its lines declare for
  it, in order of first appearance and without repetition, and to nothing when no line names it;
  the table is well formed (distinct canonical names, non-empty duplicate-free address lists).
\<close>

theorem hosts_parse_resolves_declarations:
  assumes "hosts_parse txt = Ok t"
  shows "wf_hosts t \<and> hosts_resolve t n = declared n (concat (map line_decls (lines txt)))"
proof -
  have loop: "hosts_loop (lines txt) 0 0 hosts_default = Ok t"
    using assms by (auto simp: hosts_parse_def split: if_splits)
  have "wf_hosts hosts_default" by (simp add: wf_hosts_def hosts_default_def)
  with loop have "wf_hosts t" by (rule hosts_loop_wf)
  with hosts_loop_holds [OF loop holds_default] show ?thesis by (simp add: holds_def)
qed

theorem hosts_parse_resolves_declarations_witness:
  "\<exists>t. hosts_parse ''1.2.3.4 Box.Lan nas # x'' = Ok t \<and> wf_hosts t \<and>
     hosts_resolve t ''box.lan'' =
       declared ''box.lan'' (concat (map line_decls (lines ''1.2.3.4 Box.Lan nas # x'')))"
proof -
  have "is_ok (hosts_parse ''1.2.3.4 Box.Lan nas # x'')" by code_simp
  then obtain t where "hosts_parse ''1.2.3.4 Box.Lan nas # x'' = Ok t" by (auto simp: is_ok_iff)
  then show ?thesis using hosts_parse_resolves_declarations by blast
qed

text \<open>
  Merging a well-formed table keeps every address of both sides, those of the first
  table before the new ones of the second, and adds no name that neither has.
\<close>

theorem hosts_merge_combines:
  assumes "wf_hosts u"
  shows "hosts_resolve (hosts_merge t u) n =
    (case hosts_resolve u n of
       None \<Rightarrow> hosts_resolve t n
     | Some as \<Rightarrow> Some (push_all_new as (case hosts_resolve t n of None \<Rightarrow> [] | Some xs \<Rightarrow> xs)))"
  using merge_fold [of "records u" t n] assms
  by (simp add: hosts_merge_def wf_hosts_def hosts_resolve_def)

theorem hosts_merge_combines_witness:
  "hosts_resolve (hosts_merge \<lparr>records = [(''a'', [V4 1])]\<rparr> \<lparr>records = [(''a'', [V4 2, V4 1])]\<rparr>) ''a''
   = Some [V4 1, V4 2]"
proof -
  have "wf_hosts \<lparr>records = [(''a'', [V4 2, V4 1])]\<rparr>" by code_simp
  from hosts_merge_combines [OF this, of "\<lparr>records = [(''a'', [V4 1])]\<rparr>" "''a''"]
  show ?thesis by (simp add: hosts_resolve_def hm_get_def push_new_def)
qed

end
