(* ===== verification/Dns_Wire.thy ===== *)
theory Dns_Wire
  imports Dns_Hosts
begin

text \<open>
  \<open>crates/dns/src/wire.rs\<close>: DNS messages. Names are encoded as length-prefixed labels and
  decoded with bounded, strictly backward compression pointers; a response is checked against its
  query and its addresses are collected through CNAME records. A mutable \<open>offset\<close> of the
  source is threaded as an argument and a second result.
\<close>

section \<open>Constants and records\<close>

definition DNS_HEADER_BYTES :: nat where "DNS_HEADER_BYTES = 12"
definition MAX_DNS_MESSAGE_BYTES :: nat where "MAX_DNS_MESSAGE_BYTES = 65535"
definition MAX_DNS_ANSWER_RECORDS :: nat where "MAX_DNS_ANSWER_RECORDS = 512"
definition MAX_DNS_NAME_POINTER_HOPS :: nat where "MAX_DNS_NAME_POINTER_HOPS = 32"
definition MAX_DNS_ALIAS_HOPS :: nat where "MAX_DNS_ALIAS_HOPS = 16"
definition FLAG_QR :: u16 where "FLAG_QR = 0x8000"
definition FLAG_TC :: u16 where "FLAG_TC = 0x0200"
definition FLAG_RD :: u16 where "FLAG_RD = 0x0100"
definition RCODE_MASK :: u16 where "RCODE_MASK = 0x000f"
definition CLASS_IN :: u16 where "CLASS_IN = 1"
definition TYPE_A :: u16 where "TYPE_A = 1"
definition TYPE_CNAME :: u16 where "TYPE_CNAME = 5"
definition TYPE_AAAA :: u16 where "TYPE_AAAA = 28"

datatype address_record_type = A | Aaaa

fun record_code :: "address_record_type \<Rightarrow> u16" where
  "record_code A = TYPE_A"
| "record_code Aaaa = TYPE_AAAA"

record resource_record =
  rr_owner :: str
  rr_type :: u16
  rr_class :: u16
  rr_ttl :: duration
  rr_start :: nat
  rr_end :: nat

definition invalid_response :: dns_error where
  "invalid_response = dns_error_new InvalidResponse"

section \<open>Reading and writing\<close>

definition push_u16 :: "bytes \<Rightarrow> u16 \<Rightarrow> bytes" where
  "push_u16 out v = out @ u16_to_be v"

definition read_u16 :: "bytes \<Rightarrow> nat \<Rightarrow> (u16, dns_error) result" where
  "read_u16 message offset =
     bindR (ok_or invalid_response (get_range message offset (offset + 2))) (\<lambda>bs. Ok (u16_from_be bs))"

definition take_u16 :: "bytes \<Rightarrow> nat \<Rightarrow> (u16 \<times> nat, dns_error) result" where
  "take_u16 message offset = bindR (read_u16 message offset) (\<lambda>v. Ok (v, offset + 2))"

definition take_u32 :: "bytes \<Rightarrow> nat \<Rightarrow> (u32 \<times> nat, dns_error) result" where
  "take_u32 message offset =
     bindR (ok_or invalid_response (get_range message offset (offset + 4)))
       (\<lambda>bs. Ok (of_nat (nat_of_be bs), offset + 4))"

section \<open>Names\<close>

fun encode_labels :: "str list \<Rightarrow> bytes \<Rightarrow> (bytes, dns_error) result" where
  "encode_labels [] out = Ok out"
| "encode_labels (label # rest) out =
     (if 255 < length label then Err (dns_error_new InvalidName)
      else if label = [] \<or> 63 < length label then Err (dns_error_new InvalidName)
      else encode_labels rest (out @ [of_nat (length label)] @ as_bytes label))"

definition encode_name :: "str \<Rightarrow> bytes \<Rightarrow> (bytes, dns_error) result" where
  "encode_name name out =
     bindR (encode_labels (split_on (CHR ''.'') name) out) (\<lambda>out.
     let out = out @ [0]
     in if MAX_DNS_MESSAGE_BYTES < length out then Err (dns_error_new InvalidConfiguration)
        else Ok out)"

text \<open>
  The loop of \<open>decode_name\<close>. It ends: a pointer costs one of finitely many hops, a label moves
  the cursor forward within the message.
\<close>

function decode_loop ::
  "bytes \<Rightarrow> nat \<Rightarrow> nat option \<Rightarrow> str list \<Rightarrow> nat \<Rightarrow> nat \<Rightarrow> (str list \<times> nat, dns_error) result" where
  "decode_loop message cursor resume labels hops decoded_bytes =
     (case get message cursor of
        None \<Rightarrow> Err invalid_response
      | Some len \<Rightarrow>
          if len AND 0xc0 = 0xc0 then
            (case get message (cursor + 1) of
               None \<Rightarrow> Err invalid_response
             | Some second \<Rightarrow>
                 let pointer = push_bit 8 (unat (len AND 0x3f)) OR unat second
                 in if length message \<le> pointer then Err invalid_response
                    else if cursor \<le> pointer then Err invalid_response
                    else if MAX_DNS_NAME_POINTER_HOPS < hops + 1 then Err invalid_response
                    else decode_loop message pointer
                           (if resume = None then Some (cursor + 2) else resume)
                           labels (hops + 1) decoded_bytes)
          else if len AND 0xc0 \<noteq> 0 then Err invalid_response
          else if len = 0 then Ok (labels, case resume of None \<Rightarrow> cursor + 1 | Some r \<Rightarrow> r)
          else if 63 < unat len then Err invalid_response
          else if length message < cursor + 1 + unat len then Err invalid_response
          else (case from_utf8 (take (unat len) (drop (cursor + 1) message)) of
                  None \<Rightarrow> Err invalid_response
                | Some label \<Rightarrow>
                    if \<not> is_ascii label then Err invalid_response
                    else
                      let decoded_bytes = decoded_bytes + (unat len + (if labels = [] then 0 else 1))
                      in if 253 < decoded_bytes then Err invalid_response
                         else decode_loop message (cursor + 1 + unat len) resume
                                (labels @ [to_ascii_lowercase label]) hops decoded_bytes))"
  by pat_completeness auto
termination
  by (relation "measures [\<lambda>(message, cursor, resume, labels, hops, decoded_bytes).
        Suc MAX_DNS_NAME_POINTER_HOPS - hops,
      \<lambda>(message, cursor, resume, labels, hops, decoded_bytes). length message - cursor]")
    (auto simp: MAX_DNS_NAME_POINTER_HOPS_def word_neq_0_conv word_less_nat_alt)

declare decode_loop.simps [simp del]

definition decode_name :: "bytes \<Rightarrow> nat \<Rightarrow> (str \<times> nat, dns_error) result" where
  "decode_name message offset =
     bindR (decode_loop message offset None [] 0 0) (\<lambda>(labels, offset).
     if labels = [] then Err invalid_response
     else bindR (map_err (\<lambda>_. invalid_response) (normalize_name (join_with (CHR ''.'') labels)))
            (\<lambda>name. Ok (name, offset)))"

section \<open>Queries and responses\<close>

definition encode_address_query ::
  "u16 \<Rightarrow> dns_query \<Rightarrow> address_record_type \<Rightarrow> (bytes, dns_error) result" where
  "encode_address_query qid query record_type =
     (let message = push_u16 (push_u16 (push_u16 (push_u16 (push_u16 (push_u16 [] qid) FLAG_RD) 1) 0) 0) 0
      in bindR (encode_name (q_name query) message) (\<lambda>message.
         Ok (push_u16 (push_u16 message (record_code record_type)) CLASS_IN)))"

definition check_header :: "u16 \<Rightarrow> bytes \<Rightarrow> (nat, dns_error) result" where
  "check_header expected_id message =
     (if length message < DNS_HEADER_BYTES \<or> MAX_DNS_MESSAGE_BYTES < length message
      then Err invalid_response
      else
        bindR (read_u16 message 0) (\<lambda>mid.
        if mid \<noteq> expected_id then Err invalid_response
        else
        bindR (read_u16 message 2) (\<lambda>flags.
        if flags AND FLAG_QR = 0 then Err invalid_response
        else if flags AND FLAG_TC \<noteq> 0 then Err (dns_error_new ResolverFailure)
        else if flags AND RCODE_MASK = 3 then Err (dns_error_new NoRecords)
        else if flags AND RCODE_MASK \<noteq> 0 then Err (dns_error_new ResolverFailure)
        else
        bindR (read_u16 message 4) (\<lambda>question_count.
        bindR (read_u16 message 6) (\<lambda>answer_count.
        if question_count \<noteq> 1 then Err invalid_response
        else if MAX_DNS_ANSWER_RECORDS < unat answer_count then Err invalid_response
        else Ok (unat answer_count))))))"

definition check_question ::
  "dns_query \<Rightarrow> address_record_type \<Rightarrow> bytes \<Rightarrow> nat \<Rightarrow> (nat, dns_error) result" where
  "check_question query record_type message offset =
     bindR (decode_name message offset) (\<lambda>(question_name, offset).
     if question_name \<noteq> q_name query then Err invalid_response
     else
     bindR (take_u16 message offset) (\<lambda>(question_type, offset).
     bindR (take_u16 message offset) (\<lambda>(question_class, offset).
     if question_type \<noteq> record_code record_type \<or> question_class \<noteq> CLASS_IN
     then Err invalid_response else Ok offset)))"

definition read_record :: "bytes \<Rightarrow> nat \<Rightarrow> (resource_record \<times> nat, dns_error) result" where
  "read_record message offset =
     bindR (decode_name message offset) (\<lambda>(owner, offset).
     bindR (take_u16 message offset) (\<lambda>(ty, offset).
     bindR (take_u16 message offset) (\<lambda>(cls, offset).
     bindR (take_u32 message offset) (\<lambda>(ttl, offset).
     bindR (take_u16 message offset) (\<lambda>(rdlength, offset).
     bindR (ok_or invalid_response
              (case checked_add offset (unat rdlength) of
                 None \<Rightarrow> None
               | Some e \<Rightarrow> if e \<le> length message then Some e else None)) (\<lambda>e.
     Ok (\<lparr>rr_owner = owner, rr_type = ty, rr_class = cls, rr_ttl = from_secs (unat ttl),
          rr_start = offset, rr_end = e\<rparr>, e)))))))"

fun read_records :: "bytes \<Rightarrow> nat \<Rightarrow> nat \<Rightarrow> (resource_record list, dns_error) result" where
  "read_records message 0 offset = Ok []"
| "read_records message (Suc n) offset =
     bindR (read_record message offset) (\<lambda>(r, offset).
     bindR (read_records message n offset) (\<lambda>rs. Ok (r # rs)))"

section \<open>Aliases\<close>

definition min_ttl :: "duration option \<Rightarrow> duration \<Rightarrow> duration" where
  "min_ttl current candidate = (case current of None \<Rightarrow> candidate | Some c \<Rightarrow> min c candidate)"

text \<open>One pass over the records; the accepted names are a set kept as a duplicate-free list.\<close>

fun alias_pass ::
  "bytes \<Rightarrow> resource_record list \<Rightarrow> str list \<Rightarrow> duration option \<Rightarrow> bool
    \<Rightarrow> (str list \<times> duration option \<times> bool, dns_error) result" where
  "alias_pass message [] accepted chain_ttl changed = Ok (accepted, chain_ttl, changed)"
| "alias_pass message (r # rs) accepted chain_ttl changed =
     (if rr_class r \<noteq> CLASS_IN \<or> rr_type r \<noteq> TYPE_CNAME \<or> rr_owner r \<notin> set accepted
      then alias_pass message rs accepted chain_ttl changed
      else
        bindR (decode_name message (rr_start r)) (\<lambda>(target, offset).
        if offset \<noteq> rr_end r then Err invalid_response
        else alias_pass message rs (push_new target accepted)
               (Some (min_ttl chain_ttl (rr_ttl r)))
               (changed \<or> target \<notin> set accepted)))"

fun alias_loop ::
  "nat \<Rightarrow> bytes \<Rightarrow> resource_record list \<Rightarrow> str list \<Rightarrow> duration option
    \<Rightarrow> (str list \<times> duration option, dns_error) result" where
  "alias_loop 0 message rs accepted chain_ttl = Ok (accepted, chain_ttl)"
| "alias_loop (Suc n) message rs accepted chain_ttl =
     bindR (alias_pass message rs accepted chain_ttl False) (\<lambda>(accepted, chain_ttl, changed).
     if \<not> changed then Ok (accepted, chain_ttl)
     else if MAX_DNS_ALIAS_HOPS + 1 < length accepted then Err invalid_response
     else alias_loop n message rs accepted chain_ttl)"

definition record_address ::
  "address_record_type \<Rightarrow> bytes \<Rightarrow> resource_record \<Rightarrow> (ip_addr, dns_error) result" where
  "record_address record_type message r =
     (case record_type of
        A \<Rightarrow> if rr_end r - rr_start r \<noteq> 4 then Err invalid_response
             else Ok (V4 (v4_from_octets (take 4 (drop (rr_start r) message))))
      | Aaaa \<Rightarrow> if rr_end r - rr_start r \<noteq> 16 then Err invalid_response
             else Ok (V6 (v6_from_octets (take 16 (drop (rr_start r) message)))))"

fun collect_addresses ::
  "address_record_type \<Rightarrow> bytes \<Rightarrow> str list \<Rightarrow> resource_record list \<Rightarrow> ip_addr list \<Rightarrow> duration option
    \<Rightarrow> (ip_addr list \<times> duration option, dns_error) result" where
  "collect_addresses record_type message accepted [] addresses ttl = Ok (addresses, ttl)"
| "collect_addresses record_type message accepted (r # rs) addresses ttl =
     (if rr_class r \<noteq> CLASS_IN \<or> rr_type r \<noteq> record_code record_type \<or> rr_owner r \<notin> set accepted
      then collect_addresses record_type message accepted rs addresses ttl
      else
        bindR (record_address record_type message r) (\<lambda>address.
        collect_addresses record_type message accepted rs (push_new address addresses)
          (Some (min_ttl ttl (rr_ttl r)))))"

definition resolve_addresses_through_aliases ::
  "dns_query \<Rightarrow> address_record_type \<Rightarrow> bytes \<Rightarrow> resource_record list \<Rightarrow> (dns_answer, dns_error) result"
where
  "resolve_addresses_through_aliases query record_type message rs =
     bindR (alias_loop MAX_DNS_ALIAS_HOPS message rs [q_name query] None) (\<lambda>(accepted, chain_ttl).
     bindR (collect_addresses record_type message accepted rs [] chain_ttl) (\<lambda>(addresses, ttl).
     dns_answer_new addresses ttl))"

definition parse_address_response ::
  "u16 \<Rightarrow> dns_query \<Rightarrow> address_record_type \<Rightarrow> bytes \<Rightarrow> (dns_answer, dns_error) result" where
  "parse_address_response expected_id query record_type message =
     bindR (check_header expected_id message) (\<lambda>answer_count.
     bindR (check_question query record_type message DNS_HEADER_BYTES) (\<lambda>offset.
     bindR (read_records message answer_count offset) (\<lambda>rs.
     resolve_addresses_through_aliases query record_type message rs)))"

section \<open>Names round trip\<close>

definition enc_label :: "str \<Rightarrow> bytes" where
  "enc_label l = of_nat (length l) # as_bytes l"

definition enc_name :: "str list \<Rightarrow> bytes" where
  "enc_name ls = concat (map enc_label ls) @ [0]"

definition wire_label :: "str \<Rightarrow> bool" where
  "wire_label l \<longleftrightarrow> l \<noteq> [] \<and> length l \<le> 63 \<and> is_ascii l \<and> to_ascii_lowercase l = l"

lemma small_length_octet: "n \<le> 63 \<Longrightarrow> (of_nat n :: u8) AND 0xc0 = 0"
proof -
  assume n: "n \<le> 63"
  have "\<forall>m \<in> set [0..<64]. (of_nat m :: u8) AND 0xc0 = 0" by code_simp
  with n show ?thesis by (simp only: set_upt atLeastLessThan_iff) simp
qed

lemma unat_small_octet: "n \<le> 63 \<Longrightarrow> unat (of_nat n :: u8) = n"
  by (simp add: unat_of_nat)

lemma length_enc_label [simp]: "length (enc_label l) = Suc (length l)"
  by (simp add: enc_label_def)

lemma encode_labels_Ok:
  "\<forall>l \<in> set ls. l \<noteq> [] \<and> length l \<le> 63 \<Longrightarrow> encode_labels ls out = Ok (out @ concat (map enc_label ls))"
  by (induction ls arbitrary: out) (auto simp: enc_label_def)

text \<open>The three ways the loop goes on or ends.\<close>

lemma decode_loop_label:
  assumes "get m c = Some len" "len AND 0xc0 = 0" "len \<noteq> 0" "unat len \<le> 63"
    and "c + 1 + unat len \<le> length m" "from_utf8 (take (unat len) (drop (c + 1) m)) = Some l"
    and "is_ascii l" "dec + (unat len + (if acc = [] then 0 else 1)) \<le> 253"
  shows "decode_loop m c r acc h dec =
    decode_loop m (c + 1 + unat len) r (acc @ [to_ascii_lowercase l]) h
      (dec + (unat len + (if acc = [] then 0 else 1)))"
  using assms
  by (subst decode_loop.simps) (simp del: get_Some_iff One_nat_def add_Suc_right add: Let_def)

lemma decode_loop_end:
  assumes "get m c = Some 0"
  shows "decode_loop m c r acc h dec = Ok (acc, case r of None \<Rightarrow> c + 1 | Some r \<Rightarrow> r)"
  using assms by (subst decode_loop.simps) (simp del: get_Some_iff)

lemma decode_loop_pointer:
  assumes "get m c = Some b" "b AND 0xc0 = 0xc0" "get m (c + 1) = Some b'"
    and "p = push_bit 8 (unat (b AND 0x3f)) OR unat b'" "p < c" "h < MAX_DNS_NAME_POINTER_HOPS"
  shows "decode_loop m c r acc h dec =
    decode_loop m p (if r = None then Some (c + 2) else r) acc (h + 1) dec"
proof -
  have "c < length m" using assms(1) by simp
  then have "p < length m" using assms(5) by simp
  with assms show ?thesis
    by (subst decode_loop.simps) (simp del: get_Some_iff One_nat_def add: Let_def not_less not_le)
qed

lemma decode_label_step:
  assumes "wire_label l" "dec + (length l + (if acc = [] then 0 else 1)) \<le> 253"
  shows "decode_loop (pre @ enc_label l @ post) (length pre) r acc h dec =
    decode_loop (pre @ enc_label l @ post) (length (pre @ enc_label l)) r (acc @ [l]) h
      (dec + (length l + (if acc = [] then 0 else 1)))"
proof -
  let ?m = "pre @ enc_label l @ post"
  have l: "length l \<le> 63" "0 < length l" "is_ascii l" "to_ascii_lowercase l = l"
    using assms(1) by (auto simp: wire_label_def)
  note n = unat_small_octet [OF l(1)]
  have "(of_nat (length l) :: u8) \<noteq> 0"
    using n l(2) by (metis less_numeral_extra(3) unat_0)
  moreover have "get ?m (length pre) = Some (of_nat (length l))"
    by (simp add: get_def enc_label_def nth_append)
  moreover have "from_utf8 (take (length l) (drop (length pre + 1) ?m)) = Some l"
    using l(3) by (simp add: enc_label_def)
  ultimately have "decode_loop ?m (length pre) r acc h dec =
      decode_loop ?m (length pre + 1 + length l) r (acc @ [to_ascii_lowercase l]) h
        (dec + (length l + (if acc = [] then 0 else 1)))"
    using decode_loop_label [of ?m "length pre" "of_nat (length l)" l dec acc r h]
      small_length_octet [OF l(1)] l assms(2) by (simp add: n)
  then show ?thesis using l(4) by simp
qed

lemma decode_encoded_labels:
  assumes "\<forall>l \<in> set ls. wire_label l"
    and "dec + sum_list (map length ls) + (if acc = [] then length ls - 1 else length ls) \<le> 253"
  shows "decode_loop (pre @ enc_name ls @ post) (length pre) r acc h dec =
    Ok (acc @ ls, case r of None \<Rightarrow> length (pre @ enc_name ls) | Some r \<Rightarrow> r)"
  using assms
proof (induction ls arbitrary: pre acc dec)
  case Nil
  have "get (pre @ enc_name [] @ post) (length pre) = Some 0"
    by (simp add: get_def enc_name_def nth_append)
  then show ?case by (simp add: decode_loop_end enc_name_def split: option.split)
next
  case (Cons l ls)
  let ?d = "dec + (length l + (if acc = [] then 0 else 1))"
  have m: "pre @ enc_name (l # ls) @ post = pre @ enc_label l @ (enc_name ls @ post)"
    by (simp add: enc_name_def)
  have "decode_loop (pre @ enc_name (l # ls) @ post) (length pre) r acc h dec =
      decode_loop ((pre @ enc_label l) @ enc_name ls @ post) (length (pre @ enc_label l)) r (acc @ [l]) h ?d"
    unfolding m using Cons.prems
    by (subst decode_label_step) (auto split: if_splits)
  also have "\<dots> = Ok ((acc @ [l]) @ ls, case r of None \<Rightarrow> length ((pre @ enc_label l) @ enc_name ls) | Some r \<Rightarrow> r)"
    using Cons.prems by (intro Cons.IH) (auto split: if_splits)
  finally show ?case by (simp add: enc_name_def cong: option.case_cong)
qed

lemma length_join_with:
  "ps \<noteq> [] \<Longrightarrow> length (join_with c ps) = sum_list (map length ps) + (length ps - 1)"
  by (induction c ps rule: join_with.induct) auto

text \<open>The names a query can carry: canonical, so that normalising them changes nothing.\<close>

definition canonical :: "str \<Rightarrow> bool" where
  "canonical n \<longleftrightarrow> valid_domain n \<and> to_ascii_lowercase n = n"

lemma canonical_labels:
  assumes "canonical n"
  shows "\<forall>l \<in> set (split_on (CHR ''.'') n). wire_label l"
proof
  fix l assume l: "l \<in> set (split_on (CHR ''.'') n)"
  have low: "map to_ascii_lowercase (split_on (CHR ''.'') n) = split_on (CHR ''.'') n"
    using assms split_on_lowercase [of n] by (simp add: canonical_def)
  have "to_ascii_lowercase l = l"
    using low l by (rule map_fixed)
  moreover have "is_ascii l"
    using split_on_chars [OF l] assms by (auto simp: canonical_def valid_domain_def is_ascii_def list_all_iff)
  ultimately show "wire_label l"
    using valid_domain_labels [OF _ l] assms by (auto simp: wire_label_def canonical_def)
qed

lemma canonical_fold: "canonical n \<Longrightarrow> fold_domain n = n"
  by (simp add: canonical_def fold_domain_def trim_matches_valid)

lemma canonical_iff: "canonical n \<longleftrightarrow> valid_domain n \<and> fold_domain n = n"
  by (metis canonical_def canonical_fold fold_domain_lower)

lemma encode_name_canonical:
  assumes "canonical n" "length out + length n + 2 \<le> MAX_DNS_MESSAGE_BYTES"
  shows "encode_name n out = Ok (out @ enc_name (split_on (CHR ''.'') n))"
proof -
  let ?ls = "split_on (CHR ''.'') n"
  have "length (concat (map enc_label ?ls)) = length n + 1"
    using length_join_with [of ?ls "CHR ''.''"]
    by (simp add: length_concat o_def sum_list_Suc)
  moreover have "encode_labels ?ls out = Ok (out @ concat (map enc_label ?ls))"
    using canonical_labels [OF assms(1)] by (intro encode_labels_Ok) (auto simp: wire_label_def)
  ultimately show ?thesis using assms(2) by (simp add: encode_name_def enc_name_def Let_def)
qed

lemma decode_encoded_name:
  assumes "canonical n"
  shows "decode_name (pre @ enc_name (split_on (CHR ''.'') n) @ post) (length pre) =
    Ok (n, length (pre @ enc_name (split_on (CHR ''.'') n)))"
proof -
  let ?ls = "split_on (CHR ''.'') n"
  have "sum_list (map length ?ls) + (length ?ls - 1) \<le> 253"
    using length_join_with [of ?ls "CHR ''.''"] assms valid_domain_length [of n] by (simp add: canonical_def)
  then have "decode_loop (pre @ enc_name ?ls @ post) (length pre) None [] 0 0 =
      Ok (?ls, length (pre @ enc_name ?ls))"
    using decode_encoded_labels [of ?ls 0 "[]" pre post None 0] canonical_labels [OF assms] by simp
  moreover have "normalize_name n = Ok n"
    using assms by (simp add: dns_name.norm_Ok_iff canonical_iff)
  ultimately show ?thesis by (simp add: decode_name_def)
qed

lemma decode_loop_offset:
  "decode_loop m c r acc h dec = Ok (ls, e) \<Longrightarrow>
    (case r of None \<Rightarrow> c < e \<and> e \<le> length m | Some x \<Rightarrow> e = x)"
proof (induction m c r acc h dec rule: decode_loop.induct)
  case (1 m c r acc h dec)
  obtain len where len: "get m c = Some len" "c < length m"
    using "1.prems" by (cases "get m c") (simp_all add: decode_loop.simps [of m c])
  consider (ptr) b' p where "len AND 0xc0 = 0xc0" "get m (c + 1) = Some b'"
      "p = push_bit 8 (unat (len AND 0x3f)) OR unat b'"
      "\<not> length m \<le> p" "\<not> c \<le> p" "\<not> MAX_DNS_NAME_POINTER_HOPS < h + 1"
      "decode_loop m p (if r = None then Some (c + 2) else r) acc (h + 1) dec = Ok (ls, e)"
    | (fin) "e = (case r of None \<Rightarrow> c + 1 | Some r \<Rightarrow> r)"
    | (lab) l where "len AND 0xc0 \<noteq> 0xc0" "\<not> len AND 0xc0 \<noteq> 0" "len \<noteq> 0" "\<not> 63 < unat len"
      "\<not> length m < c + 1 + unat len"
      "from_utf8 (take (unat len) (drop (c + 1) m)) = Some l" "\<not> \<not> is_ascii l"
      "\<not> 253 < dec + (unat len + (if acc = [] then 0 else 1))"
      "decode_loop m (c + 1 + unat len) r (acc @ [to_ascii_lowercase l]) h
        (dec + (unat len + (if acc = [] then 0 else 1))) = Ok (ls, e)"
    using "1.prems" [unfolded decode_loop.simps [of m c r acc h dec]] len
    by (auto simp: Let_def simp del: get_Some_iff One_nat_def add_Suc_right
        split: if_split_asm option.split_asm)
  then show ?case
  proof cases
    case ptr
    have "Suc c < length m" using ptr(2) by simp
    with ptr "1.IH"(1) [OF len(1) ptr(1-6)] show ?thesis
      by (auto split: option.splits)
  next
    case fin
    with len(2) show ?thesis by (simp split: option.split)
  next
    case lab
    with "1.IH"(2) [OF len(1) lab(1-7) refl lab(8,9)] show ?thesis
      by (auto split: option.splits)
  qed
qed

lemma decode_name_Ok:
  assumes "decode_name m off = Ok (n, off')"
  shows "canonical n \<and> off < off' \<and> off' \<le> length m"
proof -
  obtain ls where "decode_loop m off None [] 0 0 = Ok (ls, off')"
    and "normalize_name (join_with (CHR ''.'') ls) = Ok n"
    using assms by (auto simp: decode_name_def split: if_splits)
  with decode_loop_offset [OF this(1)] show ?thesis
    by (auto simp: dns_name.norm_Ok_iff canonical_iff fold_domain_idem)
qed

section \<open>Aliases\<close>

text \<open>The alias graph of a message: a CNAME record of class IN leads from its owner to its target.\<close>

definition cname_edge :: "bytes \<Rightarrow> resource_record list \<Rightarrow> str \<Rightarrow> str \<Rightarrow> bool" where
  "cname_edge m rs a b \<longleftrightarrow> (\<exists>r \<in> set rs. rr_class r = 1 \<and> rr_type r = 5 \<and>
     rr_owner r = a \<and> decode_name m (rr_start r) = Ok (b, rr_end r))"

lemma cname_edge_iff: "cname_edge m rs a b \<longleftrightarrow> (\<exists>r \<in> set rs. rr_class r = CLASS_IN \<and> rr_type r = TYPE_CNAME \<and>
    rr_owner r = a \<and> decode_name m (rr_start r) = Ok (b, rr_end r))"
  by (simp add: cname_edge_def CLASS_IN_def TYPE_CNAME_def)

abbreviation aliases :: "bytes \<Rightarrow> resource_record list \<Rightarrow> str \<Rightarrow> str \<Rightarrow> bool" where
  "aliases m rs \<equiv> (cname_edge m rs)\<^sup>*\<^sup>*"

definition selects :: "address_record_type \<Rightarrow> str set \<Rightarrow> resource_record \<Rightarrow> bool" where
  "selects rt names r \<longleftrightarrow>
     rr_class r = 1 \<and> rr_type r = (case rt of A \<Rightarrow> 1 | Aaaa \<Rightarrow> 28) \<and> rr_owner r \<in> names"

lemma selects_iff:
  "selects rt names r \<longleftrightarrow> rr_class r = CLASS_IN \<and> rr_type r = record_code rt \<and> rr_owner r \<in> names"
  by (cases rt) (simp_all add: selects_def CLASS_IN_def TYPE_A_def TYPE_AAAA_def)

text \<open>A CNAME record of class IN that belongs to one of the names, and the lowest TTL of a set of records.\<close>

definition follows :: "str set \<Rightarrow> resource_record \<Rightarrow> bool" where
  "follows names r \<longleftrightarrow> rr_class r = 1 \<and> rr_type r = 5 \<and> rr_owner r \<in> names"

lemma follows_iff:
  "follows names r \<longleftrightarrow> rr_class r = CLASS_IN \<and> rr_type r = TYPE_CNAME \<and> rr_owner r \<in> names"
  by (simp add: follows_def CLASS_IN_def TYPE_CNAME_def)

definition lowest_ttl :: "resource_record set \<Rightarrow> duration option" where
  "lowest_ttl F = (if F = {} then None else Some (Min (rr_ttl ` F)))"

lemma lowest_ttl_insert: "finite F \<Longrightarrow> lowest_ttl (insert r F) = Some (min_ttl (lowest_ttl F) (rr_ttl r))"
  by (auto simp: lowest_ttl_def min_ttl_def min.commute)

lemma follows_mono: "follows N r \<Longrightarrow> N \<subseteq> M \<Longrightarrow> follows M r"
  by (auto simp: follows_iff)

text \<open>
  Every name but the query was reached by a followed record, and the chain TTL is the lowest of the
  followed records: the invariant of both alias loops.
\<close>

definition chain_inv ::
  "bytes \<Rightarrow> resource_record list \<Rightarrow> str \<Rightarrow> str list \<Rightarrow> duration option \<Rightarrow> resource_record set \<Rightarrow> bool" where
  "chain_inv m rs q acc ttl F \<longleftrightarrow>
     F \<subseteq> {r \<in> set rs. follows (set acc) r} \<and> ttl = lowest_ttl F \<and>
     (\<forall>n \<in> set acc. n = q \<or> (\<exists>r \<in> F. decode_name m (rr_start r) = Ok (n, rr_end r)))"

lemma chain_inv_finite: "chain_inv m rs q acc ttl F \<Longrightarrow> finite F"
  by (auto simp: chain_inv_def intro: finite_subset)

lemma chain_inv_follow:
  assumes "chain_inv m rs q acc ttl F" "r \<in> set rs" "follows (set acc) r"
    and "decode_name m (rr_start r) = Ok (t, rr_end r)"
  shows "chain_inv m rs q (push_new t acc) (Some (min_ttl ttl (rr_ttl r))) (insert r F)"
proof -
  have "Some (min_ttl ttl (rr_ttl r)) = lowest_ttl (insert r F)"
    using assms(1) lowest_ttl_insert [OF chain_inv_finite [OF assms(1)]] by (simp add: chain_inv_def)
  then show ?thesis
    using assms follows_mono [of "set acc" _ "set (push_new t acc)"] by (auto simp: chain_inv_def)
qed

lemma alias_pass_chain:
  assumes "alias_pass m rs' acc ttl ch = Ok (acc', ttl', ch')" "set rs' \<subseteq> set rs" "chain_inv m rs q acc ttl F"
  shows "\<exists>F'. chain_inv m rs q acc' ttl' F' \<and> F \<subseteq> F' \<and> {r \<in> set rs'. follows (set acc) r} \<subseteq> F'"
  using assms
proof (induction rs' arbitrary: acc ttl ch F)
  case Nil
  then show ?case by auto
next
  case (Cons r rs')
  show ?case
  proof (cases "follows (set acc) r")
    case False
    with Cons.prems(1) have "alias_pass m rs' acc ttl ch = Ok (acc', ttl', ch')" by (auto simp: follows_iff)
    with Cons.IH [OF this _ Cons.prems(3)] Cons.prems(2) False show ?thesis by auto
  next
    case True
    with Cons.prems(1) obtain t where t: "decode_name m (rr_start r) = Ok (t, rr_end r)"
      and rest: "alias_pass m rs' (push_new t acc) (Some (min_ttl ttl (rr_ttl r)))
        (ch \<or> t \<notin> set acc) = Ok (acc', ttl', ch')"
      by (auto simp: follows_iff split: if_splits)
    have "chain_inv m rs q (push_new t acc) (Some (min_ttl ttl (rr_ttl r))) (insert r F)"
      using Cons.prems(2) by (intro chain_inv_follow [OF Cons.prems(3) _ True t]) simp
    from Cons.IH [OF rest _ this] Cons.prems(2) obtain F' where
      "chain_inv m rs q acc' ttl' F'" "insert r F \<subseteq> F'" "{r \<in> set rs'. follows (set (push_new t acc)) r} \<subseteq> F'"
      by auto
    then show ?thesis
      using follows_mono [of "set acc" _ "set (push_new t acc)"] by (intro exI [of _ F']) auto
  qed
qed

lemma alias_pass_sound:
  assumes "alias_pass m rs' acc ttl ch = Ok (acc', ttl', ch')" "set rs' \<subseteq> set rs"
    and "\<forall>n \<in> set acc. aliases m rs q n" "distinct acc"
  shows "set acc \<subseteq> set acc' \<and> distinct acc' \<and> (\<forall>n \<in> set acc'. aliases m rs q n)"
  using assms
proof (induction rs' arbitrary: acc ttl ch)
  case Nil
  then show ?case by simp
next
  case (Cons r rs')
  show ?case
  proof (cases "rr_class r \<noteq> CLASS_IN \<or> rr_type r \<noteq> TYPE_CNAME \<or> rr_owner r \<notin> set acc")
    case True
    with Cons show ?thesis by simp
  next
    case False
    with Cons.prems(1) obtain t where t: "decode_name m (rr_start r) = Ok (t, rr_end r)"
      and rest: "alias_pass m rs' (push_new t acc) (Some (min_ttl ttl (rr_ttl r)))
        (ch \<or> t \<notin> set acc) = Ok (acc', ttl', ch')"
      by (auto split: if_splits)
    have "cname_edge m rs (rr_owner r) t"
      using False t Cons.prems(2) by (auto simp: cname_edge_iff)
    then have "\<forall>n \<in> set (push_new t acc). aliases m rs q n"
      using False Cons.prems(3) by (auto intro: rtranclp.rtrancl_into_rtrancl)
    with Cons.IH [OF rest] Cons.prems(2,4) show ?thesis by simp
  qed
qed

lemma alias_pass_changed:
  "alias_pass m rs acc ttl ch = Ok (acc', ttl', ch') \<Longrightarrow> length acc \<le> length acc' \<and> (ch \<longrightarrow> ch') \<and>
    (ch' \<longrightarrow> ch \<or> length acc < length acc')"
proof (induction rs arbitrary: acc ttl ch)
  case Nil
  then show ?case by simp
next
  case (Cons r rs)
  show ?case
  proof (cases "rr_class r \<noteq> CLASS_IN \<or> rr_type r \<noteq> TYPE_CNAME \<or> rr_owner r \<notin> set acc")
    case True
    then have "alias_pass m rs acc ttl ch = Ok (acc', ttl', ch')" using Cons.prems by simp
    then show ?thesis by (rule Cons.IH)
  next
    case False
    with Cons.prems obtain t where
      "alias_pass m rs (push_new t acc) (Some (min_ttl ttl (rr_ttl r))) (ch \<or> t \<notin> set acc)
        = Ok (acc', ttl', ch')"
      by (auto split: if_splits)
    from Cons.IH [OF this] show ?thesis by (auto simp: push_new_def split: if_splits)
  qed
qed

lemma alias_pass_closed:
  "alias_pass m rs acc ttl ch = Ok (acc', ttl', False) \<Longrightarrow>
    acc' = acc \<and> (\<forall>a b. a \<in> set acc \<longrightarrow> cname_edge m rs a b \<longrightarrow> b \<in> set acc)"
proof (induction rs arbitrary: ttl ch)
  case Nil
  then show ?case by (simp add: cname_edge_iff)
next
  case (Cons r rs)
  show ?case
  proof (cases "rr_class r \<noteq> CLASS_IN \<or> rr_type r \<noteq> TYPE_CNAME \<or> rr_owner r \<notin> set acc")
    case True
    with Cons show ?thesis by (auto simp: cname_edge_iff)
  next
    case False
    with Cons.prems obtain t where t: "decode_name m (rr_start r) = Ok (t, rr_end r)"
      and rest: "alias_pass m rs (push_new t acc) (Some (min_ttl ttl (rr_ttl r)))
        (ch \<or> t \<notin> set acc) = Ok (acc', ttl', False)"
      by (auto split: if_splits)
    have "t \<in> set acc" using alias_pass_changed [OF rest] by auto
    then have "push_new t acc = acc" by (simp add: push_new_def)
    with Cons.IH [of _ "ch \<or> t \<notin> set acc"] rest \<open>t \<in> set acc\<close> t show ?thesis
      by (auto simp: cname_edge_iff)
  qed
qed

text \<open>After the loop the accepted names are aliases of the query, and all of them when few.\<close>

lemma alias_loop_sound:
  assumes "alias_loop n m rs acc ttl = Ok (acc', ttl')"
    and "\<forall>x \<in> set acc. aliases m rs q x" "distinct acc"
  shows "set acc \<subseteq> set acc' \<and> distinct acc' \<and> (\<forall>x \<in> set acc'. aliases m rs q x) \<and>
    (length acc' < length acc + n \<longrightarrow> (\<forall>a b. a \<in> set acc' \<longrightarrow> cname_edge m rs a b \<longrightarrow> b \<in> set acc'))"
  using assms
proof (induction n arbitrary: acc ttl)
  case 0
  then show ?case by simp
next
  case (Suc n)
  obtain acc1 ttl1 ch where pass: "alias_pass m rs acc ttl False = Ok (acc1, ttl1, ch)"
    using Suc.prems(1) by auto
  note sound = alias_pass_sound [OF pass order_refl Suc.prems(2,3)]
  show ?case
  proof (cases ch)
    case False
    with pass alias_pass_closed [of m rs acc ttl False acc1 ttl1] Suc.prems sound show ?thesis by auto
  next
    case True
    with pass Suc.prems(1) have rest: "alias_loop n m rs acc1 ttl1 = Ok (acc', ttl')"
      by (auto split: if_splits)
    have "length acc < length acc1" using alias_pass_changed [OF pass] True by simp
    then show ?thesis using Suc.IH [OF rest] sound by auto
  qed
qed

lemma alias_loop_chain:
  assumes "alias_loop n m rs acc ttl = Ok (acc', ttl')" "chain_inv m rs q acc ttl F"
  shows "\<exists>F'. chain_inv m rs q acc' ttl' F' \<and>
    (length acc' < length acc + n \<longrightarrow> F' = {r \<in> set rs. follows (set acc') r})"
  using assms
proof (induction n arbitrary: acc ttl F)
  case 0
  then show ?case by auto
next
  case (Suc n)
  obtain acc1 ttl1 ch where pass: "alias_pass m rs acc ttl False = Ok (acc1, ttl1, ch)"
    using Suc.prems(1) by auto
  obtain F1 where F1: "chain_inv m rs q acc1 ttl1 F1" "{r \<in> set rs. follows (set acc) r} \<subseteq> F1"
    using alias_pass_chain [OF pass order_refl Suc.prems(2)] by auto
  show ?case
  proof (cases ch)
    case False
    then have "acc1 = acc" "acc' = acc1" "ttl' = ttl1"
      using pass alias_pass_closed [of m rs acc ttl False acc1 ttl1] Suc.prems(1) by auto
    with F1 show ?thesis by (intro exI [of _ F1]) (auto simp: chain_inv_def)
  next
    case True
    with pass Suc.prems(1) have rest: "alias_loop n m rs acc1 ttl1 = Ok (acc', ttl')"
      by (auto split: if_splits)
    have "length acc < length acc1" using alias_pass_changed [OF pass] True by simp
    with Suc.IH [OF rest F1(1)] show ?thesis by auto
  qed
qed

lemma closed_contains_aliases:
  assumes "q \<in> N" "\<forall>a b. a \<in> N \<longrightarrow> cname_edge m rs a b \<longrightarrow> b \<in> N" "aliases m rs q x"
  shows "x \<in> N"
  using assms(3,1) by (induction rule: rtranclp_induct) (use assms(2) in auto)

lemma collect_addresses_spec:
  assumes "collect_addresses rt m acc rs as ttl = Ok (as', ttl')"
  shows "\<exists>xs. list_all2 (\<lambda>r a. record_address rt m r = Ok a) (filter (selects rt (set acc)) rs) xs \<and>
    as' = push_all_new xs as"
  using assms
proof (induction rs arbitrary: as ttl)
  case (Cons r rs)
  then show ?case
  proof (cases "selects rt (set acc) r")
    case True
    then obtain a where a: "record_address rt m r = Ok a"
      and rest: "collect_addresses rt m acc rs (push_new a as) (Some (min_ttl ttl (rr_ttl r))) = Ok (as', ttl')"
      using Cons.prems by (auto simp: selects_iff)
    from Cons.IH [OF rest] obtain xs where
      "list_all2 (\<lambda>r a. record_address rt m r = Ok a) (filter (selects rt (set acc)) rs) xs"
      "as' = push_all_new xs (push_new a as)" by blast
    with a True show ?thesis by (intro exI [of _ "a # xs"]) simp
  qed (auto simp: selects_iff)
qed simp

lemma collect_addresses_ttl:
  "collect_addresses rt m acc rs as (lowest_ttl F) = Ok (as', ttl') \<Longrightarrow> finite F \<Longrightarrow>
    ttl' = lowest_ttl (F \<union> set (filter (selects rt (set acc)) rs))"
proof (induction rs arbitrary: as F)
  case (Cons r rs)
  then show ?case
  proof (cases "selects rt (set acc) r")
    case True
    then obtain a where "collect_addresses rt m acc rs (push_new a as) (lowest_ttl (insert r F)) = Ok (as', ttl')"
      using Cons.prems by (auto simp: selects_iff lowest_ttl_insert)
    from Cons.IH [OF this] Cons.prems(2) True show ?thesis by simp
  qed (auto simp: selects_iff)
qed simp

fun of_family :: "address_record_type \<Rightarrow> ip_addr \<Rightarrow> bool" where
  "of_family A (V4 _) = True"
| "of_family Aaaa (V6 _) = True"
| "of_family _ _ = False"

lemma record_address_family: "record_address rt m r = Ok a \<Longrightarrow> of_family rt a"
  by (cases rt) (auto simp: record_address_def split: if_splits)

lemma list_all2_snd_mem: "list_all2 P xs ys \<Longrightarrow> y \<in> set ys \<Longrightarrow> \<exists>x \<in> set xs. P x y"
  by (induction rule: list_all2_induct) auto

lemma resolved_addresses_family:
  assumes "resolve_addresses_through_aliases q rt m rs = Ok ans"
  shows "a_addresses ans \<noteq> [] \<and> distinct (a_addresses ans) \<and>
     length (a_addresses ans) \<le> MAX_RESOLVED_ADDRESSES \<and> list_all (of_family rt) (a_addresses ans)"
proof -
  obtain acc cttl as ttl where col: "collect_addresses rt m acc rs [] cttl = Ok (as, ttl)"
    and ans: "dns_answer_new as ttl = Ok ans"
    using assms by (auto simp: resolve_addresses_through_aliases_def)
  obtain xs where xs: "list_all2 (\<lambda>r a. record_address rt m r = Ok a) (filter (selects rt (set acc)) rs) xs"
    "as = push_all_new xs []"
    using collect_addresses_spec [OF col] by (elim exE conjE) (rule that)
  have "\<forall>a \<in> set as. of_family rt a"
    using list_all2_snd_mem [OF xs(1)] record_address_family xs(2) by fastforce
  moreover have "as \<noteq> []" "a_addresses ans = deduplicate_bounded as"
    using ans by (auto simp: dns_answer_new_Ok_iff)
  ultimately show ?thesis
    using deduplicate_bounded_props [of as] by (auto simp: list_all_iff)
qed

section \<open>Properties\<close>

text \<open>
  Property C15: the address query of a canonical name is always encodable, and decoding the message
  at the question gives back the name and the offset after it, whatever follows in the message.
\<close>

theorem query_name_round_trip:
  assumes "dns_query_new s = Ok q"
  shows "\<exists>m. encode_address_query qid q rt = Ok m \<and>
    length m \<le> DNS_HEADER_BYTES + 259 \<and>
    read_u16 m 0 = Ok qid \<and>
    decode_name (m @ post) DNS_HEADER_BYTES = Ok (q_name q, length m - 4)"
proof -
  have n: "canonical (q_name q)"
    using assms fold_domain_idem by (auto simp: dns_query_new_Ok_iff canonical_iff)
  define hdr where "hdr = u16_to_be qid @ u16_to_be FLAG_RD @ u16_to_be 1 @ u16_to_be 0 @ u16_to_be 0 @ u16_to_be 0"
  have hdr: "length hdr = 12" by (simp add: hdr_def)
  let ?ls = "split_on (CHR ''.'') (q_name q)"
  have len: "length (q_name q) \<le> 253" using n valid_domain_length by (simp add: canonical_def)
  have enc: "encode_name (q_name q) hdr = Ok (hdr @ enc_name ?ls)"
    using n len hdr by (intro encode_name_canonical) (simp_all add: MAX_DNS_MESSAGE_BYTES_def)
  have encl: "length (enc_name ?ls) = length (q_name q) + 2"
    using length_join_with [of ?ls "CHR ''.''"]
    by (simp add: enc_name_def length_concat o_def sum_list_Suc)
  let ?m = "hdr @ enc_name ?ls @ u16_to_be (record_code rt) @ u16_to_be CLASS_IN"
  have "encode_address_query qid q rt = Ok ?m"
    using enc by (simp add: encode_address_query_def push_u16_def hdr_def)
  moreover have "decode_name (?m @ post) DNS_HEADER_BYTES = Ok (q_name q, length ?m - 4)"
    using decode_encoded_name [OF n, of hdr "u16_to_be (record_code rt) @ u16_to_be CLASS_IN @ post"] hdr
    by (simp add: DNS_HEADER_BYTES_def)
  moreover have "read_u16 ?m 0 = Ok qid"
    by (simp add: read_u16_def get_range_def hdr_def)
  moreover have "length ?m \<le> DNS_HEADER_BYTES + 259"
    using len hdr encl by (simp add: DNS_HEADER_BYTES_def)
  ultimately show ?thesis by blast
qed

theorem query_name_round_trip_witness:
  "\<exists>q m. dns_query_new ''Api.Example.'' = Ok q \<and> encode_address_query 0xbeef q Aaaa = Ok m \<and>
     decode_name (m @ [1, 2]) DNS_HEADER_BYTES = Ok (q_name q, length m - 4)"
proof -
  have "dns_query_new ''Api.Example.'' = Ok \<lparr>q_name = ''api.example''\<rparr>" by code_simp
  then show ?thesis using query_name_round_trip [where qid = "0xbeef" and rt = Aaaa and post = "[1, 2]"] by blast
qed

text \<open>
  Property C14: the addresses of an accepted answer are those of the class IN records of the
  requested type whose owner is an alias of the query name, in message order, without repetition
  and at most sixteen. The names are reached from the query by following CNAME records; they are all
  of its aliases, and all their CNAME records are followed, unless the bound of sixteen hops is
  reached. The answer's TTL is the lowest of the followed CNAME records and the address records used.
\<close>

theorem answers_follow_aliases:
  assumes "resolve_addresses_through_aliases q rt m rs = Ok ans"
  shows "\<exists>names followed xs. q_name q \<in> names \<and> names \<subseteq> {n. aliases m rs (q_name q) n} \<and>
    followed \<subseteq> {r \<in> set rs. follows names r} \<and>
    (\<forall>n \<in> names. n = q_name q \<or> (\<exists>r \<in> followed. decode_name m (rr_start r) = Ok (n, rr_end r))) \<and>
    (card names \<le> 16 \<longrightarrow>
      names = {n. aliases m rs (q_name q) n} \<and> followed = {r \<in> set rs. follows names r}) \<and>
    list_all2 (\<lambda>r a. record_address rt m r = Ok a) (filter (selects rt names) rs) xs \<and>
    a_addresses ans = take 16 (push_all_new xs []) \<and> xs \<noteq> [] \<and>
    a_ttl ans = Some (Min (rr_ttl ` (followed \<union> set (filter (selects rt names) rs))))"
proof -
  obtain acc cttl as ttl where loop: "alias_loop MAX_DNS_ALIAS_HOPS m rs [q_name q] None = Ok (acc, cttl)"
    and col: "collect_addresses rt m acc rs [] cttl = Ok (as, ttl)"
    and ans: "dns_answer_new as ttl = Ok ans"
    using assms by (auto simp: resolve_addresses_through_aliases_def)
  have l: "q_name q \<in> set acc" "distinct acc" "\<forall>x \<in> set acc. aliases m rs (q_name q) x"
    and closed: "length acc < 1 + MAX_DNS_ALIAS_HOPS \<Longrightarrow>
      \<forall>a b. a \<in> set acc \<longrightarrow> cname_edge m rs a b \<longrightarrow> b \<in> set acc"
    using alias_loop_sound [OF loop, of "q_name q"] by auto
  have few: "length acc < 1 + MAX_DNS_ALIAS_HOPS" if "card (set acc) \<le> 16"
    using that l(2) by (simp add: distinct_card MAX_DNS_ALIAS_HOPS_def)
  have all: "set acc = {n. aliases m rs (q_name q) n}" if "card (set acc) \<le> 16"
    using closed_contains_aliases [OF l(1) closed [OF few [OF that]]] l(3) by blast
  obtain F where F: "chain_inv m rs (q_name q) acc cttl F"
    "length acc < 1 + MAX_DNS_ALIAS_HOPS \<longrightarrow> F = {r \<in> set rs. follows (set acc) r}"
    using alias_loop_chain [OF loop, of "q_name q" "{}"] by (auto simp: chain_inv_def lowest_ttl_def)
  have "cttl = lowest_ttl F" using F(1) by (simp add: chain_inv_def)
  with collect_addresses_ttl [OF _ chain_inv_finite [OF F(1)]] col
  have ttl: "ttl = lowest_ttl (F \<union> set (filter (selects rt (set acc)) rs))" by blast
  obtain xs where xs: "list_all2 (\<lambda>r a. record_address rt m r = Ok a) (filter (selects rt (set acc)) rs) xs"
    "as = push_all_new xs []"
    using collect_addresses_spec [OF col] by blast
  have "as \<noteq> []" and ans': "a_addresses ans = deduplicate_bounded as" "a_ttl ans = ttl"
    using ans by (auto simp: dns_answer_new_Ok_iff)
  then have ne: "xs \<noteq> []" using xs(2) by auto
  then have "set (filter (selects rt (set acc)) rs) \<noteq> {}" using xs(1) by (metis list_all2_Nil set_empty)
  then have "a_ttl ans = Some (Min (rr_ttl ` (F \<union> set (filter (selects rt (set acc)) rs))))"
    unfolding ans'(2) ttl lowest_ttl_def by (simp del: set_filter)
  moreover have "a_addresses ans = take 16 (push_all_new xs [])"
    using ans'(1) xs(2) by (simp add: deduplicate_bounded_def push_all_new_distinct MAX_RESOLVED_ADDRESSES_def)
  ultimately show ?thesis
    using l(1,3) F few all xs(1) ne unfolding chain_inv_def
    by (intro exI [of _ "set acc"] exI [of _ F] exI [of _ xs]) auto
qed

definition sample_chain :: "resource_record list" where
  "sample_chain =
     [\<lparr>rr_owner = ''a'', rr_type = 5, rr_class = 1, rr_ttl = 30, rr_start = 0, rr_end = 3\<rparr>,
      \<lparr>rr_owner = ''b'', rr_type = 1, rr_class = 1, rr_ttl = 60, rr_start = 3, rr_end = 7\<rparr>]"

theorem answers_follow_aliases_witness:
  "\<exists>ans names followed. resolve_addresses_through_aliases \<lparr>q_name = ''a''\<rparr> A [1, 98, 0, 1, 2, 3, 4] sample_chain = Ok ans \<and>
    a_addresses ans = [V4 0x01020304] \<and> a_ttl ans = Some 30 \<and> ''a'' \<in> names \<and>
    Some 30 = Some (Min (rr_ttl ` (followed \<union> set (filter (selects A names) sample_chain))))"
proof -
  have r: "resolve_addresses_through_aliases \<lparr>q_name = ''a''\<rparr> A [1, 98, 0, 1, 2, 3, 4] sample_chain
      = Ok \<lparr>a_addresses = [V4 0x01020304], a_ttl = Some 30\<rparr>"
    by code_simp
  from answers_follow_aliases [OF r] show ?thesis unfolding r by auto
qed

text \<open>
  Property C13: a response is only accepted when it answers this query: same transaction id,
  response flag set, not truncated, no error code, the question repeated with the queried name,
  type and class; and then it carries between one and sixteen distinct addresses, all of the
  requested family.
\<close>

theorem accepted_response_matches_query:
  assumes "parse_address_response qid q rt m = Ok ans"
  shows "(DNS_HEADER_BYTES \<le> length m \<and> length m \<le> MAX_DNS_MESSAGE_BYTES \<and> read_u16 m 0 = Ok qid) \<and>
    (\<exists>flags. read_u16 m 2 = Ok flags \<and> flags AND FLAG_QR \<noteq> 0 \<and> flags AND FLAG_TC = 0 \<and>
       flags AND RCODE_MASK = 0) \<and>
    (\<exists>off. decode_name m DNS_HEADER_BYTES = Ok (q_name q, off) \<and>
       read_u16 m off = Ok (record_code rt) \<and> read_u16 m (off + 2) = Ok CLASS_IN) \<and>
    (a_addresses ans \<noteq> [] \<and> distinct (a_addresses ans) \<and>
     length (a_addresses ans) \<le> MAX_RESOLVED_ADDRESSES \<and>
     list_all (of_family rt) (a_addresses ans))"
proof -
  obtain cnt off rs where h: "check_header qid m = Ok cnt"
    and qu: "check_question q rt m DNS_HEADER_BYTES = Ok off"
    and res: "resolve_addresses_through_aliases q rt m rs = Ok ans"
    using assms by (auto simp: parse_address_response_def)
  have "DNS_HEADER_BYTES \<le> length m \<and> length m \<le> MAX_DNS_MESSAGE_BYTES \<and> read_u16 m 0 = Ok qid"
    "\<exists>flags. read_u16 m 2 = Ok flags \<and> flags AND FLAG_QR \<noteq> 0 \<and> flags AND FLAG_TC = 0 \<and>
       flags AND RCODE_MASK = 0"
    using h by (auto simp: check_header_def split: if_split_asm)
  moreover have "\<exists>off. decode_name m DNS_HEADER_BYTES = Ok (q_name q, off) \<and>
       read_u16 m off = Ok (record_code rt) \<and> read_u16 m (off + 2) = Ok CLASS_IN"
    using qu by (auto simp: check_question_def take_u16_def split: if_split_asm)
  moreover have "a_addresses ans \<noteq> [] \<and> distinct (a_addresses ans) \<and>
     length (a_addresses ans) \<le> MAX_RESOLVED_ADDRESSES \<and> list_all (of_family rt) (a_addresses ans)"
    using res by (rule resolved_addresses_family)
  ultimately show ?thesis by blast
qed

theorem accepted_response_matches_query_witness:
  "\<exists>ans. parse_address_response 1 \<lparr>q_name = ''a''\<rparr> A
      [0, 1, 0x81, 0x80, 0, 1, 0, 1, 0, 0, 0, 0, 1, 97, 0, 0, 1, 0, 1,
       0xc0, 12, 0, 1, 0, 1, 0, 0, 0, 60, 0, 4, 1, 2, 3, 4] = Ok ans \<and>
    a_addresses ans = [V4 0x01020304] \<and> list_all (of_family A) (a_addresses ans)"
proof -
  have "parse_address_response 1 \<lparr>q_name = ''a''\<rparr> A
      [0, 1, 0x81, 0x80, 0, 1, 0, 1, 0, 0, 0, 0, 1, 97, 0, 0, 1, 0, 1,
       0xc0, 12, 0, 1, 0, 1, 0, 0, 0, 60, 0, 4, 1, 2, 3, 4]
    = Ok \<lparr>a_addresses = [V4 0x01020304], a_ttl = Some 60000000000\<rparr>"
    by code_simp
  from accepted_response_matches_query [OF this] this show ?thesis by simp
qed

end
