(* ===== verification/Dns_Engine.thy ===== *)
theory Dns_Engine
  imports Dns_Wire
begin

text \<open>
  The bounded cache and the engine of \<open>crates/dns/src/lib.rs\<close>: hosts overrides, then the
  cache, then the resolvers in order. Instants are nanoseconds of the monotonic clock. A resolver
  is a parameter that runs in a world of its own type; the lock of the cache is never poisoned
  because a panic aborts the process.
\<close>

section \<open>The cache\<close>

type_synonym instant = nat

record cache_entry =
  en_addresses :: "ip_addr list"
  en_inserted :: instant
  en_expires :: instant

record dns_cache =
  c_entries :: "(str, cache_entry) hashmap"
  c_capacity :: nat
  c_max_ttl :: duration

definition cache_defaults :: dns_cache where
  "cache_defaults =
     \<lparr>c_entries = [], c_capacity = DEFAULT_CACHE_CAPACITY, c_max_ttl = DEFAULT_CACHE_TTL\<rparr>"

definition cache_new :: "nat \<Rightarrow> duration \<Rightarrow> (dns_cache, dns_error) result" where
  "cache_new capacity ttl =
     (if capacity = 0 \<or> ttl = 0 \<or> MAX_CACHE_TTL < ttl then Err (dns_error_new InvalidConfiguration)
      else Ok \<lparr>c_entries = [], c_capacity = capacity, c_max_ttl = ttl\<rparr>)"

definition cache_get :: "dns_cache \<Rightarrow> str \<Rightarrow> instant \<Rightarrow> ip_addr list option \<times> dns_cache" where
  "cache_get c name now =
     (if (case hm_get (c_entries c) name of None \<Rightarrow> False | Some e \<Rightarrow> en_expires e \<le> now)
      then (None, c\<lparr>c_entries := hm_remove name (c_entries c)\<rparr>)
      else (map_option en_addresses (hm_get (c_entries c) name), c))"

definition cache_evict :: "dns_cache \<Rightarrow> str \<Rightarrow> (str, cache_entry) hashmap \<Rightarrow> (str, cache_entry) hashmap" where
  "cache_evict c name es =
     (if \<not> hm_contains es name \<and> c_capacity c \<le> length es
      then (case hm_min_by_key en_inserted es of
              None \<Rightarrow> es
            | Some (oldest, _) \<Rightarrow> hm_remove oldest es)
      else es)"

definition effective_ttl :: "dns_cache \<Rightarrow> duration option \<Rightarrow> duration" where
  "effective_ttl c resolver_ttl =
     min (case resolver_ttl of None \<Rightarrow> c_max_ttl c | Some t \<Rightarrow> t) (c_max_ttl c)"

definition cache_insert ::
  "dns_cache \<Rightarrow> str \<Rightarrow> ip_addr list \<Rightarrow> duration option \<Rightarrow> instant \<Rightarrow> dns_cache" where
  "cache_insert c name addresses resolver_ttl now =
     (let ttl = effective_ttl c resolver_ttl
      in if ttl = 0 then c
         else
           let es = hm_retain (\<lambda>_ e. now < en_expires e) (c_entries c);
               es = cache_evict c name es
           in c\<lparr>c_entries := hm_insert name
                  \<lparr>en_addresses = addresses, en_inserted = now, en_expires = now + ttl\<rparr> es\<rparr>)"

section \<open>The engine\<close>

record dns_stats =
  hosts_hits :: u64
  cache_hits :: u64
  cache_misses :: u64
  resolver_failures :: u64

definition stats_default :: dns_stats where
  "stats_default = \<lparr>hosts_hits = 0, cache_hits = 0, cache_misses = 0, resolver_failures = 0\<rparr>"

type_synonym 'w resolver = "dns_query \<Rightarrow> 'w \<Rightarrow> (dns_answer, dns_error) result \<times> 'w"

record 'w dns_engine =
  e_hosts :: hosts_table
  e_cache :: dns_cache
  e_resolvers :: "'w resolver list"
  e_stats :: dns_stats

definition system_resolver :: "(str \<Rightarrow> 'w \<Rightarrow> socket_addr list option \<times> 'w) \<Rightarrow> 'w resolver" where
  "system_resolver lookup query w =
     (let (r, w') = lookup (q_name query) w in (system_resolve (\<lambda>_. r) query, w'))"

definition engine_system ::
  "(str \<Rightarrow> 'w \<Rightarrow> socket_addr list option \<times> 'w) \<Rightarrow> hosts_table \<Rightarrow> 'w dns_engine" where
  "engine_system lookup hosts =
     \<lparr>e_hosts = hosts, e_cache = cache_defaults, e_resolvers = [system_resolver lookup],
      e_stats = stats_default\<rparr>"

definition with_resolvers ::
  "hosts_table \<Rightarrow> 'w resolver list \<Rightarrow> nat \<Rightarrow> duration \<Rightarrow> ('w dns_engine, dns_error) result" where
  "with_resolvers hosts resolvers cache_capacity cache_ttl =
     (if resolvers = [] then Err (dns_error_new NoResolvers)
      else bindR (cache_new cache_capacity cache_ttl) (\<lambda>cache.
        Ok \<lparr>e_hosts = hosts, e_cache = cache, e_resolvers = resolvers, e_stats = stats_default\<rparr>))"

text \<open>
  The loop over the resolvers returns the answer to store, or the error of the last resolver
  tried, with the number of failures counted.
\<close>

fun resolver_loop ::
  "'w resolver list \<Rightarrow> dns_query \<Rightarrow> dns_error option \<Rightarrow> u64 \<Rightarrow> 'w
    \<Rightarrow> (ip_addr list \<times> duration option, dns_error option) result \<times> u64 \<times> 'w" where
  "resolver_loop [] query last_error failures w = (Err last_error, failures, w)"
| "resolver_loop (r # rs) query last_error failures w =
     (case r query w of
        (Ok answer, w') \<Rightarrow>
          let addresses = deduplicate_bounded (a_addresses answer)
          in if addresses = [] then resolver_loop rs query (Some (dns_error_new NoRecords)) failures w'
             else (Ok (addresses, a_ttl answer), failures, w')
      | (Err error, w') \<Rightarrow> resolver_loop rs query (Some error) (failures + 1) w')"

definition engine_resolve ::
  "'w dns_engine \<Rightarrow> str \<Rightarrow> instant \<Rightarrow> 'w
    \<Rightarrow> (ip_addr list, dns_error) result \<times> 'w dns_engine \<times> 'w" where
  "engine_resolve e name now w =
     (case dns_query_new name of
        Err error \<Rightarrow> (Err error, e, w)
      | Ok query \<Rightarrow>
        (case hosts_resolve (e_hosts e) (q_name query) of
           Some addresses \<Rightarrow>
             (Ok addresses, e\<lparr>e_stats := (e_stats e)\<lparr>hosts_hits := hosts_hits (e_stats e) + 1\<rparr>\<rparr>, w)
         | None \<Rightarrow>
           (case cache_get (e_cache e) (q_name query) now of
              (Some addresses, cache) \<Rightarrow>
                (Ok addresses,
                 e\<lparr>e_cache := cache, e_stats := (e_stats e)\<lparr>cache_hits := cache_hits (e_stats e) + 1\<rparr>\<rparr>, w)
            | (None, cache) \<Rightarrow>
                let stats = (e_stats e)\<lparr>cache_misses := cache_misses (e_stats e) + 1\<rparr>
                in case resolver_loop (e_resolvers e) query None (resolver_failures stats) w of
                     (Ok (addresses, ttl), failures, w') \<Rightarrow>
                       (Ok addresses,
                        e\<lparr>e_cache := cache_insert cache (q_name query) addresses ttl now,
                          e_stats := stats\<lparr>resolver_failures := failures\<rparr>\<rparr>, w')
                   | (Err last_error, failures, w') \<Rightarrow>
                       (Err (case last_error of None \<Rightarrow> dns_error_new NoRecords | Some x \<Rightarrow> x),
                        e\<lparr>e_cache := cache, e_stats := stats\<lparr>resolver_failures := failures\<rparr>\<rparr>, w'))))"

section \<open>The cache invariant\<close>

definition wf_entry :: "duration \<Rightarrow> cache_entry \<Rightarrow> bool" where
  "wf_entry max_ttl e \<longleftrightarrow>
     en_addresses e \<noteq> [] \<and> distinct (en_addresses e) \<and>
     length (en_addresses e) \<le> MAX_RESOLVED_ADDRESSES \<and>
     en_inserted e < en_expires e \<and> en_expires e \<le> en_inserted e + max_ttl"

definition wf_cache :: "dns_cache \<Rightarrow> bool" where
  "wf_cache c \<longleftrightarrow>
     wf_map (c_entries c) \<and> 0 < c_capacity c \<and> length (c_entries c) \<le> c_capacity c \<and>
     0 < c_max_ttl c \<and> c_max_ttl c \<le> MAX_CACHE_TTL \<and>
     (\<forall>(n, e) \<in> set (c_entries c). wf_entry (c_max_ttl c) e)"

text \<open>
  What threads do with the shared cache: each holds the lock for one \<open>get\<close> or one
  \<open>insert\<close>, at any instant and in any order; what is inserted went through
  \<open>deduplicate_bounded\<close> and is not empty. A run is the sequence of these events in the order of
  the lock.
\<close>

datatype cache_event =
    Looked_Up str instant
  | Inserted str "ip_addr list" "duration option" instant

inductive cache_run :: "dns_cache \<Rightarrow> cache_event list \<Rightarrow> dns_cache \<Rightarrow> bool" where
  run_start: "cache_run c [] c"
| run_get: "cache_run c0 es c \<Longrightarrow> cache_run c0 (es @ [Looked_Up name now]) (snd (cache_get c name now))"
| run_insert: "cache_run c0 es c \<Longrightarrow> as = deduplicate_bounded xs \<Longrightarrow> as \<noteq> [] \<Longrightarrow>
    cache_run c0 (es @ [Inserted name as ttl now]) (cache_insert c name as ttl now)"

text \<open>
  The specification of a lookup: the newest insertion for the name that had a lifetime, the
  resolver's TTL capped by the cache's.
\<close>

definition lifetime :: "duration \<Rightarrow> duration option \<Rightarrow> duration" where
  "lifetime max_ttl resolver_ttl = (case resolver_ttl of None \<Rightarrow> max_ttl | Some t \<Rightarrow> min t max_ttl)"

fun stores :: "duration \<Rightarrow> str \<Rightarrow> cache_event \<Rightarrow> bool" where
  "stores max_ttl n (Inserted m _ ttl _) \<longleftrightarrow> m = n \<and> lifetime max_ttl ttl \<noteq> 0"
| "stores max_ttl n (Looked_Up _ _) \<longleftrightarrow> False"

definition newest_insert :: "duration \<Rightarrow> cache_event list \<Rightarrow> str \<Rightarrow> cache_event option" where
  "newest_insert max_ttl es n = find (stores max_ttl n) (rev es)"

lemma newest_insert_snoc [simp]:
  "newest_insert max_ttl (es @ [ev]) n = (if stores max_ttl n ev then Some ev else newest_insert max_ttl es n)"
  by (simp add: newest_insert_def)

lemma effective_ttl_lifetime: "effective_ttl c ttl = lifetime (c_max_ttl c) ttl"
  by (simp add: effective_ttl_def lifetime_def split: option.splits)

lemma wf_cache_defaults: "wf_cache cache_defaults"
  by (simp add: wf_cache_def cache_defaults_def DEFAULT_CACHE_CAPACITY_def DEFAULT_CACHE_TTL_def
      MAX_CACHE_TTL_def from_secs_def)

lemma wf_cache_new: "cache_new cap ttl = Ok c \<Longrightarrow> wf_cache c"
  by (auto simp: cache_new_def wf_cache_def split: if_splits)

lemma wf_cache_get: "wf_cache c \<Longrightarrow> wf_cache (snd (cache_get c name now))"
  using length_hm_remove_le [of name "c_entries c"]
  by (auto simp: wf_cache_def cache_get_def hm_remove_set split: option.splits)

lemma cache_evict_subset: "set (cache_evict c name es) \<subseteq> set es"
  by (auto simp: cache_evict_def hm_remove_set split: option.splits prod.splits)

lemma wf_map_evict: "wf_map es \<Longrightarrow> wf_map (cache_evict c name es)"
  by (auto simp: cache_evict_def split: option.splits prod.splits)

lemma cache_evict_makes_room:
  assumes "wf_map es" "length es \<le> c_capacity c" "0 < c_capacity c"
  shows "length (hm_insert name e (cache_evict c name es)) \<le> c_capacity c"
proof (cases "\<not> hm_contains es name \<and> c_capacity c \<le> length es")
  case False
  then show ?thesis using assms by (auto simp: cache_evict_def length_hm_insert)
next
  case True
  then obtain k v where kv: "hm_min_by_key en_inserted es = Some (k, v)"
    using assms by (cases "hm_min_by_key en_inserted es") auto
  then have "(k, v) \<in> set es" using hm_min_by_key_least by fastforce
  then have "hm_contains es k"
    using hm_get_Some_mem [OF assms(1), of k v] by (simp add: hm_contains_def)
  then have "length (hm_remove k es) = length es - 1"
    using length_hm_remove [OF assms(1)] by simp
  then show ?thesis using True kv assms by (simp add: cache_evict_def length_hm_insert)
qed

lemma wf_cache_insert:
  assumes "wf_cache c" "as \<noteq> []" "distinct as" "length as \<le> MAX_RESOLVED_ADDRESSES"
  shows "wf_cache (cache_insert c name as ttl now)"
proof (cases "effective_ttl c ttl = 0")
  case True
  then show ?thesis using assms(1) by (simp add: cache_insert_def)
next
  case False
  define es where "es = hm_retain (\<lambda>_ e. now < en_expires e) (c_entries c)"
  define e where "e = \<lparr>en_addresses = as, en_inserted = now, en_expires = now + effective_ttl c ttl\<rparr>"
  define es' where "es' = hm_insert name e (cache_evict c name es)"
  have c': "cache_insert c name as ttl now = c\<lparr>c_entries := es'\<rparr>"
    using False by (simp add: cache_insert_def Let_def es_def e_def es'_def)
  have es: "wf_map es" "length es \<le> c_capacity c" "0 < c_capacity c"
    using assms(1) length_hm_retain_le [of "\<lambda>_ e. now < en_expires e" "c_entries c"]
    by (auto simp: wf_cache_def es_def)
  have sub: "set es' \<subseteq> insert (name, e) (set (c_entries c))"
    using cache_evict_subset [of c name es] wf_map_evict [OF es(1)]
    by (auto simp: es'_def hm_insert_set es_def hm_retain_set)
  have "wf_entry (c_max_ttl c) e"
    using assms False by (auto simp: wf_entry_def e_def effective_ttl_def)
  with sub assms(1) have "\<forall>(n, x) \<in> set es'. wf_entry (c_max_ttl c) x"
    by (auto simp: wf_cache_def)
  then show ?thesis
    using assms(1) wf_map_evict [OF es(1)] cache_evict_makes_room [OF es, of name e]
    by (simp add: c' wf_cache_def es'_def)
qed

lemma cache_config_kept [simp]:
  "c_capacity (snd (cache_get c n now)) = c_capacity c" "c_max_ttl (snd (cache_get c n now)) = c_max_ttl c"
  "c_capacity (cache_insert c n as ttl now) = c_capacity c" "c_max_ttl (cache_insert c n as ttl now) = c_max_ttl c"
  by (simp_all add: cache_get_def cache_insert_def Let_def)

lemma cache_run_wf:
  "cache_run c0 es c \<Longrightarrow> wf_cache c0 \<Longrightarrow>
    wf_cache c \<and> c_capacity c = c_capacity c0 \<and> c_max_ttl c = c_max_ttl c0"
  by (induction rule: cache_run.induct)
    (auto simp: wf_cache_get wf_cache_insert deduplicate_bounded_props)

lemma cache_get_hit:
  "hm_get (c_entries c) n = Some e \<Longrightarrow> now < en_expires e \<Longrightarrow> cache_get c n now = (Some (en_addresses e), c)"
  by (simp add: cache_get_def)

lemma cache_get_Some:
  "cache_get c n now = (Some as, c') \<Longrightarrow>
    c' = c \<and> (\<exists>e. hm_get (c_entries c) n = Some e \<and> now < en_expires e \<and> as = en_addresses e)"
  by (auto simp: cache_get_def split: if_splits option.splits)

lemma cache_get_None:
  "cache_get c n now = (None, c') \<Longrightarrow> hm_get (c_entries c') n = None"
  by (auto simp: cache_get_def split: if_splits option.splits)

lemma cache_insert_lookup:
  assumes "effective_ttl c ttl \<noteq> 0"
  shows "hm_get (c_entries (cache_insert c n as ttl now)) n =
    Some \<lparr>en_addresses = as, en_inserted = now, en_expires = now + effective_ttl c ttl\<rparr>"
  using assms by (simp add: cache_insert_def Let_def)

text \<open>Lookups and insertions bring no entry of another name, and an entry is the newest insertion.\<close>

lemma cache_get_entries:
  assumes "wf_cache c" "hm_get (c_entries (snd (cache_get c n now))) m = Some e"
  shows "hm_get (c_entries c) m = Some e"
  using assms by (auto simp: cache_get_def wf_cache_def hm_get_remove split: if_splits)

lemma cache_insert_entries:
  assumes "wf_cache c" "hm_get (c_entries (cache_insert c n as ttl now)) m = Some e"
  shows "if m = n \<and> effective_ttl c ttl \<noteq> 0
    then e = \<lparr>en_addresses = as, en_inserted = now, en_expires = now + effective_ttl c ttl\<rparr>
    else hm_get (c_entries c) m = Some e"
proof (cases "m = n \<or> effective_ttl c ttl = 0")
  case True
  then show ?thesis using assms by (cases "effective_ttl c ttl = 0") (auto simp: cache_insert_def Let_def)
next
  case False
  define es where "es = hm_retain (\<lambda>_ e. now < en_expires e) (c_entries c)"
  have wf: "wf_map (c_entries c)" "wf_map es" using assms(1) by (auto simp: wf_cache_def es_def)
  have "hm_get (cache_evict c n es) m = Some e"
    using assms(2) False by (simp add: cache_insert_def Let_def es_def)
  then have "(m, e) \<in> set es"
    using cache_evict_subset [of c n es] hm_get_Some_mem [OF wf_map_evict [OF wf(2)]] by blast
  then have "hm_get (c_entries c) m = Some e"
    using hm_get_Some_mem [OF wf(1)] by (auto simp: es_def hm_retain_set)
  then show ?thesis using False by simp
qed

lemma cache_run_newest:
  assumes "cache_run c0 es c" "wf_cache c0" "c_entries c0 = []" "hm_get (c_entries c) n = Some e"
  shows "\<exists>ttl. newest_insert (c_max_ttl c0) es n = Some (Inserted n (en_addresses e) ttl (en_inserted e)) \<and>
    en_expires e = en_inserted e + lifetime (c_max_ttl c0) ttl"
  using assms
proof (induction arbitrary: e rule: cache_run.induct)
  case (run_start c)
  then show ?case by simp
next
  case (run_get c0 es c name now)
  then show ?case using cache_get_entries [of c name now n e] cache_run_wf [OF run_get(1)] by simp
next
  case (run_insert c0 es c as xs name ttl now)
  note wf = cache_run_wf [OF run_insert(1,5)]
  from cache_insert_entries [OF conjunct1 [OF wf] run_insert(7)] show ?case
    using run_insert.IH [OF run_insert(5,6)] wf by (auto simp: effective_ttl_lifetime split: if_splits)
qed

section \<open>The contract of resolvers\<close>

text \<open>
  A resolver hands out answers that went through \<open>DnsAnswer::new\<close> (the fields are private).
  The engine relies on it: its own bound and emptiness checks then change nothing.
\<close>

locale resolver_provider =
  fixes resolve :: "'w resolver"
  assumes answer_built: "resolve q w = (Ok a, w') \<Longrightarrow> \<exists>as ttl. dns_answer_new as ttl = Ok a"
begin

lemma answer_bounds:
  assumes "resolve q w = (Ok a, w')"
  shows "a_addresses a \<noteq> [] \<and> distinct (a_addresses a) \<and> length (a_addresses a) \<le> MAX_RESOLVED_ADDRESSES"
  using answer_built [OF assms] deduplicate_bounded_props by (auto simp: dns_answer_new_Ok_iff)

lemma answer_kept: "resolve q w = (Ok a, w') \<Longrightarrow> deduplicate_bounded (a_addresses a) = a_addresses a"
  using answer_bounds deduplicate_bounded_id by blast

end

interpretation sys: resolver_provider "system_resolver lookup" for lookup
  by unfold_locales
    (auto simp: system_resolver_def system_resolve_def Let_def split: prod.splits if_splits)

text \<open>Resolvers that fail one after the other, and the world they leave.\<close>

fun all_fail :: "'w resolver list \<Rightarrow> dns_query \<Rightarrow> 'w \<Rightarrow> 'w \<Rightarrow> bool" where
  "all_fail [] q w w' = (w = w')"
| "all_fail (r # rs) q w w' = (case r q w of (Ok _, _) \<Rightarrow> False | (Err _, w1) \<Rightarrow> all_fail rs q w1 w')"

lemma resolver_loop_Ok:
  assumes "resolver_loop rs q le f w = (Ok (as, ttl), f', w')"
    and "\<forall>r \<in> set rs. resolver_provider r"
  shows "\<exists>pre r post w1 a. rs = pre @ r # post \<and> all_fail pre q w w1 \<and> r q w1 = (Ok a, w') \<and>
    as = a_addresses a \<and> ttl = a_ttl a \<and> f' = f + of_nat (length pre)"
  using assms
proof (induction rs arbitrary: le f w)
  case Nil
  then show ?case by simp
next
  case (Cons r rs)
  obtain res w1 where r: "r q w = (res, w1)" by (cases "r q w")
  show ?case
  proof (cases res)
    case (Ok a)
    with r Cons.prems(2) have "deduplicate_bounded (a_addresses a) = a_addresses a" "a_addresses a \<noteq> []"
      using resolver_provider.answer_kept resolver_provider.answer_bounds by fastforce+
    with Ok r Cons.prems(1) show ?thesis
      by (intro exI [of _ "[]"] exI [of _ r] exI [of _ rs] exI [of _ w] exI [of _ a]) simp
  next
    case (Err error)
    with r Cons.prems have "resolver_loop rs q (Some error) (f + 1) w1 = (Ok (as, ttl), f', w')" by simp
    from Cons.IH [OF this] Cons.prems(2) obtain pre r' post w2 a where
      "rs = pre @ r' # post" "all_fail pre q w1 w2" "r' q w2 = (Ok a, w')"
      "as = a_addresses a" "ttl = a_ttl a" "f' = f + 1 + of_nat (length pre)"
      by auto
    with r Err show ?thesis
      by (intro exI [of _ "r # pre"] exI [of _ r'] exI [of _ post] exI [of _ w2] exI [of _ a]) simp
  qed
qed

lemma resolver_loop_bounded:
  "resolver_loop rs q le f w = (Ok (as, ttl), f', w') \<Longrightarrow> \<exists>xs. as = deduplicate_bounded xs \<and> as \<noteq> []"
  by (induction rs arbitrary: le f w)
    (auto simp: Let_def simp del: deduplicate_bounded_eq_Nil split: prod.splits result.splits if_splits)

text \<open>What an engine does to the cache is a run, whatever the outcome.\<close>

lemma engine_resolve_cache_run:
  assumes "engine_resolve e name now w = (res, e', w')" "cache_run c0 es (e_cache e)"
  shows "\<exists>es'. cache_run c0 (es @ es') (e_cache e')"
proof (cases "dns_query_new name")
  case (Err x)
  with assms show ?thesis by (auto simp: engine_resolve_def intro: exI [of _ "[]"])
next
  case (Ok q)
  obtain r c1 where g: "cache_get (e_cache e) (q_name q) now = (r, c1)" by fastforce
  have s1: "cache_run c0 (es @ [Looked_Up (q_name q) now]) c1"
    using run_get [OF assms(2), of "q_name q" now] g by simp
  obtain lr f w1 where l: "resolver_loop (e_resolvers e) q None (resolver_failures (e_stats e)) w = (lr, f, w1)"
    by (cases "resolver_loop (e_resolvers e) q None (resolver_failures (e_stats e)) w") auto
  have s2: "cache_run c0 (es @ [Looked_Up (q_name q) now, Inserted (q_name q) as ttl now])
      (cache_insert c1 (q_name q) as ttl now)" if lr: "lr = Ok (as, ttl)" for as ttl
  proof -
    obtain xs where "as = deduplicate_bounded xs" "as \<noteq> []"
      using resolver_loop_bounded [OF l [unfolded lr]] by blast
    then show ?thesis using run_insert [OF s1] by simp
  qed
  have "e_cache e' = e_cache e \<or> e_cache e' = c1 \<or>
      (\<exists>as ttl. lr = Ok (as, ttl) \<and> e_cache e' = cache_insert c1 (q_name q) as ttl now)"
    using assms(1) Ok g l by (auto simp: engine_resolve_def Let_def split: option.splits result.splits)
  then show ?thesis using assms(2) s1 s2 append_Nil2 by metis
qed

section \<open>Properties\<close>

text \<open>
  Property C16: however threads interleave their lookups and insertions, the shared cache of a
  configured engine keeps its capacity, keeps every lifetime within the configured TTL and holds
  only non-empty, duplicate-free answers of at most sixteen addresses; and what a lookup returns is the
  newest insertion for the name, before its lifetime ends, so an answer is never stale, mixed up or
  returned after a newer one was stored.
\<close>

theorem cache_serves_newest_answer:
  assumes "cache_new cap ttl = Ok c0" "cache_run c0 es c"
  shows "length (c_entries c) \<le> cap \<and> distinct (map fst (c_entries c)) \<and>
    (\<forall>(n, e) \<in> set (c_entries c).
       en_expires e \<le> en_inserted e + ttl \<and> en_addresses e \<noteq> [] \<and> distinct (en_addresses e) \<and>
       length (en_addresses e) \<le> MAX_RESOLVED_ADDRESSES) \<and>
    (\<forall>n now as. fst (cache_get c n now) = Some as \<longrightarrow>
       (\<exists>rttl t. newest_insert ttl es n = Some (Inserted n as rttl t) \<and> now < t + lifetime ttl rttl))"
proof (intro conjI allI impI)
  have c0: "c_capacity c0 = cap" "c_max_ttl c0 = ttl" "c_entries c0 = []"
    using assms(1) by (auto simp: cache_new_def split: if_splits)
  note wf = wf_cache_new [OF assms(1)]
  note run = cache_run_wf [OF assms(2) wf]
  show "length (c_entries c) \<le> cap" "distinct (map fst (c_entries c))"
    "\<forall>(n, e) \<in> set (c_entries c). en_expires e \<le> en_inserted e + ttl \<and> en_addresses e \<noteq> [] \<and>
       distinct (en_addresses e) \<and> length (en_addresses e) \<le> MAX_RESOLVED_ADDRESSES"
    using run c0 by (fastforce simp: wf_cache_def wf_map_def wf_entry_def)+
  fix n now as assume "fst (cache_get c n now) = Some as"
  then obtain e where e: "hm_get (c_entries c) n = Some e" "now < en_expires e" "as = en_addresses e"
    using cache_get_Some [of c n now as "snd (cache_get c n now)"] by (metis prod.collapse)
  from cache_run_newest [OF assms(2) wf c0(3) e(1)] e(2,3) c0(2)
  show "\<exists>rttl t. newest_insert ttl es n = Some (Inserted n as rttl t) \<and> now < t + lifetime ttl rttl" by auto
qed

theorem cache_serves_newest_answer_witness:
  "\<exists>c0 c. cache_new 1 5 = Ok c0 \<and>
     cache_run c0 [Inserted ''a'' [V4 1] None 0, Inserted ''b'' [V4 2] None 1] c \<and>
     length (c_entries c) \<le> 1 \<and> fst (cache_get c ''b'' 4) = Some [V4 2] \<and>
     (\<exists>rttl t. newest_insert 5 [Inserted ''a'' [V4 1] None 0, Inserted ''b'' [V4 2] None 1] ''b'' =
       Some (Inserted ''b'' [V4 2] rttl t) \<and> 4 < t + lifetime 5 rttl)"
proof -
  let ?c0 = "\<lparr>c_entries = [], c_capacity = 1, c_max_ttl = 5\<rparr>"
  let ?c1 = "cache_insert ?c0 ''a'' [V4 1] None 0"
  let ?c2 = "cache_insert ?c1 ''b'' [V4 2] None 1"
  have new: "cache_new 1 5 = Ok ?c0" by code_simp
  have bounded: "[V4 1] = deduplicate_bounded [V4 1]" "[V4 2] = deduplicate_bounded [V4 2]" by code_simp+
  have "cache_run ?c0 ([] @ [Inserted ''a'' [V4 1] None 0]) ?c1"
    by (rule run_insert [OF run_start bounded(1)]) simp
  then have "cache_run ?c0 (([] @ [Inserted ''a'' [V4 1] None 0]) @ [Inserted ''b'' [V4 2] None 1]) ?c2"
    by (rule run_insert [OF _ bounded(2)]) simp
  then have steps: "cache_run ?c0 [Inserted ''a'' [V4 1] None 0, Inserted ''b'' [V4 2] None 1] ?c2" by simp
  have hit: "fst (cache_get ?c2 ''b'' 4) = Some [V4 2]" by code_simp
  with new steps cache_serves_newest_answer [OF new steps] show ?thesis by blast
qed

text \<open>
  An inserted answer is returned for exactly the instants before its lifetime ends,
  the lifetime being the resolver's TTL capped by the cache's; a zero lifetime is not stored and
  leaves the cache as it was.
\<close>

theorem cache_freshness_window:
  "if effective_ttl c ttl = 0 then cache_insert c n as ttl t = c
   else fst (cache_get (cache_insert c n as ttl t) n now) =
     (if now < t + effective_ttl c ttl then Some as else None)"
  using cache_insert_lookup [of c ttl n as t]
  by (cases "effective_ttl c ttl = 0") (simp_all add: cache_insert_def cache_get_def del: hm_get_insert)

text \<open>
  An insertion drops another entry only if it has expired, or if the cache is full of
  live entries and no live entry was inserted earlier than it.
\<close>

theorem insertion_evicts_only_oldest:
  assumes "wf_cache c" "n' \<noteq> n" "hm_get (c_entries c) n' = Some e"
    and "hm_get (c_entries (cache_insert c n as ttl now)) n' = None"
  shows "en_expires e \<le> now \<or>
    length (hm_retain (\<lambda>_ x. now < en_expires x) (c_entries c)) = c_capacity c \<and>
    (\<forall>m x. hm_get (c_entries c) m = Some x \<longrightarrow> now < en_expires x \<longrightarrow> en_inserted e \<le> en_inserted x)"
proof (cases "en_expires e \<le> now")
  case True
  then show ?thesis by simp
next
  case False
  define es where "es = hm_retain (\<lambda>_ x. now < en_expires x) (c_entries c)"
  have wf: "wf_map (c_entries c)" "wf_map es" "length es \<le> c_capacity c"
    using assms(1) length_hm_retain_le [of "\<lambda>_ x. now < en_expires x" "c_entries c"]
    by (auto simp: wf_cache_def es_def)
  have live: "hm_get es m = Some x" if "hm_get (c_entries c) m = Some x" "now < en_expires x" for m x
    using that by (simp add: es_def hm_get_retain [OF wf(1)])
  have n': "hm_get es n' = Some e" using live assms(3) False by simp
  have "effective_ttl c ttl \<noteq> 0"
    by (rule notI) (use assms(3,4) in \<open>simp add: cache_insert_def\<close>)
  then have "hm_get (cache_evict c n es) n' = None"
    using assms(2,4) by (simp add: cache_insert_def Let_def es_def)
  with n' obtain v where full: "c_capacity c \<le> length es"
    and least: "hm_min_by_key en_inserted es = Some (n', v)"
    by (auto simp: cache_evict_def split: if_splits option.splits prod.splits)
  have "v = e" using hm_min_by_key_least [OF least] hm_get_Some_mem [OF wf(2), of n' v] n' by simp
  have "\<forall>m x. hm_get (c_entries c) m = Some x \<longrightarrow> now < en_expires x \<longrightarrow> en_inserted e \<le> en_inserted x"
  proof (intro allI impI)
    fix m x assume "hm_get (c_entries c) m = Some x" "now < en_expires x"
    then have "(m, x) \<in> set es" using live hm_get_Some_mem [OF wf(2), of m x] by blast
    then show "en_inserted e \<le> en_inserted x"
      using hm_min_by_key_least [OF least] \<open>v = e\<close> by fastforce
  qed
  with full wf(3) show ?thesis by (simp add: es_def)
qed

theorem insertion_evicts_only_oldest_witness:
  "\<exists>c e. wf_cache c \<and> hm_get (c_entries c) ''a'' = Some e \<and>
     hm_get (c_entries (cache_insert c ''b'' [V4 2] None 1)) ''a'' = None \<and>
     (en_expires e \<le> 1 \<or>
      length (hm_retain (\<lambda>_ x. 1 < en_expires x) (c_entries c)) = c_capacity c \<and>
      (\<forall>m x. hm_get (c_entries c) m = Some x \<longrightarrow> 1 < en_expires x \<longrightarrow> en_inserted e \<le> en_inserted x))"
proof -
  let ?e = "\<lparr>en_addresses = [V4 1], en_inserted = 0, en_expires = 5\<rparr>"
  let ?c = "\<lparr>c_entries = [(''a'', ?e)], c_capacity = 1, c_max_ttl = 5\<rparr>"
  have "wf_cache ?c" by code_simp
  moreover have "hm_get (c_entries ?c) ''a'' = Some ?e" by code_simp
  moreover have "hm_get (c_entries (cache_insert ?c ''b'' [V4 2] None 1)) ''a'' = None" by code_simp
  moreover have "''a'' \<noteq> ''b''" by simp
  ultimately show ?thesis using insertion_evicts_only_oldest [of ?c "''a''" "''b''" ?e "[V4 2]" None 1] by blast
qed

text \<open>
  Property C17: the engine asks its resolvers in order and returns the first success unchanged,
  after every earlier resolver has failed; each failure is counted once and the world passes
  through the resolvers asked and no other. Resolvers obey the answer contract.
\<close>

theorem engine_falls_back_in_order:
  assumes "engine_resolve e name now w = (Ok as, e', w')"
    and "\<forall>r \<in> set (e_resolvers e). resolver_provider r"
    and "hosts_resolve (e_hosts e) (fold_domain name) = None"
    and "fst (cache_get (e_cache e) (fold_domain name) now) = None"
  shows "\<exists>pre r post w1 a. e_resolvers e = pre @ r # post \<and>
    all_fail pre \<lparr>q_name = fold_domain name\<rparr> w w1 \<and>
    r \<lparr>q_name = fold_domain name\<rparr> w1 = (Ok a, w') \<and> as = a_addresses a \<and>
    e_stats e' = (e_stats e)\<lparr>cache_misses := cache_misses (e_stats e) + 1,
      resolver_failures := resolver_failures (e_stats e) + of_nat (length pre)\<rparr>"
proof -
  let ?q = "\<lparr>q_name = fold_domain name\<rparr>"
  obtain c1 where g: "cache_get (e_cache e) (fold_domain name) now = (None, c1)"
    using assms(4) by (cases "cache_get (e_cache e) (fold_domain name) now") auto
  have "dns_query_new name = Ok ?q"
    using assms(1) by (cases "dns_query_new name") (auto simp: engine_resolve_def dns_query_new_Ok_iff)
  with assms(1,3) g obtain ttl f where
    l: "resolver_loop (e_resolvers e) ?q None (resolver_failures (e_stats e)) w = (Ok (as, ttl), f, w')"
    and s: "e_stats e' = (e_stats e)\<lparr>cache_misses := cache_misses (e_stats e) + 1, resolver_failures := f\<rparr>"
    by (auto simp: engine_resolve_def Let_def split: prod.splits result.splits)
  from resolver_loop_Ok [OF l assms(2)] s show ?thesis by blast
qed

text \<open>Two resolvers for the witnesses: one that always fails, the system's on a fixed lookup.\<close>

definition refusing :: "unit resolver" where
  "refusing q w = (Err (dns_error_new ResolverFailure), w)"

interpretation refusing: resolver_provider refusing
  by unfold_locales (simp add: refusing_def)

definition sample_engine :: "unit dns_engine" where
  "sample_engine =
     \<lparr>e_hosts = hosts_default, e_cache = cache_defaults,
      e_resolvers = [refusing, system_resolver (\<lambda>n w. (Some [SockV4 9 0], w))], e_stats = stats_default\<rparr>"

theorem engine_falls_back_in_order_witness:
  "\<exists>as e' pre r post w1 a. engine_resolve sample_engine ''Host.'' 0 () = (Ok as, e', ()) \<and>
     e_resolvers sample_engine = pre @ r # post \<and>
     all_fail pre \<lparr>q_name = fold_domain ''Host.''\<rparr> () w1 \<and>
     r \<lparr>q_name = fold_domain ''Host.''\<rparr> w1 = (Ok a, ()) \<and> as = a_addresses a"
proof -
  have "is_ok (fst (engine_resolve sample_engine ''Host.'' 0 ()))" by code_simp
  then obtain as e' where 1: "engine_resolve sample_engine ''Host.'' 0 () = (Ok as, e', ())"
    by (cases "engine_resolve sample_engine ''Host.'' 0 ()") (auto simp: is_ok_iff)
  have 2: "\<forall>r \<in> set (e_resolvers sample_engine). resolver_provider r"
    by (simp add: sample_engine_def refusing.resolver_provider_axioms sys.resolver_provider_axioms)
  have 3: "hosts_resolve (e_hosts sample_engine) (fold_domain ''Host.'') = None"
    and 4: "fst (cache_get (e_cache sample_engine) (fold_domain ''Host.'') 0) = None"
    by code_simp+
  from engine_falls_back_in_order [OF 1 2 3 4] 1 show ?thesis by blast
qed

text \<open>
  An answer that was stored is replayed. Asking again for the same name, in any
  letter case, before the entry expires returns the same addresses from the cache: no resolver
  runs, whatever state the world is in, and one cache hit is counted.
\<close>

theorem stored_answer_is_replayed:
  assumes "engine_resolve e name now w = (Ok as, e', w')"
    and "hosts_resolve (e_hosts e) (fold_domain name) = None"
    and "hm_get (c_entries (e_cache e')) (fold_domain name) = Some entry"
    and "now' < en_expires entry" "eq_ignore_ascii_case name' name"
  shows "engine_resolve e' name' now' v =
    (Ok as, e'\<lparr>e_stats := (e_stats e')\<lparr>cache_hits := cache_hits (e_stats e') + 1\<rparr>\<rparr>, v)"
proof -
  let ?q = "\<lparr>q_name = fold_domain name\<rparr>"
  have q: "dns_query_new name = Ok ?q"
    using assms(1) by (cases "dns_query_new name") (auto simp: engine_resolve_def dns_query_new_Ok_iff)
  then have q': "dns_query_new name' = Ok ?q"
    using dns_name.norm_case_insensitive [OF assms(5)] by (simp add: dns_query_new_def)
  obtain r c1 where g: "cache_get (e_cache e) (fold_domain name) now = (r, c1)" by fastforce
  have "e_hosts e' = e_hosts e \<and> as = en_addresses entry"
  proof (cases r)
    case (Some xs)
    then have "e_hosts e' = e_hosts e" "e_cache e' = e_cache e" "as = xs"
      using assms(1,2) q g cache_get_Some [of "e_cache e" "fold_domain name" now xs c1]
      by (auto simp: engine_resolve_def)
    then show ?thesis
      using assms(3) cache_get_Some [of "e_cache e" "fold_domain name" now xs c1] g Some by auto
  next
    case None
    obtain ttl f w1 where "e_hosts e' = e_hosts e"
      and c': "e_cache e' = cache_insert c1 (fold_domain name) as ttl now"
      using assms(1,2) q g None
      by (auto simp: engine_resolve_def Let_def split: prod.splits result.splits)
    moreover have "effective_ttl c1 ttl \<noteq> 0"
    proof
      assume "effective_ttl c1 ttl = 0"
      then have "e_cache e' = c1" using c' by (simp add: cache_insert_def)
      then show False using assms(3) cache_get_None g None by fastforce
    qed
    ultimately show ?thesis using cache_insert_lookup assms(3) by fastforce
  qed
  then show ?thesis
    using q' assms(2) cache_get_hit [OF assms(3,4)] by (simp add: engine_resolve_def)
qed

theorem stored_answer_is_replayed_witness:
  "\<exists>as e'. engine_resolve sample_engine ''host'' 0 () = (Ok as, e', ()) \<and>
     engine_resolve e' ''HOST'' 7 () =
       (Ok as, e'\<lparr>e_stats := (e_stats e')\<lparr>cache_hits := cache_hits (e_stats e') + 1\<rparr>\<rparr>, ())"
proof -
  have "(case engine_resolve sample_engine ''host'' 0 () of (res, e', _) \<Rightarrow> is_ok res \<and>
      (case hm_get (c_entries (e_cache e')) (fold_domain ''host'') of None \<Rightarrow> False | Some x \<Rightarrow> 7 < en_expires x))"
    by code_simp
  then obtain as e' entry where 1: "engine_resolve sample_engine ''host'' 0 () = (Ok as, e', ())"
    and 2: "hm_get (c_entries (e_cache e')) (fold_domain ''host'') = Some entry" "7 < en_expires entry"
    by (cases "engine_resolve sample_engine ''host'' 0 ()") (auto simp: is_ok_iff split: option.splits)
  have 3: "hosts_resolve (e_hosts sample_engine) (fold_domain ''host'') = None"
    and 4: "eq_ignore_ascii_case ''HOST'' ''host''" by code_simp+
  from stored_answer_is_replayed [OF 1 3 2 4] 1 show ?thesis by blast
qed

end
