(* ===== verification/Io_Stream.thy ===== *)
theory Io_Stream
  imports Commeatus_Prelude
begin

text \<open>
  Byte streams of \<open>std::io\<close> as the protocol handlers use them. What the peer sends is a list of
  segments: one \<open>read\<close> returns at most one segment, so every statement about a reader holds for
  every segmentation. After the segments comes the end of the stream, or an error. Writing appends
  to the output until a budget is used up, and fails from then on. A read that is
  interrupted is retried by the standard library and is not visible here. Of an \<open>io::Error\<close> only the
  \<open>ErrorKind\<close> is kept.
\<close>

section \<open>Definitions\<close>

datatype error_kind =
    NotFound
  | PermissionDenied
  | ConnectionRefused
  | ConnectionReset
  | ConnectionAborted
  | NotConnected
  | AddrInUse
  | AddrNotAvailable
  | BrokenPipe
  | AlreadyExists
  | WouldBlock
  | InvalidInput
  | InvalidData
  | TimedOut
  | WriteZero
  | Interrupted
  | UnsupportedKind
  | UnexpectedEof
  | HostUnreachable
  | OutOfMemory
  | QuotaExceeded
  | OtherKind

record stream =
  in_segs :: "bytes list"
  in_error :: "error_kind option"
  out_bytes :: bytes
  out_budget :: nat
  out_error :: error_kind

type_synonym 'a io = "stream \<Rightarrow> ('a, error_kind) result \<times> stream"

text \<open>The bytes still to come.\<close>

definition pending :: "stream \<Rightarrow> bytes" where
  "pending s = concat (in_segs s)"

fun read_segs :: "nat \<Rightarrow> bytes list \<Rightarrow> bytes \<times> bytes list" where
  "read_segs n [] = ([], [])"
| "read_segs n (seg # segs) =
     (if seg = [] then read_segs n segs
      else if length seg \<le> n then (seg, segs) else (take n seg, drop n seg # segs))"

definition read :: "nat \<Rightarrow> bytes io" where
  "read n s =
     (if n = 0 then (Ok [], s)
      else if pending s = [] then
        (case in_error s of None \<Rightarrow> (Ok [], s) | Some k \<Rightarrow> (Err k, s))
      else (let (bs, segs) = read_segs n (in_segs s) in (Ok bs, s\<lparr>in_segs := segs\<rparr>)))"

lemma read_segs_props:
  assumes "concat segs \<noteq> []" "0 < n"
  shows "fst (read_segs n segs) \<noteq> []" "length (fst (read_segs n segs)) \<le> n"
    "concat segs = fst (read_segs n segs) @ concat (snd (read_segs n segs))"
  using assms by (induction segs) (auto split: if_splits)

lemma read_Ok_nonempty:
  assumes "read n s = (Ok bs, s')" "bs \<noteq> []"
  shows "length bs \<le> n" "pending s = bs @ pending s'"
  using assms read_segs_props [of "in_segs s" n]
  by (auto simp: read_def pending_def split: if_splits prod.splits option.splits)

text \<open>\<open>read_exact\<close>: reads until the buffer is full; the end of the stream is \<open>UnexpectedEof\<close>.\<close>

function read_exact :: "nat \<Rightarrow> bytes io" where
  "read_exact n s =
     (if n = 0 then (Ok [], s)
      else (case read n s of
          (Err k, s') \<Rightarrow> (Err k, s')
        | (Ok bs, s') \<Rightarrow>
            if bs = [] then (Err UnexpectedEof, s')
            else (case read_exact (n - length bs) s' of
                    (Ok rest, s'') \<Rightarrow> (Ok (bs @ rest), s'')
                  | (Err k, s'') \<Rightarrow> (Err k, s''))))"
  by pat_completeness auto
termination
  by (relation "measure fst") auto

declare read_exact.simps [simp del]

definition write_all :: "bytes \<Rightarrow> unit io" where
  "write_all bs s =
     (if length bs \<le> out_budget s
      then (Ok (), s\<lparr>out_bytes := out_bytes s @ bs, out_budget := out_budget s - length bs\<rparr>)
      else (Err (out_error s),
            s\<lparr>out_bytes := out_bytes s @ take (out_budget s) bs, out_budget := 0\<rparr>))"

definition flush :: "unit io" where
  "flush s = (Ok (), s)"

text \<open>\<open>?\<close> on stream operations.\<close>

definition bindIO :: "'a io \<Rightarrow> ('a \<Rightarrow> 'b io) \<Rightarrow> 'b io" where
  "bindIO m f s = (case m s of (Ok x, s') \<Rightarrow> f x s' | (Err k, s') \<Rightarrow> (Err k, s'))"

definition returnIO :: "'a \<Rightarrow> 'a io" where
  "returnIO x s = (Ok x, s)"

definition failIO :: "error_kind \<Rightarrow> 'a io" where
  "failIO k s = (Err k, s)"

definition liftIO :: "('a, error_kind) result \<Rightarrow> 'a io" where
  "liftIO r s = (r, s)"

section \<open>Lemmas\<close>

declare bindIO_def [rust_defs] returnIO_def [rust_defs] failIO_def [rust_defs] liftIO_def [rust_defs]

lemma returnIO_apply [simp]: "returnIO x s = (Ok x, s)"
  by (simp add: returnIO_def)

lemma failIO_apply [simp]: "failIO k s = (Err k, s)"
  by (simp add: failIO_def)

lemma liftIO_apply [simp]: "liftIO r s = (r, s)"
  by (simp add: liftIO_def)

lemma flush_apply [simp]: "flush s = (Ok (), s)"
  by (simp add: flush_def)

lemma bindIO_Ok: "m s = (Ok x, s') \<Longrightarrow> bindIO m f s = f x s'"
  by (simp add: bindIO_def)

lemma bindIO_Err: "m s = (Err k, s') \<Longrightarrow> bindIO m f s = (Err k, s')"
  by (simp add: bindIO_def)

lemma bindIO_return [simp]: "bindIO (returnIO x) f = f x"
  by (simp add: fun_eq_iff bindIO_def)

lemma bindIO_eq_Ok:
  "bindIO m f s = (Ok y, s'') \<longleftrightarrow> (\<exists>x s'. m s = (Ok x, s') \<and> f x s' = (Ok y, s''))"
  by (auto simp: bindIO_def split: prod.splits result.splits)

text \<open>A stream that has the bytes, in whatever segments: the view the readers' laws are stated in.\<close>

lemma read_pending_Nil:
  "0 < n \<Longrightarrow> pending s = [] \<Longrightarrow>
    read n s = ((case in_error s of None \<Rightarrow> Ok [] | Some k \<Rightarrow> Err k), s)"
  by (auto simp: read_def split: option.splits)

lemma read_pending:
  assumes "0 < n" "pending s \<noteq> []"
  obtains bs segs where "read n s = (Ok bs, s\<lparr>in_segs := segs\<rparr>)" "bs \<noteq> []" "length bs \<le> n"
    "pending s = bs @ concat segs"
proof -
  obtain bs segs where r: "read_segs n (in_segs s) = (bs, segs)" by fastforce
  have "read n s = (Ok bs, s\<lparr>in_segs := segs\<rparr>)"
    using assms by (simp add: read_def r)
  then show thesis
    using that read_segs_props [of "in_segs s" n] assms by (simp add: r pending_def)
qed

lemma read_exact_enough:
  assumes "n \<le> length (pending s)"
  shows "\<exists>segs. read_exact n s = (Ok (take n (pending s)), s\<lparr>in_segs := segs\<rparr>) \<and>
    concat segs = drop n (pending s)"
  using assms
proof (induction n s rule: read_exact.induct)
  case (1 n s)
  show ?case
  proof (cases "n = 0")
    case True
    then show ?thesis
      by (subst read_exact.simps) (auto simp: pending_def intro!: exI [of _ "in_segs s"])
  next
    case False
    then have "pending s \<noteq> []" using "1.prems" by auto
    with False obtain bs segs where r: "read n s = (Ok bs, s\<lparr>in_segs := segs\<rparr>)" "bs \<noteq> []"
      "length bs \<le> n" "pending s = bs @ concat segs"
      using read_pending [of n s] by auto
    let ?s = "s\<lparr>in_segs := segs\<rparr>"
    have p: "pending ?s = concat segs" by (simp add: pending_def)
    have "n - length bs \<le> length (pending ?s)" using "1.prems" r(4) by (simp add: p)
    then obtain segs' where rest:
      "read_exact (n - length bs) ?s = (Ok (take (n - length bs) (concat segs)), ?s\<lparr>in_segs := segs'\<rparr>)"
      "concat segs' = drop (n - length bs) (concat segs)"
      using "1.IH" [OF False r(1) [symmetric] refl r(2)] p by auto
    show ?thesis
      using False r rest by (subst read_exact.simps) (auto intro!: exI [of _ segs'])
  qed
qed

lemma read_exact_short:
  assumes "length (pending s) < n"
  shows "\<exists>s'. read_exact n s = (Err (case in_error s of None \<Rightarrow> UnexpectedEof | Some k \<Rightarrow> k), s')"
  using assms
proof (induction n s rule: read_exact.induct)
  case (1 n s)
  have n: "n \<noteq> 0" using "1.prems" by auto
  show ?case
  proof (cases "pending s = []")
    case True
    with n show ?thesis
      by (subst read_exact.simps)
        (auto simp: read_pending_Nil split: option.splits error_kind.splits)
  next
    case False
    with n obtain bs segs where r: "read n s = (Ok bs, s\<lparr>in_segs := segs\<rparr>)" "bs \<noteq> []"
      "length bs \<le> n" "pending s = bs @ concat segs"
      using read_pending [of n s] by auto
    have "length (pending (s\<lparr>in_segs := segs\<rparr>)) < n - length bs"
      using "1.prems" r by (simp add: pending_def)
    from "1.IH" [OF n r(1) [symmetric] refl r(2) this]
    show ?thesis using n r by (subst read_exact.simps) auto
  qed
qed

text \<open>Success of \<open>read_exact\<close> in terms of the pending bytes only.\<close>

lemma read_exact_Ok:
  assumes "read_exact n s = (Ok bs, s')"
  shows "pending s = bs @ pending s'" "length bs = n" "out_bytes s' = out_bytes s"
    "in_error s' = in_error s"
proof -
  have n: "n \<le> length (pending s)"
    using assms read_exact_short [of s n] by (metis Pair_inject linorder_not_less result.distinct(1))
  obtain segs where "read_exact n s = (Ok (take n (pending s)), s\<lparr>in_segs := segs\<rparr>)"
    "concat segs = drop n (pending s)"
    using read_exact_enough [OF n] by blast
  with assms have "bs = take n (pending s)" "s' = s\<lparr>in_segs := segs\<rparr>" "concat segs = drop n (pending s)"
    by auto
  with n show "pending s = bs @ pending s'" "length bs = n" "out_bytes s' = out_bytes s"
    "in_error s' = in_error s"
    by (simp_all add: pending_def [of "s\<lparr>in_segs := segs\<rparr>"])
qed

lemma write_all_Ok:
  assumes "write_all bs s = (Ok u, s')"
  shows "out_bytes s' = out_bytes s @ bs" "pending s' = pending s" "in_error s' = in_error s"
  using assms by (auto simp: write_all_def pending_def split: if_splits)

lemma write_all_enough:
  "length bs \<le> out_budget s \<Longrightarrow>
    write_all bs s = (Ok (), s\<lparr>out_bytes := out_bytes s @ bs, out_budget := out_budget s - length bs\<rparr>)"
  by (simp add: write_all_def)

lemma pending_update [simp]:
  "pending (s\<lparr>out_bytes := b\<rparr>) = pending s"
  "pending (s\<lparr>out_budget := n\<rparr>) = pending s"
  "pending (s\<lparr>in_segs := segs\<rparr>) = concat segs"
  by (simp_all add: pending_def)

end
