(* ===== verification/Dot.thy ===== *)
theory Dot
  imports Dns_Engine Io_Stream
begin

text \<open>
  \<open>crates/dns/src/dot.rs\<close>: DNS over TLS. A persistent session carries length-prefixed
  messages; an exchange reconnects at most once and drops a session that failed. Connecting is a
  parameter that runs in the world of the resolver. The resolver meets the contract the engine
  relies on.
\<close>

section \<open>Definitions\<close>

definition DOT_LENGTH_BYTES :: nat where "DOT_LENGTH_BYTES = 2"
definition DOT_CONNECT_ATTEMPTS :: nat where "DOT_CONNECT_ATTEMPTS = 2"

type_synonym 'w connector = "'w \<Rightarrow> (stream, error_kind) result \<times> 'w"

record dot_state =
  dot_session :: "stream option"
  dot_next_id :: u16

definition dot_with_connector :: dot_state where
  "dot_with_connector = \<lparr>dot_session = None, dot_next_id = 1\<rparr>"

definition exchange_message :: "bytes \<Rightarrow> bytes io" where
  "exchange_message request =
     (if 65535 < length request then failIO InvalidInput
      else
        bindIO (write_all (u16_to_be (of_nat (length request)) @ request)) (\<lambda>_.
        bindIO flush (\<lambda>_.
        bindIO (read_exact DOT_LENGTH_BYTES) (\<lambda>len.
        let len = unat (u16_from_be len)
        in if len < DNS_HEADER_BYTES then failIO InvalidData else read_exact len))))"

fun exchange_loop ::
  "nat \<Rightarrow> 'w connector \<Rightarrow> bytes \<Rightarrow> stream option \<Rightarrow> 'w
    \<Rightarrow> (bytes, dns_error) result \<times> stream option \<times> 'w" where
  "exchange_loop 0 connect request session w = (Err (dns_error_new ResolverFailure), session, w)"
| "exchange_loop (Suc n) connect request session w =
     (case (case session of
              Some s \<Rightarrow> (Ok s, w)
            | None \<Rightarrow> connect w) of
        (Err _, w') \<Rightarrow> exchange_loop n connect request None w'
      | (Ok s, w') \<Rightarrow>
          (case exchange_message request s of
             (Ok response, s') \<Rightarrow> (Ok response, Some s', w')
           | (Err _, s') \<Rightarrow> exchange_loop n connect request None w'))"

definition exchange ::
  "'w connector \<Rightarrow> bytes \<Rightarrow> stream option \<Rightarrow> 'w \<Rightarrow> (bytes, dns_error) result \<times> stream option \<times> 'w" where
  "exchange connect request session w = exchange_loop DOT_CONNECT_ATTEMPTS connect request session w"

definition resolve_family ::
  "'w connector \<Rightarrow> dns_query \<Rightarrow> address_record_type \<Rightarrow> dot_state \<Rightarrow> 'w
    \<Rightarrow> (dns_answer, dns_error) result \<times> dot_state \<times> 'w" where
  "resolve_family connect query record_type st w =
     (let qid = dot_next_id st;
          st = st\<lparr>dot_next_id := qid + 1\<rparr>
      in case encode_address_query qid query record_type of
           Err e \<Rightarrow> (Err e, st, w)
         | Ok request \<Rightarrow>
             (case exchange connect request (dot_session st) w of
                (Err e, session, w') \<Rightarrow> (Err e, st\<lparr>dot_session := session\<rparr>, w')
              | (Ok response, session, w') \<Rightarrow>
                  (case parse_address_response qid query record_type response of
                     Ok answer \<Rightarrow> (Ok answer, st\<lparr>dot_session := session\<rparr>, w')
                   | Err error \<Rightarrow>
                       (Err error,
                        st\<lparr>dot_session := (if de_kind error = InvalidResponse then None else session)\<rparr>,
                        w'))))"

fun family_loop ::
  "address_record_type list \<Rightarrow> 'w connector \<Rightarrow> dns_query \<Rightarrow> ip_addr list \<Rightarrow> duration option
    \<Rightarrow> dns_error option \<Rightarrow> dot_state \<Rightarrow> 'w
    \<Rightarrow> ip_addr list \<times> duration option \<times> dns_error option \<times> dot_state \<times> 'w" where
  "family_loop [] connect query addresses ttl last_error st w = (addresses, ttl, last_error, st, w)"
| "family_loop (rt # rts) connect query addresses ttl last_error st w =
     (case resolve_family connect query rt st w of
        (Ok answer, st', w') \<Rightarrow>
          family_loop rts connect query (push_all_new (a_addresses answer) addresses)
            (case a_ttl answer of
               None \<Rightarrow> ttl
             | Some answer_ttl \<Rightarrow>
                 Some (case ttl of None \<Rightarrow> answer_ttl | Some current \<Rightarrow> min current answer_ttl))
            last_error st' w'
      | (Err error, st', w') \<Rightarrow> family_loop rts connect query addresses ttl (Some error) st' w')"

definition dot_resolve :: "'w connector \<Rightarrow> (dot_state \<times> 'w) resolver" where
  "dot_resolve connect query sw =
     (case family_loop [A, Aaaa] connect query [] None None (fst sw) (snd sw) of
        (addresses, ttl, last_error, st, w) \<Rightarrow>
          (if addresses = []
           then Err (case last_error of None \<Rightarrow> dns_error_new NoRecords | Some e \<Rightarrow> e)
           else dns_answer_new addresses ttl,
           (st, w)))"

section \<open>The resolver contract\<close>

interpretation dot: resolver_provider "dot_resolve connect" for connect
  by unfold_locales (auto simp: dot_resolve_def split: prod.splits if_splits)

section \<open>Framing\<close>

lemma unat_u16_from_be: "length bs = 2 \<Longrightarrow> unat (u16_from_be bs) = nat_of_be bs"
  using nat_of_be_less [of bs] by (simp add: u16_from_be_def unat_of_nat)

lemma exchange_message_Ok:
  assumes "exchange_message request s = (Ok response, s')"
  shows "out_bytes s' = out_bytes s @ u16_to_be (of_nat (length request)) @ request"
    and "\<exists>len. length len = 2 \<and> nat_of_be len = length response \<and>
      pending s = len @ response @ pending s'"
    and "DNS_HEADER_BYTES \<le> length response \<and> length request \<le> 65535"
proof -
  obtain s1 len s2 where w: "write_all (u16_to_be (of_nat (length request)) @ request) s = (Ok (), s1)"
    and l: "read_exact 2 s1 = (Ok len, s2)"
    and r: "read_exact (unat (u16_from_be len)) s2 = (Ok response, s')"
    and h: "\<not> unat (u16_from_be len) < DNS_HEADER_BYTES" "\<not> 65535 < length request"
    using assms
    by (auto simp: exchange_message_def bindIO_eq_Ok DOT_LENGTH_BYTES_def Let_def split: if_split_asm)
  note w = write_all_Ok [OF w] and l = read_exact_Ok [OF l] and r = read_exact_Ok [OF r]
  show "out_bytes s' = out_bytes s @ u16_to_be (of_nat (length request)) @ request"
    using w l r by simp
  show "\<exists>len. length len = 2 \<and> nat_of_be len = length response \<and> pending s = len @ response @ pending s'"
    using w l r by (intro exI [of _ len]) (simp add: unat_u16_from_be)
  show "DNS_HEADER_BYTES \<le> length response \<and> length request \<le> 65535"
    using h r by simp
qed

lemma exchange_message_served:
  assumes "length request \<le> 65535" "length request + 2 \<le> out_budget s"
    and "DNS_HEADER_BYTES \<le> length response" "length response \<le> 65535"
    and "pending s = u16_to_be (of_nat (length response)) @ response @ rest"
  shows "\<exists>s'. exchange_message request s = (Ok response, s') \<and> pending s' = rest"
proof -
  let ?f = "u16_to_be (of_nat (length request)) @ request"
  let ?s1 = "s\<lparr>out_bytes := out_bytes s @ ?f, out_budget := out_budget s - length ?f\<rparr>"
  have w: "write_all ?f s = (Ok (), ?s1)"
    using assms(2) by (intro write_all_enough) simp
  obtain segs where l: "read_exact 2 ?s1 = (Ok (u16_to_be (of_nat (length response))), ?s1\<lparr>in_segs := segs\<rparr>)"
    and segs: "concat segs = response @ rest"
    using read_exact_enough [of 2 ?s1] assms(5) by auto
  have n: "unat (of_nat (length response) :: u16) = length response"
    using assms(4) by (simp add: unat_of_nat)
  obtain segs' where r: "read_exact (length response) (?s1\<lparr>in_segs := segs\<rparr>) =
      (Ok response, ?s1\<lparr>in_segs := segs, in_segs := segs'\<rparr>)" and segs': "concat segs' = rest"
    using read_exact_enough [of "length response" "?s1\<lparr>in_segs := segs\<rparr>"] segs by auto
  have "exchange_message request s = (Ok response, ?s1\<lparr>in_segs := segs, in_segs := segs'\<rparr>)"
    using assms(1,3) w l r n
    by (simp add: exchange_message_def bindIO_def DOT_LENGTH_BYTES_def)
  with segs' show ?thesis by auto
qed

section \<open>Sessions\<close>

lemma exchange_cases:
  assumes "exchange connect request session w = (res, session', w')"
  shows "case res of
      Ok response \<Rightarrow> \<exists>s s'. session' = Some s' \<and> exchange_message request s = (Ok response, s') \<and>
        (session = Some s \<or> (\<exists>v v'. connect v = (Ok s, v')))
    | Err e \<Rightarrow> session' = None \<and> de_kind e = ResolverFailure"
  using assms
  by (auto simp: exchange_def DOT_CONNECT_ATTEMPTS_def numeral_2_eq_2 dns_error_new_def
      split: prod.splits result.splits option.splits)

lemma resolve_family_Ok:
  assumes "resolve_family connect q rt st w = (Ok ans, st', w')"
  shows "\<exists>m. parse_address_response (dot_next_id st) q rt m = Ok ans"
  using assms
  by (auto simp: resolve_family_def Let_def split: prod.splits result.splits)

lemma resolve_family_family:
  assumes "resolve_family connect q rt st w = (Ok ans, st', w')"
  shows "a_addresses ans \<noteq> [] \<and> distinct (a_addresses ans) \<and> list_all (of_family rt) (a_addresses ans)"
  using resolve_family_Ok [OF assms] resolved_addresses_family
  by (fastforce simp: parse_address_response_def)

lemma families_disjoint: "of_family A x \<Longrightarrow> \<not> of_family Aaaa x"
  by (cases x) auto

section \<open>Properties\<close>

text \<open>
  Property C19: an exchange that succeeds wrote exactly the two length octets and the request on the
  session it keeps, consumed exactly one frame of what the peer sent, and returns that frame's
  payload, which holds at least a header; that session is the one it was given or a new one. An
  exchange that fails keeps no session.
\<close>

theorem dot_exchange_frames_one_message:
  assumes "exchange connect request session w = (res, session', w')"
  shows "case res of
      Err e \<Rightarrow> session' = None \<and> de_kind e = ResolverFailure
    | Ok response \<Rightarrow> DNS_HEADER_BYTES \<le> length response \<and>
        (\<exists>s s' len. session' = Some s' \<and> (session = Some s \<or> (\<exists>v v'. connect v = (Ok s, v'))) \<and>
          out_bytes s' = out_bytes s @ u16_to_be (of_nat (length request)) @ request \<and>
          length len = 2 \<and> nat_of_be len = length response \<and>
          pending s = len @ response @ pending s')"
proof (cases res)
  case (Err e)
  then show ?thesis using exchange_cases [OF assms] by simp
next
  case (Ok response)
  then obtain s s' where s: "session' = Some s'" "exchange_message request s = (Ok response, s')"
    "session = Some s \<or> (\<exists>v v'. connect v = (Ok s, v'))"
    using exchange_cases [OF assms] by auto
  then show ?thesis using exchange_message_Ok [OF s(2)] Ok by auto
qed

definition sample_session :: "bytes list \<Rightarrow> stream" where
  "sample_session segs =
     \<lparr>in_segs = segs, in_error = None, out_bytes = [], out_budget = 512, out_error = BrokenPipe\<rparr>"

theorem dot_exchange_frames_one_message_witness:
  "\<exists>s'. exchange (\<lambda>w. (Err ConnectionRefused, w)) [7]
      (Some (sample_session [[0], [13, 1, 2, 3, 4, 5, 6, 7], [8, 9, 10, 11, 12, 13]])) ()
    = (Ok [1, 2, 3, 4, 5, 6, 7, 8, 9, 10, 11, 12, 13], Some s', ()) \<and>
    out_bytes s' = [0, 1, 7]"
proof -
  let ?s = "sample_session [[0], [13, 1, 2, 3, 4, 5, 6, 7], [8, 9, 10, 11, 12, 13]]"
  let ?c = "\<lambda>w::unit. (Err ConnectionRefused :: (stream, error_kind) result, w)"
  have e: "exchange ?c [7] (Some ?s) ()
      = (Ok [1, 2, 3, 4, 5, 6, 7, 8, 9, 10, 11, 12, 13],
         Some (snd (exchange_message [7] ?s)), ())"
    by code_simp
  from dot_exchange_frames_one_message [OF this]
  have "out_bytes (snd (exchange_message [7] ?s)) = [] @ u16_to_be (of_nat 1) @ [7]"
    by (auto simp: sample_session_def)
  moreover have "u16_to_be (of_nat 1) = [0, 1]" by code_simp
  ultimately show ?thesis using e by simp
qed

text \<open>
  A DNS-over-TLS lookup asks for A and then AAAA records under consecutive
  transaction ids and merges what succeeds: IPv4 addresses first, at most sixteen, and the shorter
  of the known TTLs. It fails only if both families fail, with the error of the AAAA query.
\<close>

theorem dot_merges_families:
  assumes "resolve_family connect q A st w = (ra, st1, w1)"
    and "resolve_family connect q Aaaa st1 w1 = (rb, st2, w2)"
  shows "dot_next_id st1 = dot_next_id st + 1 \<and> dot_next_id st2 = dot_next_id st + 2 \<and>
    dot_resolve connect q (st, w) =
      ((case (ra, rb) of
          (Err _, Err e) \<Rightarrow> Err e
        | (Ok a, Err _) \<Rightarrow> dns_answer_new (a_addresses a) (a_ttl a)
        | (Err _, Ok b) \<Rightarrow> dns_answer_new (a_addresses b) (a_ttl b)
        | (Ok a, Ok b) \<Rightarrow> dns_answer_new (a_addresses a @ a_addresses b)
            (case (a_ttl a, a_ttl b) of
               (Some x, Some y) \<Rightarrow> Some (min x y) | (Some x, None) \<Rightarrow> Some x | (None, y) \<Rightarrow> y)),
       (st2, w2))"
proof -
  have ids: "dot_next_id st' = dot_next_id s + 1" if "resolve_family connect q rt s v = (r, st', v')"
    for rt s v r st' v'
    using that by (auto simp: resolve_family_def Let_def split: prod.splits result.splits)
  have 1: "push_all_new (a_addresses a) [] = a_addresses a" if "ra = Ok a" for a
    using that assms(1) resolve_family_family by (fastforce intro!: push_all_new_distinct [where ys = "[]", simplified])
  have 2: "push_all_new (a_addresses b) [] = a_addresses b" if "rb = Ok b" for b
    using that assms(2) resolve_family_family by (fastforce intro!: push_all_new_distinct [where ys = "[]", simplified])
  have 3: "push_all_new (a_addresses b) (a_addresses a) = a_addresses a @ a_addresses b"
    if "ra = Ok a" "rb = Ok b" for a b
    using that assms resolve_family_family [of connect q A st w a] resolve_family_family [of connect q Aaaa st1 w1 b]
      families_disjoint by (intro push_all_new_distinct) (auto simp: list_all_iff)
  have 4: "a_addresses a \<noteq> []" if "ra = Ok a" for a
    using that assms(1) resolve_family_family by fastforce
  have 5: "a_addresses b \<noteq> []" if "rb = Ok b" for b
    using that assms(2) resolve_family_family by fastforce
  show ?thesis
    using ids [OF assms(1)] ids [OF assms(2)] assms 1 2 3 4 5
    by (cases ra; cases rb) (auto simp: dot_resolve_def split: option.splits)
qed

theorem dot_merges_families_witness:
  "\<exists>ra st1 rb st2. resolve_family (\<lambda>w. (Err ConnectionRefused, w)) \<lparr>q_name = ''a''\<rparr> A dot_with_connector () = (ra, st1, ()) \<and>
     resolve_family (\<lambda>w. (Err ConnectionRefused, w)) \<lparr>q_name = ''a''\<rparr> Aaaa st1 () = (rb, st2, ()) \<and>
     dot_next_id st2 = 3 \<and>
     dot_resolve (\<lambda>w. (Err ConnectionRefused, w)) \<lparr>q_name = ''a''\<rparr> (dot_with_connector, ()) =
       (Err (dns_error_new ResolverFailure), (st2, ()))"
proof -
  let ?e = "Err (dns_error_new ResolverFailure) :: (dns_answer, dns_error) result"
  let ?st = "\<lambda>n. \<lparr>dot_session = None, dot_next_id = n\<rparr>"
  have 1: "resolve_family (\<lambda>w. (Err ConnectionRefused, w)) \<lparr>q_name = ''a''\<rparr> A dot_with_connector ()
      = (?e, ?st 2, ())"
    and 2: "resolve_family (\<lambda>w. (Err ConnectionRefused, w)) \<lparr>q_name = ''a''\<rparr> Aaaa (?st 2) () = (?e, ?st 3, ())"
    by code_simp+
  from dot_merges_families [OF 1 2] 1 2 show ?thesis by simp
qed

end
