(* ===== verification/Proxy.thy ===== *)
theory Proxy
  imports Policy Dns_Engine Io_Stream
begin

text \<open>
  \<open>crates/daemon/src/proxy.rs\<close>: targets, the flow each request becomes, its plan, and direct
  connections over the resolved addresses within one deadline. The clock, the connect call and the
  socket option are parameters in \<open>net_os\<close>; the flow counter is threaded. The theory also holds
  the address format SOCKS5 and Trojan share, with the contract of the encoders that produce it.
\<close>

section \<open>Definitions\<close>

definition CONNECT_TIMEOUT :: duration where
  "CONNECT_TIMEOUT = from_secs 10"

record target =
  t_host :: destination_host
  t_port :: u16

definition target_new :: "destination_host \<Rightarrow> u16 \<Rightarrow> (target, error_kind) result" where
  "target_new host port = (if port = 0 then Err InvalidInput else Ok \<lparr>t_host = host, t_port = port\<rparr>)"

text \<open>\<open>NEXT_FLOW_ID.fetch_add(1)\<close> returns the old value and wraps.\<close>

definition target_flow :: "target \<Rightarrow> transport_protocol \<Rightarrow> u64 \<Rightarrow> flow_context \<times> u64" where
  "target_flow t transport next_flow_id =
     (flow_new (flow_id_new next_flow_id) source_default
        \<lparr>d_host = t_host t, d_port = t_port t\<rparr> transport network_default,
      next_flow_id + 1)"

definition plan_action ::
  "runtime \<Rightarrow> target \<Rightarrow> transport_protocol \<Rightarrow> u64 \<Rightarrow> execution_action \<times> u64" where
  "plan_action rt t transport next_flow_id =
     (let (flow, next_flow_id) = target_flow t transport next_flow_id
      in (p_action (plan rt flow), next_flow_id))"

record 'w net_os =
  os_now :: "'w \<Rightarrow> instant"
  os_connect :: "socket_addr \<Rightarrow> duration \<Rightarrow> 'w \<Rightarrow> (stream, error_kind) result \<times> 'w"
  os_set_nodelay :: "stream \<Rightarrow> 'w \<Rightarrow> (unit, error_kind) result"

text \<open>Options of sockets, set one after the other until one fails.\<close>

datatype socket_option =
    SetNodelay bool | SetReadTimeout "duration option" | SetWriteTimeout "duration option" | SetNonblocking bool

fun set_options ::
  "('s \<Rightarrow> socket_option \<Rightarrow> 'w \<Rightarrow> (unit, error_kind) result \<times> 'w) \<Rightarrow> ('s \<times> socket_option) list \<Rightarrow> 'w
    \<Rightarrow> (unit, error_kind) result \<times> 'w" where
  "set_options setopt [] w = (Ok (), w)"
| "set_options setopt ((socket, opt) # opts) w =
     (case setopt socket opt w of
        (Err k, w) \<Rightarrow> (Err k, w)
      | (Ok _, w) \<Rightarrow> set_options setopt opts w)"

definition resolve_target ::
  "'w net_os \<Rightarrow> target \<Rightarrow> 'w dns_engine \<Rightarrow> 'w
    \<Rightarrow> (socket_addr list, error_kind) result \<times> 'w dns_engine \<times> 'w" where
  "resolve_target os t dns w =
     (let (addresses, dns', w') =
        (case t_host t of
           HDomain domain \<Rightarrow>
             (case engine_resolve dns domain (os_now os w) w of
                (Err _, dns', w') \<Rightarrow> (Err AddrNotAvailable, dns', w')
              | (Ok as, dns', w') \<Rightarrow> (Ok (map (\<lambda>a. socket_addr_new a (t_port t)) as), dns', w'))
         | HIp address \<Rightarrow> (Ok [socket_addr_new address (t_port t)], dns, w))
      in (bindR addresses (\<lambda>as. if as = [] then Err AddrNotAvailable else Ok as), dns', w'))"

fun connect_loop ::
  "'w net_os \<Rightarrow> instant \<Rightarrow> socket_addr list \<Rightarrow> error_kind option \<Rightarrow> 'w
    \<Rightarrow> (stream, error_kind) result \<times> 'w" where
  "connect_loop os deadline [] last_error w =
     (Err (case last_error of None \<Rightarrow> TimedOut | Some e \<Rightarrow> e), w)"
| "connect_loop os deadline (a # as) last_error w =
     (let remaining = deadline - os_now os w
      in if remaining = 0 then (Err (case last_error of None \<Rightarrow> TimedOut | Some e \<Rightarrow> e), w)
         else (case os_connect os a remaining w of
             (Ok s, w') \<Rightarrow>
               (case os_set_nodelay os s w' of Err k \<Rightarrow> (Err k, w') | Ok _ \<Rightarrow> (Ok s, w'))
           | (Err error, w') \<Rightarrow> connect_loop os deadline as (Some error) w'))"

definition connect_direct ::
  "'w net_os \<Rightarrow> target \<Rightarrow> 'w dns_engine \<Rightarrow> 'w
    \<Rightarrow> (stream, error_kind) result \<times> 'w dns_engine \<times> 'w" where
  "connect_direct os t dns w =
     (case resolve_target os t dns w of
        (Err k, dns', w') \<Rightarrow> (Err k, dns', w')
      | (Ok addresses, dns', w') \<Rightarrow>
          let deadline = os_now os w' + CONNECT_TIMEOUT;
              (r, w'') = connect_loop os deadline addresses None w'
          in (r, dns', w''))"

section \<open>The shared address format\<close>

text \<open>
  A type octet, then the four or sixteen octets of the address or the length and bytes of the
  domain. A domain is representable when its length is between 1 and 255.
\<close>

fun encodable :: "destination_host \<Rightarrow> bool" where
  "encodable (HDomain d) = (d \<noteq> [] \<and> length d \<le> 255)"
| "encodable (HIp _) = True"

fun wire_host :: "destination_host \<Rightarrow> bytes" where
  "wire_host (HIp (V4 a)) = 0x01 # v4_octets a"
| "wire_host (HDomain d) = 0x03 # of_nat (length d) # as_bytes d"
| "wire_host (HIp (V6 a)) = 0x04 # v6_octets a"

lemma wire_host_length: "encodable h \<Longrightarrow> length (wire_host h) \<le> 257"
  by (induction h rule: wire_host.induct) simp_all

locale address_encoder =
  fixes encode :: "bytes \<Rightarrow> destination_host \<Rightarrow> (bytes, error_kind) result"
  assumes encode_iff: "encode buf h = Ok out \<longleftrightarrow> encodable h \<and> out = buf @ wire_host h"
begin

lemma encode_appends: "encode buf h = Ok out \<Longrightarrow> take (length buf) out = buf"
  by (auto simp: encode_iff)

lemma encode_bounded: "encode buf h = Ok out \<Longrightarrow> length out \<le> length buf + 257"
  using wire_host_length [of h] by (simp add: encode_iff)

end

section \<open>Direct connections\<close>

lemma engine_resolve_Ok_not_Nil:
  assumes "wf_hosts (e_hosts e)" "wf_cache (e_cache e)" "engine_resolve e name now w = (Ok as, e', w')"
  shows "as \<noteq> []"
proof -
  obtain q where q: "dns_query_new name = Ok q"
    using assms(3) by (cases "dns_query_new name") (auto simp: engine_resolve_def)
  show ?thesis
  proof (cases "hosts_resolve (e_hosts e) (q_name q)")
    case (Some xs)
    with assms(3) q have "as = xs" by (simp add: engine_resolve_def)
    with Some assms(1) show ?thesis
      using hm_get_Some_mem [of "records (e_hosts e)" "q_name q" xs]
      by (auto simp: wf_hosts_def hosts_resolve_def)
  next
    case None
    obtain r c1 where g: "cache_get (e_cache e) (q_name q) now = (r, c1)" by fastforce
    show ?thesis
    proof (cases r)
      case (Some xs)
      with assms(3) q None g have "as = xs" by (simp add: engine_resolve_def)
      moreover obtain en where "hm_get (c_entries (e_cache e)) (q_name q) = Some en" "xs = en_addresses en"
        using cache_get_Some [OF g [unfolded Some]] by (elim conjE exE)
      ultimately show ?thesis
        using assms(2) hm_get_Some_mem [of "c_entries (e_cache e)" "q_name q" en]
        by (auto simp: wf_cache_def wf_entry_def)
    next
      case miss: None
      obtain ttl f where l:
        "resolver_loop (e_resolvers e) q None (resolver_failures (e_stats e)) w = (Ok (as, ttl), f, w')"
        using assms(3) q None g miss
        by (auto simp: engine_resolve_def Let_def split: prod.splits result.splits)
      show ?thesis using resolver_loop_bounded [OF l] by (elim exE conjE)
    qed
  qed
qed

text \<open>
  Attempts that fail one after the other, each before the deadline and with the time left, and the
  world they leave.
\<close>

fun failed_in_turn :: "'w net_os \<Rightarrow> instant \<Rightarrow> socket_addr list \<Rightarrow> 'w \<Rightarrow> 'w \<Rightarrow> bool" where
  "failed_in_turn os deadline [] w w' \<longleftrightarrow> w = w'"
| "failed_in_turn os deadline (a # as) w w' \<longleftrightarrow> os_now os w < deadline \<and>
     (case os_connect os a (deadline - os_now os w) w of
        (Ok _, _) \<Rightarrow> False
      | (Err _, w1) \<Rightarrow> failed_in_turn os deadline as w1 w')"

lemma connect_loop_Ok:
  assumes "connect_loop os deadline as le w = (Ok s, w')"
  shows "\<exists>pre a post w1. as = pre @ a # post \<and> failed_in_turn os deadline pre w w1 \<and> os_now os w1 < deadline \<and>
    os_connect os a (deadline - os_now os w1) w1 = (Ok s, w')"
  using assms
proof (induction as arbitrary: le w)
  case (Cons a as)
  then have rem: "os_now os w < deadline" by (auto simp: Let_def split: if_splits)
  obtain r w1 where c: "os_connect os a (deadline - os_now os w) w = (r, w1)" by fastforce
  show ?case
  proof (cases r)
    case (Ok s1)
    with c Cons.prems rem have "os_connect os a (deadline - os_now os w) w = (Ok s, w')"
      by (auto simp: Let_def split: result.splits)
    with rem show ?thesis by (intro exI [of _ "[]"]) auto
  next
    case (Err e)
    with c Cons.prems rem have "connect_loop os deadline as (Some e) w1 = (Ok s, w')"
      by (auto simp: Let_def)
    from Cons.IH [OF this] obtain pre b post w2 where
      "as = pre @ b # post" "failed_in_turn os deadline pre w1 w2" "os_now os w2 < deadline"
      "os_connect os b (deadline - os_now os w2) w2 = (Ok s, w')" by blast
    with c Err rem show ?thesis
      by (intro exI [of _ "a # pre"] exI [of _ b] exI [of _ post] exI [of _ w2]) simp
  qed
qed simp

section \<open>Properties\<close>

text \<open>
  Property C23: a direct connection goes to an address of the target and to no other: the literal
  address, or the first one, in the order the DNS engine returned for the domain, that accepts. Every
  earlier address was tried with the requested port and failed, and every attempt was started with
  exactly the time left before one deadline, ten seconds after the resolution.
\<close>

theorem direct_connects_to_target:
  assumes "connect_direct os t dns w = (Ok s, dns', w')"
  shows "\<exists>ips failed ip later w0 w1. ips = failed @ ip # later \<and>
    (case t_host t of
       HIp a \<Rightarrow> ips = [a] \<and> dns' = dns \<and> w0 = w
     | HDomain d \<Rightarrow> engine_resolve dns d (os_now os w) w = (Ok ips, dns', w0)) \<and>
    failed_in_turn os (os_now os w0 + 10000000000) (map (\<lambda>a. socket_addr_new a (t_port t)) failed) w0 w1 \<and>
    os_now os w1 < os_now os w0 + 10000000000 \<and>
    os_connect os (socket_addr_new ip (t_port t)) (os_now os w0 + 10000000000 - os_now os w1) w1 = (Ok s, w')"
proof -
  obtain addrs w0 where r: "resolve_target os t dns w = (Ok addrs, dns', w0)"
    and c: "connect_loop os (os_now os w0 + CONNECT_TIMEOUT) addrs None w0 = (Ok s, w')"
    using assms by (auto simp: connect_direct_def Let_def split: prod.splits result.splits)
  obtain ips where ips: "addrs = map (\<lambda>a. socket_addr_new a (t_port t)) ips"
    "case t_host t of
       HIp a \<Rightarrow> ips = [a] \<and> dns' = dns \<and> w0 = w
     | HDomain d \<Rightarrow> engine_resolve dns d (os_now os w) w = (Ok ips, dns', w0)"
  proof (cases "t_host t")
    case (HIp a)
    with r that [of "[a]"] show thesis by (auto simp: resolve_target_def split: if_splits)
  next
    case (HDomain d)
    with r that show thesis by (auto simp: resolve_target_def split: prod.splits result.splits if_splits)
  qed
  obtain pre a post w1 where a: "map (\<lambda>a. socket_addr_new a (t_port t)) ips = pre @ a # post"
    "failed_in_turn os (os_now os w0 + CONNECT_TIMEOUT) pre w0 w1" "os_now os w1 < os_now os w0 + CONNECT_TIMEOUT"
    "os_connect os a (os_now os w0 + CONNECT_TIMEOUT - os_now os w1) w1 = (Ok s, w')"
    using connect_loop_Ok [OF c] unfolding ips(1) by (elim exE conjE) (rule that)
  from a(1) obtain failed ip later where "ips = failed @ ip # later"
    "pre = map (\<lambda>a. socket_addr_new a (t_port t)) failed" "a = socket_addr_new ip (t_port t)"
    by (auto simp: map_eq_append_conv map_eq_Cons_conv)
  with a(2-4) ips(2) show ?thesis
    unfolding CONNECT_TIMEOUT_def from_secs_def by (intro exI conjI) (assumption | simp)+
qed

text \<open>An operating system for the witnesses: a clock that stands still and one reachable peer.\<close>

definition sample_stream :: "bytes list \<Rightarrow> stream" where
  "sample_stream segs =
     \<lparr>in_segs = segs, in_error = None, out_bytes = [], out_budget = 65535, out_error = BrokenPipe\<rparr>"

definition sample_os :: "bytes list \<Rightarrow> unit net_os" where
  "sample_os segs = \<lparr>os_now = (\<lambda>_. 0), os_connect = (\<lambda>a d w. (Ok (sample_stream segs), w)),
     os_set_nodelay = (\<lambda>s w. Ok ())\<rparr>"

text \<open>A name with two addresses, the first of which refuses.\<close>

definition two_hosts :: "unit dns_engine" where
  "two_hosts = sample_engine\<lparr>e_hosts := \<lparr>records = [(''a'', [V4 1, V4 2])]\<rparr>\<rparr>"

definition second_os :: "unit net_os" where
  "second_os = (sample_os [])\<lparr>os_connect := (\<lambda>a d w.
     (if a = SockV4 1 80 then Err ConnectionRefused else Ok (sample_stream []), w))\<rparr>"

theorem direct_connects_to_target_witness:
  "\<exists>dns'. connect_direct second_os \<lparr>t_host = HDomain ''a'', t_port = 80\<rparr> two_hosts () = (Ok (sample_stream []), dns', ()) \<and>
    (\<exists>ips failed ip later. ips = failed @ ip # later \<and> engine_resolve two_hosts ''a'' 0 () = (Ok ips, dns', ()) \<and>
      failed_in_turn second_os 10000000000 (map (\<lambda>a. socket_addr_new a 80) failed) () () \<and>
      os_connect second_os (socket_addr_new ip 80) 10000000000 () = (Ok (sample_stream []), ()))"
proof -
  let ?t = "\<lparr>t_host = HDomain ''a'', t_port = 80\<rparr>"
  have "fst (connect_direct second_os ?t two_hosts ()) = Ok (sample_stream [])" by code_simp
  then obtain dns' where c: "connect_direct second_os ?t two_hosts () = (Ok (sample_stream []), dns', ())"
    by (cases "connect_direct second_os ?t two_hosts ()") auto
  have "os_now second_os w = 0" for w by (simp add: second_os_def sample_os_def)
  with direct_connects_to_target [OF c] c show ?thesis by simp
qed

end
