(* ===== verification/Trojan.thy ===== *)
theory Trojan
  imports Proxy
begin

text \<open>
  \<open>crates/daemon/src/trojan.rs\<close>: the Trojan codec. SHA-224 is a parameter that returns 28
  octets. UDP frames are parsed from a growing buffer: a complete frame is recognised with its
  exact extent, and every proper prefix of a frame asks for more bytes instead of failing.
\<close>

section \<open>Definitions\<close>

definition TROJAN_VERIFIER_BYTES :: nat where "TROJAN_VERIFIER_BYTES = 56"
definition MAX_TROJAN_PASSWORD_BYTES :: nat where "MAX_TROJAN_PASSWORD_BYTES = 1024"
definition TROJAN_CONNECT :: u8 where "TROJAN_CONNECT = 0x01"
definition TROJAN_UDP_ASSOCIATE :: u8 where "TROJAN_UDP_ASSOCIATE = 0x03"

definition CRLF :: bytes where "CRLF = [0x0d, 0x0a]"

datatype trojan_verifier = TrojanVerifier bytes

fun verifier_bytes :: "trojan_verifier \<Rightarrow> bytes" where
  "verifier_bytes (TrojanVerifier bs) = bs"

definition hex_digit :: "nat \<Rightarrow> u8" where
  "hex_digit d = as_bytes ''0123456789abcdef'' ! d"

definition hex_encode :: "bytes \<Rightarrow> bytes" where
  "hex_encode digest =
     concat (map (\<lambda>b. [hex_digit (unat (drop_bit 4 b)), hex_digit (unat (b AND 0x0f))]) digest)"

definition verifier_new :: "(bytes \<Rightarrow> bytes) \<Rightarrow> str \<Rightarrow> (trojan_verifier, error_kind) result" where
  "verifier_new sha224 password =
     (if password = [] \<or> MAX_TROJAN_PASSWORD_BYTES < length password then Err InvalidInput
      else Ok (TrojanVerifier (hex_encode (sha224 (as_bytes password)))))"

definition encode_host :: "bytes \<Rightarrow> destination_host \<Rightarrow> (bytes, error_kind) result" where
  "encode_host buffer host =
     (case host of
        HIp (V4 address) \<Rightarrow> Ok (buffer @ [0x01] @ v4_octets address)
      | HDomain domain \<Rightarrow>
          if 255 < length domain then Err InvalidInput
          else if length domain = 0 then Err InvalidInput
          else Ok (buffer @ [0x03] @ [of_nat (length domain)] @ as_bytes domain)
      | HIp (V6 address) \<Rightarrow> Ok (buffer @ [0x04] @ v6_octets address))"

definition encode_target :: "bytes \<Rightarrow> target \<Rightarrow> (bytes, error_kind) result" where
  "encode_target buffer t =
     bindR (encode_host buffer (t_host t)) (\<lambda>buffer. Ok (buffer @ u16_to_be (t_port t)))"

definition encode_connect_request :: "trojan_verifier \<Rightarrow> target \<Rightarrow> (bytes, error_kind) result" where
  "encode_connect_request verifier t =
     bindR (encode_target (verifier_bytes verifier @ CRLF @ [TROJAN_CONNECT]) t)
       (\<lambda>request. Ok (request @ CRLF))"

definition encode_udp_associate_request :: "trojan_verifier \<Rightarrow> bytes" where
  "encode_udp_associate_request verifier =
     verifier_bytes verifier @ CRLF @ [TROJAN_UDP_ASSOCIATE] @ [0x01, 0, 0, 0, 0, 0, 0] @ CRLF"

definition encode_udp_frame :: "target \<Rightarrow> bytes \<Rightarrow> (bytes, error_kind) result" where
  "encode_udp_frame t payload =
     (if 65535 < length payload then Err InvalidInput
      else bindR (encode_target [] t) (\<lambda>frame.
        Ok (frame @ u16_to_be (of_nat (length payload)) @ CRLF @ payload)))"

record parsed_udp_frame =
  uf_source :: target
  uf_payload_start :: nat
  uf_payload_end :: nat
  uf_consumed :: nat

definition parse_host :: "bytes \<Rightarrow> ((destination_host \<times> nat) option, error_kind) result" where
  "parse_host data =
     (case data of
        [] \<Rightarrow> Ok None
      | address_type # _ \<Rightarrow>
          if address_type = 0x01 then
            (if length data < 5 then Ok None
             else Ok (Some (HIp (V4 (v4_from_octets (take 4 (drop 1 data)))), 5)))
          else if address_type = 0x03 then
            (if length data < 2 then Ok None
             else
               let len = unat (data ! 1)
               in if len = 0 then Err InvalidData
                  else if length data < 2 + len then Ok None
                  else (case from_utf8 (take len (drop 2 data)) of
                          None \<Rightarrow> Err InvalidData
                        | Some domain \<Rightarrow> Ok (Some (HDomain domain, 2 + len))))
          else if address_type = 0x04 then
            (if length data < 17 then Ok None
             else Ok (Some (HIp (V6 (v6_from_octets (take 16 (drop 1 data)))), 17)))
          else Err InvalidData)"

definition parse_target :: "bytes \<Rightarrow> ((target \<times> nat) option, error_kind) result" where
  "parse_target data =
     bindR (parse_host data) (\<lambda>parsed.
     case parsed of
       None \<Rightarrow> Ok None
     | Some (host, host_end) \<Rightarrow>
         if length data < host_end + 2 then Ok None
         else
           bindR (map_err (\<lambda>_. InvalidData)
                    (target_new host (u16_from_be (take 2 (drop host_end data)))))
             (\<lambda>t. Ok (Some (t, host_end + 2))))"

definition parse_udp_frame :: "bytes \<Rightarrow> (parsed_udp_frame option, error_kind) result" where
  "parse_udp_frame data =
     bindR (parse_target data) (\<lambda>parsed.
     case parsed of
       None \<Rightarrow> Ok None
     | Some (source, address_len) \<Rightarrow>
         if length data < address_len + 4 then Ok None
         else
           let len = unat (u16_from_be (take 2 (drop address_len data)))
           in if take 2 (drop (address_len + 2) data) \<noteq> CRLF then Err InvalidData
              else
                let payload_start = address_len + 4
                in bindR (ok_or InvalidData (checked_add payload_start len)) (\<lambda>consumed.
                   if length data < consumed then Ok None
                   else Ok (Some \<lparr>uf_source = source, uf_payload_start = payload_start,
                                  uf_payload_end = consumed, uf_consumed = consumed\<rparr>)))"

section \<open>Lemmas\<close>

interpretation trojan_host: address_encoder encode_host
proof
  show "encode_host buf h = Ok out \<longleftrightarrow> encodable h \<and> out = buf @ wire_host h" for buf h out
    by (cases h rule: wire_host.cases) (auto simp: encode_host_def)
qed

text \<open>What a target looks like on the wire, and which targets a peer can be told.\<close>

definition wire_target :: "target \<Rightarrow> bytes" where
  "wire_target t = wire_host (t_host t) @ u16_to_be (t_port t)"

fun sendable_host :: "destination_host \<Rightarrow> bool" where
  "sendable_host (HDomain d) = (d \<noteq> [] \<and> length d \<le> 255 \<and> utf8_str d)"
| "sendable_host (HIp _) = True"

definition sendable :: "target \<Rightarrow> bool" where
  "sendable t \<longleftrightarrow> t_port t \<noteq> 0 \<and> sendable_host (t_host t)"

lemma sendable_encodable: "sendable_host h \<Longrightarrow> encodable h"
  by (cases h) auto

lemma encode_target_Ok_iff:
  "encode_target buf t = Ok out \<longleftrightarrow> encodable (t_host t) \<and> out = buf @ wire_target t"
  by (auto simp: encode_target_def trojan_host.encode_iff wire_target_def)

lemma from_utf8_utf8_str: "utf8_str s \<Longrightarrow> from_utf8 (as_bytes s) = Some s"
  by (simp add: from_utf8_def utf8_str_def)

lemma unat_length_octet: "length d \<le> 255 \<Longrightarrow> unat (of_nat (length d) :: u8) = length d"
  by (simp add: unat_of_nat)

lemma parse_host_wire:
  assumes "sendable_host h"
  shows "parse_host (wire_host h @ rest) = Ok (Some (h, length (wire_host h)))"
  using assms
  by (cases h rule: wire_host.cases)
    (auto simp: parse_host_def unat_length_octet from_utf8_utf8_str Let_def)

lemma parse_host_prefix:
  assumes "sendable_host h" "n < length (wire_host h)"
  shows "parse_host (take n (wire_host h)) = Ok None"
  using assms
  by (cases h rule: wire_host.cases; cases n)
    (auto simp: parse_host_def unat_length_octet Let_def nth_Cons split: nat.splits)

lemma wire_target_length: "length (wire_target t) = length (wire_host (t_host t)) + 2"
  by (simp add: wire_target_def)

lemma sendable_wire_length: "sendable t \<Longrightarrow> length (wire_target t) \<le> 259"
  using wire_host_length [of "t_host t"] sendable_encodable
  by (simp add: wire_target_length sendable_def)

lemma target_new_self: "t_port t \<noteq> 0 \<Longrightarrow> target_new (t_host t) (t_port t) = Ok t"
  by (simp add: target_new_def)

lemma parse_target_wire:
  assumes "sendable t"
  shows "parse_target (wire_target t @ rest) = Ok (Some (t, length (wire_target t)))"
  using assms parse_host_wire [of "t_host t" "u16_to_be (t_port t) @ rest"]
  by (simp add: parse_target_def wire_target_def sendable_def target_new_self)

lemma parse_target_prefix:
  assumes "sendable t" "n < length (wire_target t)"
  shows "parse_target (take n (wire_target t)) = Ok None"
proof (cases "n < length (wire_host (t_host t))")
  case True
  then show ?thesis
    using assms parse_host_prefix [of "t_host t" n]
    by (simp add: parse_target_def wire_target_def sendable_def)
next
  case False
  then have "take n (wire_target t) = wire_host (t_host t) @ take (n - length (wire_host (t_host t))) (u16_to_be (t_port t))"
    by (simp add: wire_target_def)
  then show ?thesis
    using assms False parse_host_wire [of "t_host t"]
    by (simp add: parse_target_def sendable_def wire_target_length)
qed

lemma length_CRLF [simp]: "length CRLF = 2"
  by (simp add: CRLF_def)

lemma unat_length_u16: "length p \<le> 65535 \<Longrightarrow> unat (of_nat (length p) :: u16) = length p"
  by (simp add: unat_of_nat)

lemma encode_udp_frame_Ok:
  "sendable t \<Longrightarrow> length payload \<le> 65535 \<Longrightarrow> encode_udp_frame t payload =
     Ok (wire_target t @ u16_to_be (of_nat (length payload)) @ CRLF @ payload)"
  by (simp add: encode_udp_frame_def encode_target_def sendable_def sendable_encodable
      trojan_host.encode_iff [THEN iffD2] wire_target_def)

lemma parse_host_Ok:
  assumes "parse_host data = Ok (Some (h, n))"
  shows "sendable_host h \<and> take n data = wire_host h \<and> n \<le> length data \<and> n \<le> 257"
proof -
  obtain b ds where data: "data = b # ds" using assms by (cases data) (auto simp: parse_host_def)
  consider (v4) "b = 0x01" "4 \<le> length ds" "h = HIp (V4 (v4_from_octets (take 4 ds)))" "n = 5"
    | (v6) "b = 0x04" "16 \<le> length ds" "h = HIp (V6 (v6_from_octets (take 16 ds)))" "n = 17"
    | (dom) c ds' d where "b = 0x03" "ds = c # ds'" "0 < unat c" "unat c \<le> length ds'"
        "from_utf8 (take (unat c) ds') = Some d" "h = HDomain d" "n = 2 + unat c"
    using assms
    by (cases ds) (auto simp: parse_host_def data Let_def split: if_split_asm option.split_asm)
  then show ?thesis
  proof cases
    case v4
    then show ?thesis by (simp add: data v4_to_from_octets)
  next
    case v6
    then show ?thesis by (simp add: data v6_to_from_octets)
  next
    case dom
    have d: "as_bytes d = take (unat c) ds'" using from_utf8_as_bytes [OF dom(5)] .
    then have len: "length d = unat c" using dom(4) by (metis length_as_bytes length_take min.absorb2)
    have "unat c < 256" using unsigned_less [of c, where 'a = nat] by simp
    moreover have "utf8_str d" using dom(5) d by (auto simp: from_utf8_def utf8_str_def split: if_splits)
    ultimately show ?thesis using dom d len by (auto simp: data)
  qed
qed

lemma parse_target_Ok:
  assumes "parse_target data = Ok (Some (t, n))"
  shows "sendable t \<and> take n data = wire_target t \<and> n \<le> length data \<and> n \<le> 259"
proof -
  obtain h e where ph: "parse_host data = Ok (Some (h, e))"
    using assms by (cases "parse_host data") (auto simp: parse_target_def split: option.splits)
  then have h: "parse_host data = Ok (Some (h, e))" "e + 2 \<le> length data" "n = e + 2"
    and t: "t_host t = h" "t_port t = u16_from_be (take 2 (drop e data))" "t_port t \<noteq> 0"
    using assms by (auto simp: parse_target_def target_new_def split: if_split_asm)
  have "take n data = take e data @ take 2 (drop e data)"
    unfolding h(3) by (rule take_add)
  moreover have "u16_to_be (t_port t) = take 2 (drop e data)"
    using h(2) by (simp add: t(2) u16_to_from_be)
  ultimately show ?thesis
    using parse_host_Ok [OF h(1)] h t by (simp add: sendable_def wire_target_def)
qed

section \<open>Properties\<close>

text \<open>
  Property C29: a UDP frame survives the wire. For every target a peer can be told and every payload
  of at most 65535 bytes the encoder succeeds, and the parser finds in any buffer that starts with
  the frame the same target and payload and consumes exactly the frame.
\<close>

theorem udp_frame_round_trip:
  assumes "sendable t" "length payload \<le> 65535"
  shows "\<exists>frame. encode_udp_frame t payload = Ok frame \<and>
    parse_udp_frame (frame @ rest) = Ok (Some \<lparr>uf_source = t,
      uf_payload_start = length frame - length payload, uf_payload_end = length frame,
      uf_consumed = length frame\<rparr>) \<and>
    drop (length frame - length payload) frame = payload"
proof -
  let ?l = "u16_to_be (of_nat (length payload))"
  let ?f = "wire_target t @ ?l @ CRLF @ payload"
  have p: "parse_target (?f @ rest) = Ok (Some (t, length (wire_target t)))"
    using parse_target_wire [OF assms(1), of "?l @ CRLF @ payload @ rest"] by simp
  have "length (wire_target t) + 4 + length payload < usize_bound"
    using assms(2) sendable_wire_length [OF assms(1)] by (simp add: usize_bound_def)
  then have "parse_udp_frame (?f @ rest) = Ok (Some \<lparr>uf_source = t,
      uf_payload_start = length ?f - length payload, uf_payload_end = length ?f,
      uf_consumed = length ?f\<rparr>)"
    using p unat_length_u16 [OF assms(2)]
    by (simp add: parse_udp_frame_def checked_add_def Let_def)
  then show ?thesis
    using encode_udp_frame_Ok [OF assms] by (intro exI [of _ ?f]) simp
qed

theorem udp_frame_round_trip_witness:
  "\<exists>frame. encode_udp_frame \<lparr>t_host = HDomain ''a.b'', t_port = 53\<rparr> [1, 2, 3] = Ok frame \<and>
    parse_udp_frame (frame @ [9]) = Ok (Some \<lparr>uf_source = \<lparr>t_host = HDomain ''a.b'', t_port = 53\<rparr>,
      uf_payload_start = length frame - 3, uf_payload_end = length frame, uf_consumed = length frame\<rparr>)"
proof -
  have "sendable \<lparr>t_host = HDomain ''a.b'', t_port = 53\<rparr>" by code_simp
  from udp_frame_round_trip [OF this, of "[1, 2, 3]" "[9]"] show ?thesis by auto
qed

text \<open>
  An incomplete frame is never an error. Every proper prefix of an encoded frame is
  reported as needing more bytes, wherever the stream happens to be cut.
\<close>

theorem udp_frame_prefix_waits:
  assumes "sendable t" "encode_udp_frame t payload = Ok frame" "n < length frame"
  shows "parse_udp_frame (take n frame) = Ok None"
proof -
  let ?l = "u16_to_be (of_nat (length payload))"
  have len: "length payload \<le> 65535"
    using assms(2) by (auto simp: encode_udp_frame_def split: if_splits)
  have f: "frame = wire_target t @ ?l @ CRLF @ payload"
    using assms(2) encode_udp_frame_Ok [OF assms(1) len] by simp
  show ?thesis
  proof (cases "n < length (wire_target t)")
    case True
    then show ?thesis
      using parse_target_prefix [OF assms(1) True] by (simp add: parse_udp_frame_def f)
  next
    case False
    then obtain k where n: "n = length (wire_target t) + k" using le_Suc_ex by (metis not_less)
    have "take n frame = wire_target t @ take k (?l @ CRLF @ payload)"
      by (simp add: f n)
    then have p: "parse_target (take n frame) = Ok (Some (t, length (wire_target t)))"
      using parse_target_wire [OF assms(1)] by simp
    show ?thesis
    proof (cases "k < 4")
      case True
      then have "length (take n frame) < length (wire_target t) + 4" using assms(3) by (simp add: n)
      then show ?thesis using p by (simp add: parse_udp_frame_def)
    next
      case False
      then obtain j where k: "k = 4 + j" using le_Suc_ex by (metis not_less)
      have j: "j < length payload" using assms(3) by (simp add: f n k)
      have "take n frame = wire_target t @ ?l @ CRLF @ take j payload"
        by (simp add: f n k)
      then show ?thesis
        using p j len unat_length_u16 [OF len] sendable_wire_length [OF assms(1)]
        by (simp add: parse_udp_frame_def checked_add_def usize_bound_def Let_def)
    qed
  qed
qed

theorem udp_frame_prefix_waits_witness:
  "\<exists>frame. encode_udp_frame \<lparr>t_host = HIp (V4 1), t_port = 53\<rparr> [1, 2, 3] = Ok frame \<and>
     parse_udp_frame (take 13 frame) = Ok None"
proof -
  have s: "sendable \<lparr>t_host = HIp (V4 1), t_port = 53\<rparr>" by code_simp
  have e: "encode_udp_frame \<lparr>t_host = HIp (V4 1), t_port = 53\<rparr> [1, 2, 3]
      = Ok [1, 0, 0, 0, 1, 0, 53, 0, 3, 13, 10, 1, 2, 3]" by code_simp
  from udp_frame_prefix_waits [OF s e, of 13] e show ?thesis by simp
qed

text \<open>
  A frame is recognised only where the encoder could have written it: re-encoding the
  parsed source and payload gives back exactly the bytes consumed, which lie within the buffer.
\<close>

theorem udp_frame_parse_exact:
  assumes "parse_udp_frame data = Ok (Some f)"
  shows "uf_consumed f \<le> length data \<and>
    encode_udp_frame (uf_source f)
      (take (uf_payload_end f - uf_payload_start f) (drop (uf_payload_start f) data))
    = Ok (take (uf_consumed f) data)"
proof -
  obtain t a where t: "parse_target data = Ok (Some (t, a))"
    using assms by (cases "parse_target data") (auto simp: parse_udp_frame_def split: option.splits)
  define l where "l = take 2 (drop a data)"
  have a: "a + 4 \<le> length data" "take 2 (drop (a + 2) data) = CRLF"
    and c: "a + 4 + unat (u16_from_be l) \<le> length data"
    and f: "f = \<lparr>uf_source = t, uf_payload_start = a + 4,
      uf_payload_end = a + 4 + unat (u16_from_be l), uf_consumed = a + 4 + unat (u16_from_be l)\<rparr>"
    using assms t by (auto simp: parse_udp_frame_def Let_def l_def split: if_split_asm)
  define n where "n = unat (u16_from_be l)"
  let ?p = "take n (drop (a + 4) data)"
  have n: "n \<le> 65535" using unsigned_less [of "u16_from_be l", where 'a = nat] by (simp add: n_def)
  have plen: "length ?p = n" using c by (simp add: n_def)
  have "u16_to_be (of_nat n) = l"
    using a(1) by (simp add: n_def l_def u16_to_from_be)
  moreover have "take (a + 4) data = take a data @ l @ CRLF"
  proof -
    have "take (a + 4) data = take (a + 2 + 2) data" by (rule arg_cong [of _ _ "\<lambda>k. take k data"]) simp
    then show ?thesis
      using take_add [of "a + 2" 2 data] take_add [of a 2 data] a(2) by (simp add: l_def)
  qed
  then have "take (a + 4 + n) data = take a data @ l @ CRLF @ ?p"
    using take_add [of "a + 4" n data] by simp
  moreover have "sendable t" "take a data = wire_target t"
    using parse_target_Ok [OF t] by auto
  ultimately show ?thesis
    using c n plen encode_udp_frame_Ok [of t ?p] by (simp add: f n_def [symmetric])
qed

theorem udp_frame_parse_exact_witness:
  "\<exists>f. parse_udp_frame [1, 0, 0, 0, 1, 0, 53, 0, 2, 13, 10, 8, 9, 7] = Ok (Some f) \<and>
     encode_udp_frame (uf_source f) [8, 9] = Ok [1, 0, 0, 0, 1, 0, 53, 0, 2, 13, 10, 8, 9]"
proof -
  have "parse_udp_frame [1, 0, 0, 0, 1, 0, 53, 0, 2, 13, 10, 8, 9, 7]
      = Ok (Some \<lparr>uf_source = \<lparr>t_host = HIp (V4 1), t_port = 53\<rparr>, uf_payload_start = 11,
          uf_payload_end = 13, uf_consumed = 13\<rparr>)"
    by code_simp
  from udp_frame_parse_exact [OF this] this show ?thesis by simp
qed

end
