(* ===== verification/Std_Fmt.thy ===== *)
theory Std_Fmt
  imports Std_Net
begin

text \<open>
  The \<open>Display\<close> forms of the standard library that the sources print: unsigned numbers in
  decimal and hexadecimal, IPv4 addresses and IPv6 addresses with the first longest run of zero
  groups compressed.
\<close>

section \<open>Definitions\<close>

definition digit_char :: "nat \<Rightarrow> char" where
  "digit_char d = (if d < 10 then char_of (48 + d) else char_of (87 + d))"

function show_radix :: "nat \<Rightarrow> nat \<Rightarrow> str" where
  "show_radix b n =
     (if b \<le> 1 \<or> n < b then [digit_char n] else show_radix b (n div b) @ [digit_char (n mod b)])"
  by pat_completeness auto
termination
  by (relation "measure snd") (auto intro: div_less_dividend)

declare show_radix.simps [simp del]

definition show_nat :: "nat \<Rightarrow> str" where
  "show_nat n = show_radix 10 n"

definition show_ipv4 :: "u32 \<Rightarrow> str" where
  "show_ipv4 a = join_with (CHR ''.'') (map (\<lambda>b. show_nat (unat b)) (v4_octets a))"

definition v6_segments :: "u128 \<Rightarrow> nat list" where
  "v6_segments a = map (\<lambda>i. (unat a div 65536 ^ (7 - i)) mod 65536) [0..<8]"

text \<open>The scan for the longest run of zeros: position, current and longest span (start, length).\<close>

fun zero_span :: "nat \<Rightarrow> nat list \<Rightarrow> nat \<times> nat \<Rightarrow> nat \<times> nat \<Rightarrow> nat \<times> nat" where
  "zero_span i [] current longest = longest"
| "zero_span i (s # ss) current longest =
     (if s = 0 then
        let current = (if snd current = 0 then i else fst current, snd current + 1)
        in zero_span (i + 1) ss current (if snd longest < snd current then current else longest)
      else zero_span (i + 1) ss (0, 0) longest)"

definition show_segments :: "nat list \<Rightarrow> str" where
  "show_segments ss = join_with (CHR '':'') (map (show_radix 16) ss)"

definition show_ipv6 :: "u128 \<Rightarrow> str" where
  "show_ipv6 a =
     (let ss = v6_segments a
      in if take 5 ss = [0, 0, 0, 0, 0] \<and> ss ! 5 = 0xffff
         then ''::ffff:'' @ show_ipv4 (of_nat (unat a mod 2 ^ 32))
         else
           let (start, len) = zero_span 0 ss (0, 0) (0, 0)
           in if 1 < len then show_segments (take start ss) @ ''::'' @ show_segments (drop (start + len) ss)
              else show_segments ss)"

section \<open>Decimal round trip\<close>

lemma digit_char_value: "d < 10 \<Longrightarrow> digit_value 10 (digit_char d) = Some d"
  by (simp add: digit_char_def digit_value_def)

lemma code_digit_char: "d < 10 \<Longrightarrow> code (digit_char d) = 48 + d"
  by (simp add: digit_char_def)

lemma show_radix_not_Nil [simp]: "show_radix b n \<noteq> []"
  by (subst show_radix.simps) simp

lemma show_radix_digits: "c \<in> set (show_radix 10 n) \<Longrightarrow> \<exists>d < 10. c = digit_char d"
proof (induction "10 :: nat" n rule: show_radix.induct)
  case (1 n)
  have m: "\<exists>d < 10. digit_char (n mod 10) = digit_char d"
    by (intro exI [of _ "n mod 10"]) simp
  show ?case
    using 1 m unfolding show_radix.simps [of 10 n] by (auto split: if_splits)
qed

lemma parse_digits_snoc:
  "parse_digits bound acc (s @ [c]) =
     (case parse_digits bound acc s of
        None \<Rightarrow> None
      | Some m \<Rightarrow>
          (case digit_value 10 c of None \<Rightarrow> None
           | Some d \<Rightarrow> if m * 10 + d < bound then Some (m * 10 + d) else None))"
  by (induction bound acc s rule: parse_digits.induct) (auto split: option.splits)

lemma parse_show_radix: "n < bound \<Longrightarrow> parse_digits bound 0 (show_radix 10 n) = Some n"
proof (induction "10 :: nat" n rule: show_radix.induct)
  case (1 n)
  show ?case
  proof (cases "n < 10")
    case True
    with "1.prems" show ?thesis
      by (subst show_radix.simps) (simp add: digit_char_value)
  next
    case False
    have "n div 10 * 10 + n mod 10 = n" by simp
    moreover have "parse_digits bound 0 (show_radix 10 (n div 10)) = Some (n div 10)"
      using 1 False by (simp add: div_less_dividend less_trans [of "n div 10" n])
    ultimately show ?thesis
      using "1.prems" False
      by (subst show_radix.simps) (simp add: parse_digits_snoc digit_char_value)
  qed
qed

lemma show_nat_hd: "hd (show_nat n) \<noteq> CHR ''+''"
proof -
  have "hd (show_nat n) \<in> set (show_nat n)" by (simp add: show_nat_def)
  then obtain d where "d < 10" "hd (show_nat n) = digit_char d"
    using show_radix_digits [of "hd (show_nat n)" n] unfolding show_nat_def by blast
  then have "code (hd (show_nat n)) = 48 + d" by (simp add: code_digit_char)
  moreover have "code (CHR ''+'') = 43" by (simp add: code_def)
  ultimately show ?thesis by auto
qed

lemma parse_show_nat: "n < bound \<Longrightarrow> parse_uint bound (show_nat n) = Some n"
  using show_nat_hd [of n] parse_show_radix [of n bound]
  by (cases "show_nat n") (auto simp: parse_uint_def show_nat_def)

lemma parse_u16_show: "parse_u16 (show_nat (unat p)) = Some p"
proof -
  have "unat p < 65536" using unsigned_less [of p, where 'a = nat] by simp
  then show ?thesis by (simp add: parse_u16_def parse_show_nat)
qed

lemma show_nat_no_char: "code c < 48 \<or> 57 < code c \<Longrightarrow> c \<notin> set (show_nat n)"
  using show_radix_digits [of c n] by (auto simp: show_nat_def code_digit_char)

end
