(* ===== verification/Protocol.thy ===== *)
theory Protocol
  imports Trojan Std_Fmt
begin

text \<open>
  \<open>crates/daemon/src/protocol.rs\<close>: the outbound handshakes a proxy endpoint runs on an
  established session. A handshake that succeeds has written exactly its request and consumed
  exactly the peer's reply, so the tunnel starts at the first byte after it.
\<close>

section \<open>Definitions\<close>

definition MAX_HTTP_RESPONSE_HEAD :: nat where
  "MAX_HTTP_RESPONSE_HEAD = 16 * 1024"

record protocol_capabilities =
  stream_connect :: bool
  requires_tls :: bool

datatype outbound_protocol =
    Socks5Protocol
  | HttpConnectProtocol
  | TrojanProtocol trojan_verifier

fun protocol_name :: "outbound_protocol \<Rightarrow> str" where
  "protocol_name Socks5Protocol = ''socks5''"
| "protocol_name HttpConnectProtocol = ''http-connect''"
| "protocol_name (TrojanProtocol _) = ''trojan''"

fun protocol_caps :: "outbound_protocol \<Rightarrow> protocol_capabilities" where
  "protocol_caps Socks5Protocol = \<lparr>stream_connect = True, requires_tls = False\<rparr>"
| "protocol_caps HttpConnectProtocol = \<lparr>stream_connect = True, requires_tls = False\<rparr>"
| "protocol_caps (TrojanProtocol _) = \<lparr>stream_connect = True, requires_tls = True\<rparr>"

definition encode_socks_address :: "bytes \<Rightarrow> destination_host \<Rightarrow> (bytes, error_kind) result" where
  "encode_socks_address buffer host =
     (case host of
        HIp (V4 address) \<Rightarrow> Ok (buffer @ [0x01] @ v4_octets address)
      | HDomain domain \<Rightarrow>
          if 255 < length domain then Err InvalidInput
          else if length domain = 0 then Err InvalidInput
          else Ok (buffer @ [0x03] @ [of_nat (length domain)] @ as_bytes domain)
      | HIp (V6 address) \<Rightarrow> Ok (buffer @ [0x04] @ v6_octets address))"

definition discard_socks_address :: "u8 \<Rightarrow> unit io" where
  "discard_socks_address address_type =
     (if address_type = 0x01 then bindIO (read_exact 4) (\<lambda>_. returnIO ())
      else if address_type = 0x03 then
        bindIO (read_exact 1) (\<lambda>len. bindIO (read_exact (unat (len ! 0))) (\<lambda>_. returnIO ()))
      else if address_type = 0x04 then bindIO (read_exact 16) (\<lambda>_. returnIO ())
      else failIO InvalidData)"

definition socks5_handshake :: "target \<Rightarrow> unit io" where
  "socks5_handshake t =
     bindIO (write_all [0x05, 0x01, 0x00]) (\<lambda>_.
     bindIO flush (\<lambda>_.
     bindIO (read_exact 2) (\<lambda>meth.
     if meth \<noteq> [0x05, 0x00] then failIO PermissionDenied
     else
     bindIO (liftIO (encode_socks_address [0x05, 0x01, 0x00] (t_host t))) (\<lambda>request.
     bindIO (write_all (request @ u16_to_be (t_port t))) (\<lambda>_.
     bindIO flush (\<lambda>_.
     bindIO (read_exact 4) (\<lambda>reply.
     if reply ! 0 \<noteq> 0x05 \<or> reply ! 2 \<noteq> 0x00 then failIO InvalidData
     else if reply ! 1 \<noteq> 0x00 then failIO ConnectionRefused
     else
     bindIO (discard_socks_address (reply ! 3)) (\<lambda>_.
     bindIO (read_exact 2) (\<lambda>_. returnIO ())))))))))"

definition target_authority :: "target \<Rightarrow> str" where
  "target_authority t =
     (case t_host t of
        HIp (V4 address) \<Rightarrow> show_ipv4 address @ '':'' @ show_nat (unat (t_port t))
      | HIp (V6 address) \<Rightarrow> ''['' @ show_ipv6 address @ '']:'' @ show_nat (unat (t_port t))
      | HDomain domain \<Rightarrow> domain @ '':'' @ show_nat (unat (t_port t)))"

definition crlf :: str where
  "crlf = [CHR 0x0D, CHR 0x0A]"

definition connect_request :: "target \<Rightarrow> str" where
  "connect_request t =
     ''CONNECT '' @ target_authority t @ '' HTTP/1.1'' @ crlf @ ''Host: '' @ target_authority t @ crlf @
     ''Proxy-Connection: Keep-Alive'' @ crlf @ crlf"

definition ends_head :: "bytes \<Rightarrow> bool" where
  "ends_head head = (4 \<le> length head \<and> drop (length head - 4) head = CRLF @ CRLF)"

function read_http_response_head :: "bytes \<Rightarrow> bytes io" where
  "read_http_response_head head s =
     (if ends_head head then (Ok head, s)
      else if MAX_HTTP_RESPONSE_HEAD \<le> length head then (Err InvalidData, s)
      else (case read_exact 1 s of
              (Err k, s') \<Rightarrow> (Err k, s')
            | (Ok byte, s') \<Rightarrow> read_http_response_head (head @ [byte ! 0]) s'))"
  by pat_completeness auto
termination
  by (relation "measure (\<lambda>(head, s). MAX_HTTP_RESPONSE_HEAD - length head)") auto

declare read_http_response_head.simps [simp del]

definition check_http_status :: "bytes \<Rightarrow> (unit, error_kind) result" where
  "check_http_status head =
     bindR (ok_or InvalidData (from_utf8 head)) (\<lambda>text.
     bindR (ok_or InvalidData (case lines text of [] \<Rightarrow> None | l # _ \<Rightarrow> Some l)) (\<lambda>status_line.
     let items = split_whitespace status_line;
         version = (case items of [] \<Rightarrow> [] | v # _ \<Rightarrow> v);
         status = (case items of _ # v # _ \<Rightarrow> v | _ \<Rightarrow> [])
     in if \<not> starts_with ''HTTP/1.'' version then Err InvalidData
        else bindR (ok_or InvalidData (parse_u16 status)) (\<lambda>status.
          if \<not> (200 \<le> unat status \<and> unat status < 300) then Err ConnectionRefused else Ok ())))"

definition http_connect_handshake :: "target \<Rightarrow> unit io" where
  "http_connect_handshake t =
     bindIO (write_all (as_bytes (connect_request t))) (\<lambda>_.
     bindIO flush (\<lambda>_.
     bindIO (read_http_response_head []) (\<lambda>head. liftIO (check_http_status head))))"

definition trojan_handshake :: "trojan_verifier \<Rightarrow> target \<Rightarrow> unit io" where
  "trojan_handshake verifier t =
     bindIO (liftIO (encode_connect_request verifier t)) (\<lambda>request.
     bindIO (write_all request) (\<lambda>_. flush))"

fun handshake_stream :: "outbound_protocol \<Rightarrow> target \<Rightarrow> unit io" where
  "handshake_stream Socks5Protocol t = socks5_handshake t"
| "handshake_stream HttpConnectProtocol t = http_connect_handshake t"
| "handshake_stream (TrojanProtocol verifier) t = trojan_handshake verifier t"

section \<open>Specification\<close>

text \<open>The request a protocol sends for a target, and the replies that open the tunnel.\<close>

fun request_of :: "outbound_protocol \<Rightarrow> target \<Rightarrow> bytes" where
  "request_of Socks5Protocol t =
     [0x05, 0x01, 0x00] @ [0x05, 0x01, 0x00] @ wire_host (t_host t) @ u16_to_be (t_port t)"
| "request_of HttpConnectProtocol t = as_bytes (connect_request t)"
| "request_of (TrojanProtocol v) t =
     verifier_bytes v @ CRLF @ [TROJAN_CONNECT] @ wire_target t @ CRLF"

definition bound_address :: "u8 \<Rightarrow> bytes \<Rightarrow> bool" where
  "bound_address atyp addr \<longleftrightarrow>
     atyp = 0x01 \<and> length addr = 4 \<or> atyp = 0x04 \<and> length addr = 16 \<or>
     atyp = 0x03 \<and> addr \<noteq> [] \<and> length addr = Suc (unat (hd addr))"

fun accepts :: "outbound_protocol \<Rightarrow> bytes \<Rightarrow> bool" where
  "accepts Socks5Protocol r = (\<exists>atyp addr port. r = [0x05, 0x00, 0x05, 0x00, 0x00, atyp] @ addr @ port \<and>
     bound_address atyp addr \<and> length port = 2)"
| "accepts HttpConnectProtocol r =
     (ends_head r \<and> length r \<le> MAX_HTTP_RESPONSE_HEAD \<and>
      (\<forall>k < length r. \<not> ends_head (take k r)) \<and> check_http_status r = Ok ())"
| "accepts (TrojanProtocol _) r = (r = [])"

section \<open>Lemmas\<close>

interpretation socks_host: address_encoder encode_socks_address
proof
  show "encode_socks_address buf h = Ok out \<longleftrightarrow> encodable h \<and> out = buf @ wire_host h" for buf h out
    by (cases h rule: wire_host.cases) (auto simp: encode_socks_address_def)
qed

lemma discard_Ok:
  assumes "discard_socks_address atyp s = (Ok (), s')"
  shows "\<exists>addr. bound_address atyp addr \<and> pending s = addr @ pending s' \<and> out_bytes s' = out_bytes s"
proof -
  consider (a) bs where "atyp = 1" "read_exact 4 s = (Ok bs, s')"
    | (b) bs where "atyp = 4" "read_exact 16 s = (Ok bs, s')"
    | (c) n bs s1 where "atyp = 3" "read_exact 1 s = (Ok n, s1)" "read_exact (unat (n ! 0)) s1 = (Ok bs, s')"
    using assms by (auto simp: discard_socks_address_def bindIO_eq_Ok split: if_split_asm)
  then show ?thesis
  proof cases
    case a
    then show ?thesis using read_exact_Ok [OF a(2)] by (auto simp: bound_address_def)
  next
    case b
    then show ?thesis using read_exact_Ok [OF b(2)] by (auto simp: bound_address_def)
  next
    case c
    note n = read_exact_Ok [OF c(2)] and bs = read_exact_Ok [OF c(3)]
    obtain x where "n = [x]" using n(2) by (auto simp: length_Suc_conv)
    with c n bs show ?thesis
      by (intro exI [of _ "n @ bs"]) (auto simp: bound_address_def)
  qed
qed

lemma list4: "length xs = 4 \<Longrightarrow> xs = [xs ! 0, xs ! 1, xs ! 2, xs ! 3]"
  by (auto simp: numeral_eq_Suc length_Suc_conv)

lemma socks5_handshake_Ok:
  assumes "socks5_handshake t s = (Ok (), s')"
  shows "out_bytes s' = out_bytes s @ request_of Socks5Protocol t \<and>
    (\<exists>r. accepts Socks5Protocol r \<and> pending s = r @ pending s')"
proof -
  obtain s1 s2 req s3 reply s4 s5 port where
    1: "write_all [0x05, 0x01, 0x00] s = (Ok (), s1)" and
    2: "read_exact 2 s1 = (Ok [0x05, 0x00], s2)" and
    3: "encode_socks_address [0x05, 0x01, 0x00] (t_host t) = Ok req" and
    4: "write_all (req @ u16_to_be (t_port t)) s2 = (Ok (), s3)" and
    5: "read_exact 4 s3 = (Ok reply, s4)" and
    6: "reply ! 0 = 0x05" "reply ! 1 = 0x00" "reply ! 2 = 0x00" and
    7: "discard_socks_address (reply ! 3) s4 = (Ok (), s5)" and
    8: "read_exact 2 s5 = (Ok port, s')"
    using assms by (auto simp: socks5_handshake_def bindIO_eq_Ok split: if_split_asm)
  obtain addr where a: "bound_address (reply ! 3) addr" "pending s4 = addr @ pending s5" "out_bytes s5 = out_bytes s4"
    using discard_Ok [OF 7] by blast
  note w1 = write_all_Ok [OF 1] and r2 = read_exact_Ok [OF 2] and w4 = write_all_Ok [OF 4]
    and r5 = read_exact_Ok [OF 5] and r8 = read_exact_Ok [OF 8]
  have req: "req = [0x05, 0x01, 0x00] @ wire_host (t_host t)"
    using 3 by (simp add: socks_host.encode_iff)
  have reply: "reply = [0x05, 0x00, 0x00, reply ! 3]"
    using list4 [OF r5(2)] 6 by simp
  have "pending s = ([0x05, 0x00] @ reply @ addr @ port) @ pending s'"
    using w1 r2 w4 r5 a r8 by simp
  moreover have "accepts Socks5Protocol ([0x05, 0x00] @ reply @ addr @ port)"
    using reply a(1) r8(2)
    by (metis (no_types, lifting) accepts.simps(1) append.assoc append_Cons append_Nil)
  moreover have "out_bytes s' = out_bytes s @ request_of Socks5Protocol t"
    using w1 r2 w4 r5 a r8 req by simp
  ultimately show ?thesis by blast
qed

lemma read_head_Ok:
  assumes "read_http_response_head head s = (Ok r, s')"
    and "length head \<le> MAX_HTTP_RESPONSE_HEAD" "\<forall>k < length head. \<not> ends_head (take k head)"
  shows "\<exists>more. r = head @ more \<and> pending s = more @ pending s' \<and> out_bytes s' = out_bytes s \<and>
    ends_head r \<and> length r \<le> MAX_HTTP_RESPONSE_HEAD \<and> (\<forall>k < length r. \<not> ends_head (take k r))"
  using assms
proof (induction head s rule: read_http_response_head.induct)
  case (1 head s)
  show ?case
  proof (cases "ends_head head")
    case True
    with 1 show ?thesis by (subst (asm) (2) read_http_response_head.simps) auto
  next
    case False
    with "1.prems"(1) have room: "length head < MAX_HTTP_RESPONSE_HEAD"
      by (subst (asm) read_http_response_head.simps) (auto split: if_splits)
    obtain byte s1 where b: "read_exact 1 s = (Ok byte, s1)"
      using "1.prems"(1) False room
      by (cases "read_exact 1 s"; cases "fst (read_exact 1 s)")
        (auto simp: read_http_response_head.simps [of head s])
    have rest: "read_http_response_head (head @ [byte ! 0]) s1 = (Ok r, s')"
      using "1.prems"(1) False room b by (simp add: read_http_response_head.simps [of head s])
    note r = read_exact_Ok [OF b]
    have byte: "byte = [byte ! 0]" using r(2) by (cases byte) auto
    have ends: "\<forall>k < length (head @ [byte ! 0]). \<not> ends_head (take k (head @ [byte ! 0]))"
      using "1.prems"(3) False by (auto simp: less_Suc_eq)
    obtain more where "r = (head @ [byte ! 0]) @ more" "pending s1 = more @ pending s'"
      "out_bytes s' = out_bytes s1" "ends_head r" "length r \<le> MAX_HTTP_RESPONSE_HEAD"
      "\<forall>k < length r. \<not> ends_head (take k r)"
      using "1.IH" [OF False _ b [symmetric] refl rest _ ends] room by auto
    with r byte show ?thesis by (intro exI [of _ "byte @ more"]) auto
  qed
qed

lemma http_handshake_Ok:
  assumes "http_connect_handshake t s = (Ok (), s')"
  shows "out_bytes s' = out_bytes s @ request_of HttpConnectProtocol t \<and>
    (\<exists>r. accepts HttpConnectProtocol r \<and> pending s = r @ pending s')"
proof -
  obtain s1 r where w: "write_all (as_bytes (connect_request t)) s = (Ok (), s1)"
    and h: "read_http_response_head [] s1 = (Ok r, s')" and c: "check_http_status r = Ok ()"
    using assms by (auto simp: http_connect_handshake_def bindIO_eq_Ok)
  have "pending s1 = r @ pending s' \<and> out_bytes s' = out_bytes s1 \<and> ends_head r \<and>
      length r \<le> MAX_HTTP_RESPONSE_HEAD \<and> (\<forall>k < length r. \<not> ends_head (take k r))"
    using read_head_Ok [OF h] by auto
  with c write_all_Ok [OF w] show ?thesis by auto
qed

lemma trojan_handshake_Ok:
  assumes "trojan_handshake v t s = (Ok (), s')"
  shows "out_bytes s' = out_bytes s @ request_of (TrojanProtocol v) t \<and> pending s = pending s'"
proof -
  obtain req where "encode_connect_request v t = Ok req" "write_all req s = (Ok (), s')"
    using assms by (auto simp: trojan_handshake_def bindIO_eq_Ok)
  with write_all_Ok [OF this(2)] show ?thesis
    by (auto simp: encode_connect_request_def encode_target_Ok_iff)
qed

lemma handshake_sound:
  assumes "handshake_stream p t s = (Ok (), s')"
  shows "out_bytes s' = out_bytes s @ request_of p t \<and>
    (\<exists>r. accepts p r \<and> pending s = r @ pending s')"
  using assms socks5_handshake_Ok http_handshake_Ok trojan_handshake_Ok
  by (cases p) (simp_all del: request_of.simps accepts.simps(1,2))

section \<open>Properties\<close>

text \<open>
  Property C27: a successful outbound handshake of any protocol has written exactly the protocol's
  request for the target and consumed exactly one acceptable reply of the peer, however the reply
  was segmented: the first tunnel byte is still unread.
\<close>

theorem handshake_leaves_tunnel_intact:
  assumes "handshake_stream p t s = (Ok (), s')"
  shows "out_bytes s' = out_bytes s @ request_of p t \<and>
    (\<exists>r. accepts p r \<and> pending s = r @ pending s')"
  using assms by (rule handshake_sound)

theorem handshake_leaves_tunnel_intact_witness:
  "\<exists>s'. handshake_stream Socks5Protocol \<lparr>t_host = HDomain ''a'', t_port = 80\<rparr>
      (sample_stream [[5], [0, 5, 0, 0, 1], [0, 0, 0, 0, 0, 0, 42]]) = (Ok (), s') \<and>
    out_bytes s' = [5, 1, 0, 5, 1, 0, 3, 1, 97, 0, 80] \<and> pending s' = [42]"
proof -
  let ?t = "\<lparr>t_host = HDomain ''a'', t_port = 80\<rparr>"
  let ?s = "sample_stream [[5], [0, 5, 0, 0, 1], [0, 0, 0, 0, 0, 0, 42]]"
  have "is_ok (fst (handshake_stream Socks5Protocol ?t ?s)) \<and>
      pending (snd (handshake_stream Socks5Protocol ?t ?s)) = [42]" by code_simp
  then obtain s' where s': "handshake_stream Socks5Protocol ?t ?s = (Ok (), s')" "pending s' = [42]"
    by (cases "handshake_stream Socks5Protocol ?t ?s") (auto simp: is_ok_iff)
  moreover have "out_bytes ?s @ request_of Socks5Protocol ?t = [5, 1, 0, 5, 1, 0, 3, 1, 97, 0, 80]"
    by code_simp
  ultimately show ?thesis using handshake_leaves_tunnel_intact [OF s'(1)] by metis
qed

end
