(* ===== verification/Outbound.thy ===== *)
theory Outbound
  imports Protocol
begin

text \<open>
  \<open>crates/daemon/src/outbound.rs\<close> with the capability data of \<open>crates/transport\<close>: the
  registry of proxy endpoints, what each can carry, and the single place that opens a TCP session
  or a datagram path for the endpoint a plan selected. Connecting a transport and opening a
  datagram path are parameters.
\<close>

section \<open>Transports\<close>

definition DEFAULT_CONNECT_TIMEOUT :: duration where
  "DEFAULT_CONNECT_TIMEOUT = from_secs 10"

definition DEFAULT_HANDSHAKE_TIMEOUT :: duration where
  "DEFAULT_HANDSHAKE_TIMEOUT = from_secs 10"

record transport_capabilities =
  reliable_stream :: bool
  carries_datagram :: bool
  encrypted :: bool

record tcp_transport =
  tcp_address :: socket_addr
  tcp_connect_timeout :: duration
  tcp_handshake_timeout :: duration

definition tcp_transport_new :: "socket_addr \<Rightarrow> tcp_transport" where
  "tcp_transport_new a =
     \<lparr>tcp_address = a, tcp_connect_timeout = DEFAULT_CONNECT_TIMEOUT,
      tcp_handshake_timeout = DEFAULT_HANDSHAKE_TIMEOUT\<rparr>"

definition tcp_transport_with_timeouts ::
  "socket_addr \<Rightarrow> duration \<Rightarrow> duration \<Rightarrow> (tcp_transport, error_kind) result" where
  "tcp_transport_with_timeouts a ct ht =
     (if ct = 0 \<or> ht = 0 then Err InvalidInput
      else Ok \<lparr>tcp_address = a, tcp_connect_timeout = ct, tcp_handshake_timeout = ht\<rparr>)"

record tls_transport =
  tls_tcp :: tcp_transport
  tls_server_name :: str

datatype transport_config = TcpConfig tcp_transport | TlsConfig tls_transport

fun transport_caps :: "transport_config \<Rightarrow> transport_capabilities" where
  "transport_caps (TcpConfig _) = \<lparr>reliable_stream = True, carries_datagram = False, encrypted = False\<rparr>"
| "transport_caps (TlsConfig _) = \<lparr>reliable_stream = True, carries_datagram = False, encrypted = True\<rparr>"

fun is_tls :: "transport_config \<Rightarrow> bool" where
  "is_tls (TlsConfig _) = True"
| "is_tls (TcpConfig _) = False"

section \<open>The registry\<close>

record 'd proxy_endpoint_config =
  pe_id :: endpoint_id
  pe_protocol :: outbound_protocol
  pe_datagram :: "'d option"
  pe_transport :: transport_config

record endpoint_capabilities =
  cap_tcp :: bool
  cap_udp :: bool
  cap_encrypted :: bool

record 'd outbound_registry =
  endpoints :: "(endpoint_id, 'd proxy_endpoint_config) hashmap"

fun registry_loop ::
  "'d proxy_endpoint_config list \<Rightarrow> (endpoint_id, 'd proxy_endpoint_config) hashmap
    \<Rightarrow> ((endpoint_id, 'd proxy_endpoint_config) hashmap, error_kind) result" where
  "registry_loop [] registry = Ok registry"
| "registry_loop (endpoint # rest) registry =
     (if requires_tls (protocol_caps (pe_protocol endpoint)) \<and> \<not> is_tls (pe_transport endpoint)
      then Err InvalidInput
      else if hm_contains registry (pe_id endpoint) then Err InvalidInput
      else registry_loop rest (hm_insert (pe_id endpoint) endpoint registry))"

definition registry_new ::
  "'d proxy_endpoint_config list \<Rightarrow> ('d outbound_registry, error_kind) result" where
  "registry_new es = bindR (registry_loop es []) (\<lambda>registry. Ok \<lparr>endpoints = registry\<rparr>)"

definition registry_len :: "'d outbound_registry \<Rightarrow> nat" where
  "registry_len r = length (endpoints r)"

definition registry_contains :: "'d outbound_registry \<Rightarrow> endpoint_id \<Rightarrow> bool" where
  "registry_contains r i = hm_contains (endpoints r) i"

definition endpoint_caps :: "'d outbound_registry \<Rightarrow> endpoint \<Rightarrow> endpoint_capabilities option" where
  "endpoint_caps r e =
     (case e of
        Direct \<Rightarrow> Some \<lparr>cap_tcp = True, cap_udp = True, cap_encrypted = False\<rparr>
      | Proxy i \<Rightarrow>
          map_option (\<lambda>config.
            let transport = transport_caps (pe_transport config);
                protocol = protocol_caps (pe_protocol config)
            in \<lparr>cap_tcp = stream_connect protocol \<and> reliable_stream transport,
                cap_udp = (pe_datagram config \<noteq> None),
                cap_encrypted = encrypted transport\<rparr>)
            (hm_get (endpoints r) i))"

text \<open>\<open>connect\<close> is \<open>TransportConfig::connect\<close>, which the transports provide.\<close>

definition connect_tcp ::
  "'w net_os \<Rightarrow> (transport_config \<Rightarrow> 'w \<Rightarrow> (stream, error_kind) result \<times> 'w)
    \<Rightarrow> 'd outbound_registry \<Rightarrow> endpoint \<Rightarrow> target \<Rightarrow> 'w dns_engine \<Rightarrow> 'w
    \<Rightarrow> (stream, error_kind) result \<times> 'w dns_engine \<times> 'w" where
  "connect_tcp os connect r e t dns w =
     (if \<not> (case endpoint_caps r e of None \<Rightarrow> False | Some c \<Rightarrow> cap_tcp c)
      then (Err UnsupportedKind, dns, w)
      else (case e of
          Direct \<Rightarrow> connect_direct os t dns w
        | Proxy i \<Rightarrow>
            (case hm_get (endpoints r) i of
               None \<Rightarrow> (Err NotFound, dns, w)
             | Some config \<Rightarrow>
                 (case connect (pe_transport config) w of
                    (Err k, w') \<Rightarrow> (Err k, dns, w')
                  | (Ok session, w') \<Rightarrow>
                      (case handshake_stream (pe_protocol config) t session of
                         (Err k, _) \<Rightarrow> (Err k, dns, w')
                       | (Ok _, session) \<Rightarrow> (Ok session, dns, w'))))))"

text \<open>
  \<open>open_direct\<close> is \<open>DirectDatagramAssociation::new\<close>, \<open>open_provider\<close> the
  \<open>open\<close> of the provider attached to an endpoint.
\<close>

definition open_datagram ::
  "('w \<Rightarrow> (('x, error_kind) result \<times> 'w) option) \<Rightarrow> ('d \<Rightarrow> 'w \<Rightarrow> (('x, error_kind) result \<times> 'w) option)
    \<Rightarrow> 'd outbound_registry \<Rightarrow> endpoint \<Rightarrow> 'w \<Rightarrow> (('x, error_kind) result \<times> 'w) option" where
  "open_datagram open_direct open_provider r e w =
     (case e of
        Direct \<Rightarrow> open_direct w
      | Proxy i \<Rightarrow>
          (case hm_get (endpoints r) i of
             None \<Rightarrow> Some (Err NotFound, w)
           | Some config \<Rightarrow>
               (case pe_datagram config of
                  None \<Rightarrow> Some (Err UnsupportedKind, w)
                | Some provider \<Rightarrow> open_provider provider w)))"

section \<open>Lemmas\<close>

lemma registry_loop_spec:
  assumes "registry_loop es m = Ok m'" "wf_map m"
  shows "wf_map m' \<and> (\<forall>i. hm_get m' i =
      (case List.find (\<lambda>e. pe_id e = i) es of Some e \<Rightarrow> Some e | None \<Rightarrow> hm_get m i)) \<and>
    (\<forall>e \<in> set es. requires_tls (protocol_caps (pe_protocol e)) \<longrightarrow> is_tls (pe_transport e)) \<and>
    distinct (map pe_id es) \<and> (\<forall>e \<in> set es. hm_get m (pe_id e) = None)"
  using assms
proof (induction es arbitrary: m)
  case Nil
  then show ?case by simp
next
  case (Cons e es)
  then have new: "hm_get m (pe_id e) = None"
    and tls: "requires_tls (protocol_caps (pe_protocol e)) \<longrightarrow> is_tls (pe_transport e)"
    and rest: "registry_loop es (hm_insert (pe_id e) e m) = Ok m'"
    by (auto simp: hm_contains_def split: if_splits)
  note IH = Cons.IH [OF rest wf_map_insert [OF Cons.prems(2)]]
  then have fresh: "\<forall>x \<in> set es. pe_id x \<noteq> pe_id e \<and> hm_get m (pe_id x) = None"
    by (auto split: if_splits)
  then have "List.find (\<lambda>x. pe_id x = pe_id e) es = None" by (auto simp: find_None_iff)
  with IH new tls fresh show ?case by (auto split: option.splits)
qed

section \<open>Properties\<close>

text \<open>
  A registry that was accepted holds exactly the endpoints it was given, each under
  its own id and no id twice, and every endpoint whose protocol needs encryption runs over TLS.
\<close>

theorem registry_holds_given_endpoints:
  assumes "registry_new es = Ok r"
  shows "distinct (map pe_id es) \<and>
    (\<forall>i. hm_get (endpoints r) i = List.find (\<lambda>e. pe_id e = i) es) \<and>
    (\<forall>i e. hm_get (endpoints r) i = Some e \<longrightarrow> requires_tls (protocol_caps (pe_protocol e)) \<longrightarrow>
       (\<exists>c. endpoint_caps r (Proxy i) = Some c \<and> cap_encrypted c))"
proof -
  have l: "registry_loop es [] = Ok (endpoints r)"
    using assms by (auto simp: registry_new_def)
  note spec = registry_loop_spec [OF l wf_map_Nil]
  then have found: "\<forall>i. hm_get (endpoints r) i = List.find (\<lambda>e. pe_id e = i) es"
    by (auto split: option.splits)
  have tls: "is_tls c \<Longrightarrow> encrypted (transport_caps c)" for c by (cases c) auto
  have "\<exists>c. endpoint_caps r (Proxy i) = Some c \<and> cap_encrypted c"
    if e: "hm_get (endpoints r) i = Some e" "requires_tls (protocol_caps (pe_protocol e))" for i e
  proof -
    have "e \<in> set es" using e(1) found by (auto simp: find_Some_iff)
    then have "encrypted (transport_caps (pe_transport e))" using spec e(2) tls by blast
    with e(1) show ?thesis by (simp add: endpoint_caps_def Let_def)
  qed
  with spec found show ?thesis by blast
qed

theorem registry_holds_given_endpoints_witness:
  "\<exists>r. registry_new [\<lparr>pe_id = EndpointId ''a'', pe_protocol = Socks5Protocol, pe_datagram = (None :: unit option),
       pe_transport = TcpConfig (tcp_transport_new (SockV4 1 1080))\<rparr>] = Ok r \<and>
     hm_get (endpoints r) (EndpointId ''b'') = None"
proof -
  let ?e = "\<lparr>pe_id = EndpointId ''a'', pe_protocol = Socks5Protocol, pe_datagram = (None :: unit option),
       pe_transport = TcpConfig (tcp_transport_new (SockV4 1 1080))\<rparr>"
  have r: "registry_new [?e] = Ok \<lparr>endpoints = [(EndpointId ''a'', ?e)]\<rparr>" by code_simp
  from registry_holds_given_endpoints [OF r] r show ?thesis by auto
qed

text \<open>
  Property C24: traffic planned for a proxy is never sent elsewhere. If opening a TCP session for a
  proxy endpoint succeeds, the session was opened over that endpoint's own transport, the endpoint's
  handshake for exactly this target succeeded on it, and the direct path was not used (the DNS
  engine is untouched); an unregistered endpoint is refused before any connection.
\<close>

theorem proxy_route_never_falls_back:
  "case connect_tcp os connect r (Proxy i) t dns w of
      (Err k, dns', w') \<Rightarrow> dns' = dns \<and> (hm_get (endpoints r) i = None \<longrightarrow> w' = w)
    | (Ok s, dns', w') \<Rightarrow> dns' = dns \<and>
        (\<exists>c s0 rep. hm_get (endpoints r) i = Some c \<and> connect (pe_transport c) w = (Ok s0, w') \<and>
          handshake_stream (pe_protocol c) t s0 = (Ok (), s) \<and>
          out_bytes s = out_bytes s0 @ request_of (pe_protocol c) t \<and>
          accepts (pe_protocol c) rep \<and> pending s0 = rep @ pending s)"
proof (cases "hm_get (endpoints r) i")
  case None
  then show ?thesis by (simp add: connect_tcp_def endpoint_caps_def)
next
  case (Some c)
  have "cap_tcp (the (endpoint_caps r (Proxy i)))"
    using Some by (cases "pe_protocol c"; cases "pe_transport c") (auto simp: endpoint_caps_def)
  then have step: "connect_tcp os connect r (Proxy i) t dns w =
      (case connect (pe_transport c) w of
         (Err k, w') \<Rightarrow> (Err k, dns, w')
       | (Ok session, w') \<Rightarrow>
           (case handshake_stream (pe_protocol c) t session of
              (Err k, _) \<Rightarrow> (Err k, dns, w')
            | (Ok _, session) \<Rightarrow> (Ok session, dns, w')))"
    using Some by (simp add: connect_tcp_def endpoint_caps_def Let_def)
  show ?thesis
    unfolding step using Some handshake_sound [of "pe_protocol c" t]
    by (fastforce split: prod.splits result.splits)
qed

theorem proxy_route_never_falls_back_witness:
  "\<exists>w'. connect_tcp (sample_os []) (\<lambda>_ w. (Ok (sample_stream []), w)) (\<lparr>endpoints = []\<rparr> :: unit outbound_registry)
      (Proxy (EndpointId ''a'')) \<lparr>t_host = HIp (V4 1), t_port = 80\<rparr> sample_engine ()
      = (Err UnsupportedKind, sample_engine, w') \<and> w' = ()"
proof -
  let ?r = "\<lparr>endpoints = []\<rparr> :: unit outbound_registry" and ?t = "\<lparr>t_host = HIp (V4 1), t_port = 80\<rparr>"
  let ?c = "connect_tcp (sample_os []) (\<lambda>_ w. (Ok (sample_stream []), w)) ?r (Proxy (EndpointId ''a'')) ?t sample_engine ()"
  have "fst ?c = Err UnsupportedKind" by (simp add: connect_tcp_def endpoint_caps_def)
  moreover have "case ?c of (Err k, dns', w') \<Rightarrow> dns' = sample_engine | _ \<Rightarrow> True"
    using proxy_route_never_falls_back [where os = "sample_os []" and connect = "\<lambda>_ w. (Ok (sample_stream []), w)"
        and r = ?r and i = "EndpointId ''a''" and t = ?t and dns = sample_engine and w = "()"]
    by (auto split: prod.splits result.splits)
  ultimately show ?thesis by (cases ?c) auto
qed

end
