(* ===== verification/Socks5.thy ===== *)
theory Socks5
  imports Outbound
begin

text \<open>
  The TCP side of \<open>crates/daemon/src/socks5.rs\<close> and its UDP packet codec: method
  negotiation, requests, replies, and CONNECT through policy and outbound registry. Relaying an
  open tunnel and the local address of a session are parameters, as are the socket options.
\<close>

section \<open>Definitions\<close>

definition VERSION :: u8 where "VERSION = 0x05"
definition METHOD_NO_AUTH :: u8 where "METHOD_NO_AUTH = 0x00"
definition METHOD_UNACCEPTABLE :: u8 where "METHOD_UNACCEPTABLE = 0xff"
definition COMMAND_CONNECT :: u8 where "COMMAND_CONNECT = 0x01"
definition COMMAND_UDP_ASSOCIATE :: u8 where "COMMAND_UDP_ASSOCIATE = 0x03"

record udp_client_hint =
  hint_ip :: "ip_addr option"
  hint_port :: "u16 option"

datatype socks_request = Connect target | UdpAssociate udp_client_hint

definition negotiate_method :: "unit io" where
  "negotiate_method =
     bindIO (read_exact 2) (\<lambda>header.
     if header ! 0 \<noteq> VERSION \<or> header ! 1 = 0 then failIO InvalidData
     else
     bindIO (read_exact (unat (header ! 1))) (\<lambda>methods.
     if METHOD_NO_AUTH \<in> set methods then write_all [VERSION, METHOD_NO_AUTH]
     else bindIO (write_all [VERSION, METHOD_UNACCEPTABLE]) (\<lambda>_. failIO PermissionDenied)))"

definition write_reply :: "u8 \<Rightarrow> socket_addr option \<Rightarrow> unit io" where
  "write_reply reply_code address =
     (case (case address of None \<Rightarrow> SockV4 0 0 | Some a \<Rightarrow> a) of
        SockV4 ip port \<Rightarrow> write_all ([VERSION, reply_code, 0x00, 0x01] @ v4_octets ip @ u16_to_be port)
      | SockV6 ip port _ _ \<Rightarrow> write_all ([VERSION, reply_code, 0x00, 0x04] @ v6_octets ip @ u16_to_be port))"

definition socks_domain :: "bytes \<Rightarrow> (destination_host, error_kind) result" where
  "socks_domain bs =
     bindR (ok_or InvalidData (from_utf8 bs)) (\<lambda>text.
     let domain = to_ascii_lowercase (trim_end_matches (CHR ''.'') text)
     in if domain = [] then Err InvalidData else Ok (HDomain domain))"

definition read_host :: "u8 \<Rightarrow> destination_host io" where
  "read_host address_type =
     (if address_type = 0x01 then
        bindIO (read_exact 4) (\<lambda>bs. returnIO (HIp (V4 (v4_from_octets bs))))
      else if address_type = 0x03 then
        bindIO (read_exact 1) (\<lambda>len.
        let len = unat (len ! 0)
        in if len = 0 \<or> 253 < len then failIO InvalidData
           else bindIO (read_exact len) (\<lambda>bs. liftIO (socks_domain bs)))
      else if address_type = 0x04 then
        bindIO (read_exact 16) (\<lambda>bs. returnIO (HIp (V6 (v6_from_octets bs))))
      else failIO InvalidData)"

definition read_address :: "u8 \<Rightarrow> (destination_host \<times> u16) io" where
  "read_address address_type =
     bindIO (read_host address_type) (\<lambda>host.
     bindIO (read_exact 2) (\<lambda>port. returnIO (host, u16_from_be port)))"

definition read_request :: "socks_request io" where
  "read_request =
     bindIO (read_exact 4) (\<lambda>header.
     if header ! 0 \<noteq> VERSION \<or> header ! 2 \<noteq> 0 then failIO InvalidData
     else
     bindIO (read_address (header ! 3)) (\<lambda>(host, port).
     if header ! 1 = COMMAND_CONNECT then
       bindIO (liftIO (target_new host port)) (\<lambda>t. returnIO (Connect t))
     else if header ! 1 = COMMAND_UDP_ASSOCIATE then
       returnIO (UdpAssociate
         \<lparr>hint_ip = (case host of
                       HIp address \<Rightarrow> if \<not> ip_is_unspecified address then Some address else None
                     | _ \<Rightarrow> None),
          hint_port = (if port \<noteq> 0 then Some port else None)\<rparr>)
     else bindIO (write_reply 0x07 None) (\<lambda>_. failIO UnsupportedKind)))"

fun connect_error_code :: "error_kind \<Rightarrow> u8" where
  "connect_error_code ConnectionRefused = 0x05"
| "connect_error_code TimedOut = 0x04"
| "connect_error_code PermissionDenied = 0x02"
| "connect_error_code NotFound = 0x04"
| "connect_error_code AddrNotAvailable = 0x04"
| "connect_error_code UnsupportedKind = 0x07"
| "connect_error_code _ = 0x01"

text \<open>
  What the handlers of one daemon share: the runtime and registry they are given, the DNS engine
  and the flow counter they change, and the operations of the environment; \<open>sv_option\<close> sets an
  option of the client's connection.
\<close>

record ('w, 'd) services =
  sv_os :: "'w net_os"
  sv_connect :: "transport_config \<Rightarrow> 'w \<Rightarrow> (stream, error_kind) result \<times> 'w"
  sv_local_addr :: "stream \<Rightarrow> socket_addr option"
  sv_option :: "socket_option \<Rightarrow> 'w \<Rightarrow> (unit, error_kind) result \<times> 'w"
  sv_relay :: "stream \<Rightarrow> stream \<Rightarrow> 'w \<Rightarrow> (unit, error_kind) result \<times> 'w"
  sv_runtime :: runtime
  sv_outbounds :: "'d outbound_registry"

record 'w shared =
  sh_dns :: "'w dns_engine"
  sh_next_flow_id :: u64

text \<open>Which session was opened, if any: the trace of what a handler did with the target.\<close>

datatype outcome = Refused | Opened endpoint stream

definition HANDSHAKE_TIMEOUT :: duration where "HANDSHAKE_TIMEOUT = from_secs 10"

definition client_timeouts ::
  "('w, 'd) services \<Rightarrow> duration option \<Rightarrow> 'w \<Rightarrow> (unit, error_kind) result \<times> 'w" where
  "client_timeouts sv timeout w =
     set_options (\<lambda>_. sv_option sv) [((), SetReadTimeout timeout), ((), SetWriteTimeout timeout)] w"

definition handle_connect ::
  "('w, 'd) services \<Rightarrow> target \<Rightarrow> stream \<Rightarrow> 'w shared \<Rightarrow> 'w
    \<Rightarrow> (unit, error_kind) result \<times> outcome \<times> stream \<times> 'w shared \<times> 'w" where
  "handle_connect sv t client sh w =
     (let (action, next_id) = plan_action (sv_runtime sv) t Tcp (sh_next_flow_id sh);
          sh = sh\<lparr>sh_next_flow_id := next_id\<rparr>
      in case action of
           EReject _ \<Rightarrow>
             (let (r, client) = write_reply 0x02 None client in (r, Refused, client, sh, w))
         | ERoute e \<Rightarrow>
             (case connect_tcp (sv_os sv) (sv_connect sv) (sv_outbounds sv) e t (sh_dns sh) w of
                (Err k, dns, w) \<Rightarrow>
                  (let (_, client) = write_reply (connect_error_code k) None client
                   in (Err k, Refused, client, sh\<lparr>sh_dns := dns\<rparr>, w))
              | (Ok remote, dns, w) \<Rightarrow>
                  (case write_reply 0x00 (sv_local_addr sv remote) client of
                     (Err k, client) \<Rightarrow> (Err k, Opened e remote, client, sh\<lparr>sh_dns := dns\<rparr>, w)
                   | (Ok _, client) \<Rightarrow>
                       (case client_timeouts sv None w of
                          (Err k, w) \<Rightarrow> (Err k, Opened e remote, client, sh\<lparr>sh_dns := dns\<rparr>, w)
                        | (Ok _, w) \<Rightarrow>
                            (let (r, w) = sv_relay sv remote client w
                             in (r, Opened e remote, client, sh\<lparr>sh_dns := dns\<rparr>, w))))))"

section \<open>UDP packets\<close>

definition parse_udp_host :: "bytes \<Rightarrow> u8 \<Rightarrow> (destination_host \<times> nat, error_kind) result" where
  "parse_udp_host packet address_type =
     (if address_type = 0x01 then
        bindR (ok_or InvalidData (get_range packet 4 8)) (\<lambda>bs.
        Ok (HIp (V4 (v4_from_octets bs)), 8))
      else if address_type = 0x03 then
        bindR (ok_or InvalidData (get packet 4)) (\<lambda>len.
        if unat len = 0 \<or> 253 < unat len then Err InvalidData
        else
        bindR (ok_or InvalidData (get_range packet 5 (5 + unat len))) (\<lambda>bs.
        bindR (socks_domain bs) (\<lambda>host. Ok (host, 5 + unat len))))
      else if address_type = 0x04 then
        bindR (ok_or InvalidData (get_range packet 4 20)) (\<lambda>bs.
        Ok (HIp (V6 (v6_from_octets bs)), 20))
      else Err InvalidData)"

definition parse_udp_request :: "bytes \<Rightarrow> (target \<times> bytes, error_kind) result" where
  "parse_udp_request packet =
     (if length packet < 4 \<or> packet ! 0 \<noteq> 0 \<or> packet ! 1 \<noteq> 0 then Err InvalidData
      else if packet ! 2 \<noteq> 0 then Err UnsupportedKind
      else
        bindR (parse_udp_host packet (packet ! 3)) (\<lambda>(host, offset).
        bindR (ok_or InvalidData (get_range packet offset (offset + 2))) (\<lambda>port_bytes.
        bindR (target_new host (u16_from_be port_bytes)) (\<lambda>t.
        Ok (t, drop (offset + 2) packet)))))"

definition encode_response_host :: "bytes \<Rightarrow> destination_host \<Rightarrow> (bytes, error_kind) result" where
  "encode_response_host response host =
     (case host of
        HIp (V4 address) \<Rightarrow> Ok (response @ [0x01] @ v4_octets address)
      | HIp (V6 address) \<Rightarrow> Ok (response @ [0x04] @ v6_octets address)
      | HDomain domain \<Rightarrow>
          if 255 < length domain then Err InvalidData
          else if length domain = 0 then Err InvalidData
          else Ok (response @ [0x03] @ [of_nat (length domain)] @ as_bytes domain))"

definition encode_udp_response :: "target \<Rightarrow> bytes \<Rightarrow> (bytes, error_kind) result" where
  "encode_udp_response source payload =
     bindR (encode_response_host [0x00, 0x00, 0x00] (t_host source)) (\<lambda>response.
     Ok (response @ u16_to_be (t_port source) @ payload))"

section \<open>Lemmas\<close>

interpretation socks_udp_host: address_encoder encode_response_host
proof
  show "encode_response_host buf h = Ok out \<longleftrightarrow> encodable h \<and> out = buf @ wire_host h" for buf h out
    by (cases h rule: wire_host.cases) (auto simp: encode_response_host_def)
qed

text \<open>The hosts a SOCKS5 request can name: a domain in lower case without a final dot.\<close>

fun nameable :: "destination_host \<Rightarrow> bool" where
  "nameable (HDomain d) = (d \<noteq> [] \<and> length d \<le> 253 \<and> utf8_str d \<and> to_ascii_lowercase d = d \<and> last d \<noteq> CHR ''.'')"
| "nameable (HIp _) = True"

lemma socks_domain_self:
  "nameable (HDomain d) \<Longrightarrow> socks_domain (as_bytes d) = Ok (HDomain d)"
  by (simp add: socks_domain_def from_utf8_utf8_str trim_end_matches_id)

lemma read_exact_prefix:
  assumes "pending s = bs @ rest" "n = length bs"
  shows "\<exists>segs. read_exact n s = (Ok bs, s\<lparr>in_segs := segs\<rparr>) \<and> concat segs = rest"
  using read_exact_enough [of n s] assms by auto

lemma read_host_wire:
  assumes "nameable h" "pending s = tl (wire_host h) @ rest"
  shows "\<exists>segs. read_host (hd (wire_host h)) s = (Ok h, s\<lparr>in_segs := segs\<rparr>) \<and> concat segs = rest"
proof (cases h rule: wire_host.cases)
  case (1 a)
  then show ?thesis
    using read_exact_prefix [of s "v4_octets a" rest 4] assms(2)
    by (auto simp: bindIO_def read_host_def)
next
  case (3 a)
  then show ?thesis
    using read_exact_prefix [of s "v6_octets a" rest 16] assms(2)
    by (auto simp: bindIO_def read_host_def)
next
  case (2 d)
  have d: "length d \<le> 253" "d \<noteq> []" using assms(1) 2 by auto
  have n: "unat (of_nat (length d) :: u8) = length d" using d by (intro unat_length_octet) simp
  obtain segs where 1: "read_exact 1 s = (Ok [of_nat (length d)], s\<lparr>in_segs := segs\<rparr>)"
    "concat segs = as_bytes d @ rest"
    using read_exact_prefix [of s "[of_nat (length d)]" "as_bytes d @ rest" 1] assms(2) 2 by auto
  obtain segs' where "read_exact (length d) (s\<lparr>in_segs := segs\<rparr>) = (Ok (as_bytes d), s\<lparr>in_segs := segs'\<rparr>)"
    "concat segs' = rest"
    using read_exact_prefix [of "s\<lparr>in_segs := segs\<rparr>" "as_bytes d" rest "length d"] 1(2) by auto
  with 1 2 n d assms(1) socks_domain_self show ?thesis
    by (auto simp: bindIO_def Let_def read_host_def)
qed

lemma read_address_wire:
  assumes "nameable h" "pending s = tl (wire_host h) @ u16_to_be p @ rest"
  shows "\<exists>segs. read_address (hd (wire_host h)) s = (Ok (h, p), s\<lparr>in_segs := segs\<rparr>) \<and> concat segs = rest"
proof -
  obtain segs where h: "read_host (hd (wire_host h)) s = (Ok h, s\<lparr>in_segs := segs\<rparr>)"
    and segs: "concat segs = u16_to_be p @ rest"
    using read_host_wire [OF assms] by blast
  obtain segs' where "read_exact 2 (s\<lparr>in_segs := segs\<rparr>) = (Ok (u16_to_be p), s\<lparr>in_segs := segs'\<rparr>)"
    "concat segs' = rest"
    using read_exact_prefix [of "s\<lparr>in_segs := segs\<rparr>" "u16_to_be p" rest 2] segs by auto
  with h show ?thesis by (auto simp: read_address_def bindIO_def)
qed

lemma u8_list1: "length xs = 1 \<Longrightarrow> \<exists>x. xs = [x]"
  by (cases xs) auto

lemma negotiate_no_auth:
  assumes "pending s = [0x05, 0x01, 0x00] @ rest" "2 \<le> out_budget s"
  shows "\<exists>s'. negotiate_method s = (Ok (), s') \<and> pending s' = rest \<and>
    out_bytes s' = out_bytes s @ [0x05, 0x00] \<and> out_budget s' = out_budget s - 2"
proof -
  obtain segs where 1: "read_exact 2 s = (Ok [0x05, 0x01], s\<lparr>in_segs := segs\<rparr>)" "concat segs = 0x00 # rest"
    using read_exact_prefix [of s "[0x05, 0x01]" "0x00 # rest" 2] assms(1) by auto
  obtain segs' where 2: "read_exact 1 (s\<lparr>in_segs := segs\<rparr>) = (Ok [0x00], s\<lparr>in_segs := segs'\<rparr>)" "concat segs' = rest"
    using read_exact_prefix [of "s\<lparr>in_segs := segs\<rparr>" "[0x00]" rest 1] 1(2) by auto
  have w: "write_all [VERSION, METHOD_NO_AUTH] (s\<lparr>in_segs := segs'\<rparr>) =
      (Ok (), s\<lparr>in_segs := segs', out_bytes := out_bytes s @ [VERSION, METHOD_NO_AUTH],
        out_budget := out_budget s - 2\<rparr>)"
    using assms(2) by (simp add: write_all_def)
  have "negotiate_method s = write_all [VERSION, METHOD_NO_AUTH] (s\<lparr>in_segs := segs'\<rparr>)"
    using 1(1) 2(1) by (simp add: negotiate_method_def bindIO_def VERSION_def METHOD_NO_AUTH_def)
  with w 2(2) show ?thesis by (simp add: VERSION_def METHOD_NO_AUTH_def)
qed

lemma wire_host_Cons: "wire_host h = hd (wire_host h) # tl (wire_host h)"
  by (cases h rule: wire_host.cases) auto

lemma read_request_connect:
  assumes "nameable (t_host t)" "t_port t \<noteq> 0"
    and "pending s = [0x05, 0x01, 0x00] @ wire_host (t_host t) @ u16_to_be (t_port t) @ rest"
  shows "\<exists>s'. read_request s = (Ok (Connect t), s') \<and> pending s' = rest \<and> out_bytes s' = out_bytes s \<and>
    out_budget s' = out_budget s"
proof -
  let ?h = "wire_host (t_host t)"
  have p: "pending s = [0x05, 0x01, 0x00, hd ?h] @ tl ?h @ u16_to_be (t_port t) @ rest"
    using assms(3) wire_host_Cons [of "t_host t"] by (metis append_Cons append_Nil)
  obtain segs where 1: "read_exact 4 s = (Ok [0x05, 0x01, 0x00, hd ?h], s\<lparr>in_segs := segs\<rparr>)"
    "concat segs = tl ?h @ u16_to_be (t_port t) @ rest"
    using read_exact_prefix [OF p, of 4] by auto
  obtain segs' where 2: "read_address (hd ?h) (s\<lparr>in_segs := segs\<rparr>) =
      (Ok (t_host t, t_port t), s\<lparr>in_segs := segs'\<rparr>)" "concat segs' = rest"
    using read_address_wire [OF assms(1), of "s\<lparr>in_segs := segs\<rparr>" "t_port t" rest] 1(2) by auto
  have "read_request s = (Ok (Connect t), s\<lparr>in_segs := segs'\<rparr>)"
    using 1(1) 2(1) assms(2)
    by (simp add: read_request_def bindIO_def VERSION_def COMMAND_CONNECT_def target_new_self)
  with 2(2) show ?thesis by simp
qed

text \<open>The bound address a reply carries: none is the unspecified one.\<close>

fun bound_field :: "socket_addr option \<Rightarrow> bytes" where
  "bound_field None = [1, 0, 0, 0, 0, 0, 0]"
| "bound_field (Some (SockV4 ip port)) = 1 # v4_octets ip @ u16_to_be port"
| "bound_field (Some (SockV6 ip port _ _)) = 4 # v6_octets ip @ u16_to_be port"

lemma write_reply_enough:
  assumes "22 \<le> out_budget s"
  shows "\<exists>s'. write_reply reply address s = (Ok (), s') \<and> pending s' = pending s \<and>
    out_bytes s' = out_bytes s @ [5, reply, 0] @ bound_field address"
proof -
  have z: "v4_octets 0 = [0, 0, 0, 0]" "u16_to_be 0 = [0, 0]" by code_simp+
  show ?thesis using assms
    by (cases address rule: bound_field.cases) (auto simp: write_reply_def write_all_enough VERSION_def z)
qed

lemma connect_error_code_table:
  "connect_error_code k =
     (if k = ConnectionRefused then 5
      else if k \<in> {TimedOut, NotFound, AddrNotAvailable} then 4
      else if k = PermissionDenied then 2
      else if k = UnsupportedKind then 7 else 1)"
  by (cases k) auto

section \<open>Properties\<close>

definition sample_services :: "policy_action \<Rightarrow> bytes list \<Rightarrow> (unit, unit) services" where
  "sample_services default_action segs =
     \<lparr>sv_os = sample_os segs, sv_connect = (\<lambda>_ w. (Ok (sample_stream segs), w)),
      sv_local_addr = (\<lambda>_. None), sv_option = (\<lambda>_ w. (Ok (), w)), sv_relay = (\<lambda>_ _ w. (Ok (), w)),
      sv_runtime = runtime_new (policy_engine_new [] default_action),
      sv_outbounds = \<lparr>endpoints = []\<rparr>\<rparr>"

definition sample_shared :: "unit shared" where
  "sample_shared = \<lparr>sh_dns = sample_engine, sh_next_flow_id = 1\<rparr>"

text \<open>
  Property C28: the SOCKS5 server understands the SOCKS5 client. Whatever the segmentation, the
  bytes the outbound handshake sends for a target are negotiated without authentication and read
  as a CONNECT to exactly that target, leaving the bytes that follow unread.
\<close>

theorem socks_client_server_agree:
  assumes "nameable (t_host t)" "t_port t \<noteq> 0" "2 \<le> out_budget s"
    and "pending s = request_of Socks5Protocol t @ rest"
  shows "\<exists>s'. bindIO negotiate_method (\<lambda>_. read_request) s = (Ok (Connect t), s') \<and>
    pending s' = rest \<and> out_bytes s' = out_bytes s @ [0x05, 0x00]"
proof -
  have p: "pending s = [0x05, 0x01, 0x00] @ [0x05, 0x01, 0x00] @ wire_host (t_host t) @
      u16_to_be (t_port t) @ rest"
    using assms(4) by simp
  obtain s1 where 1: "negotiate_method s = (Ok (), s1)"
    "pending s1 = [0x05, 0x01, 0x00] @ wire_host (t_host t) @ u16_to_be (t_port t) @ rest"
    "out_bytes s1 = out_bytes s @ [0x05, 0x00]"
    using negotiate_no_auth [OF p assms(3)] by auto
  obtain s2 where "read_request s1 = (Ok (Connect t), s2)" "pending s2 = rest" "out_bytes s2 = out_bytes s1"
    using read_request_connect [OF assms(1,2) 1(2)] by auto
  with 1 show ?thesis by (auto simp: bindIO_def)
qed

theorem socks_client_server_agree_witness:
  "\<exists>s'. bindIO negotiate_method (\<lambda>_. read_request)
      (sample_stream [[5, 1], [0, 5], [1, 0, 3, 1, 97, 0], [80, 42]])
    = (Ok (Connect \<lparr>t_host = HDomain ''a'', t_port = 80\<rparr>), s') \<and> pending s' = [42]"
proof -
  let ?t = "\<lparr>t_host = HDomain ''a'', t_port = 80\<rparr>"
  have "nameable (t_host ?t)" "t_port ?t \<noteq> 0" by code_simp+
  moreover have "2 \<le> out_budget (sample_stream [[5, 1], [0, 5], [1, 0, 3, 1, 97, 0], [80, 42]])" by code_simp
  moreover have "pending (sample_stream [[5, 1], [0, 5], [1, 0, 3, 1, 97, 0], [80, 42]])
      = request_of Socks5Protocol ?t @ [42]" by code_simp
  ultimately show ?thesis using socks_client_server_agree by blast
qed

text \<open>
  A UDP packet the relay builds for a source is read back as that source and payload,
  so the two directions of the SOCKS5 UDP header agree.
\<close>

theorem socks_udp_round_trip:
  assumes "nameable (t_host t)" "t_port t \<noteq> 0" "encode_udp_response t payload = Ok packet"
  shows "parse_udp_request packet = Ok (t, payload)"
proof -
  let ?h = "wire_host (t_host t)"
  have packet: "packet = [0, 0, 0] @ ?h @ u16_to_be (t_port t) @ payload"
    using assms(3) by (auto simp: encode_udp_response_def socks_udp_host.encode_iff)
  have host: "parse_udp_host packet (packet ! 3) = Ok (t_host t, 3 + length ?h)"
  proof (cases "t_host t" rule: wire_host.cases)
    case (2 d)
    have d: "length d \<le> 253" "d \<noteq> []" using assms(1) 2 by auto
    have "unat (of_nat (length d) :: u8) = length d" using d by (intro unat_length_octet) simp
    with 2 d assms(1) socks_domain_self show ?thesis
      by (simp add: packet parse_udp_host_def get_def get_range_def)
  qed (simp_all add: packet parse_udp_host_def get_range_def)
  have "0 < length ?h" using wire_host_Cons [of "t_host t"] by (metis length_greater_0_conv list.discI)
  then have "4 \<le> length packet" by (simp add: packet)
  moreover have "packet ! 0 = 0" "packet ! 1 = 0" "packet ! 2 = 0" by (simp_all add: packet)
  moreover have "get_range packet (3 + length ?h) (3 + length ?h + 2) = Some (u16_to_be (t_port t))"
    using get_range_append_mid [of "[0, 0, 0] @ ?h" "3 + length ?h" "u16_to_be (t_port t)" 2 payload]
    by (simp add: packet)
  moreover have "drop (length ([0, 0, 0 :: u8] @ ?h @ u16_to_be (t_port t))) packet = payload"
    by (simp add: packet)
  then have "drop (3 + length ?h + 2) packet = payload" by (simp add: numeral_3_eq_3)
  ultimately show ?thesis
    using host assms(2) by (simp add: parse_udp_request_def target_new_self not_less)
qed

theorem socks_udp_round_trip_witness:
  "parse_udp_request [0, 0, 0, 1, 0, 0, 0, 9, 0, 53, 7] = Ok (\<lparr>t_host = HIp (V4 9), t_port = 53\<rparr>, [7])"
proof -
  have "encode_udp_response \<lparr>t_host = HIp (V4 9), t_port = 53\<rparr> [7] = Ok [0, 0, 0, 1, 0, 0, 0, 9, 0, 53, 7]"
    by code_simp
  then show ?thesis by (intro socks_udp_round_trip) simp_all
qed

end
