(* ===== verification/Inbound.thy ===== *)
theory Inbound
  imports Socks5
begin

text \<open>
  What the TCP inbounds have in common. A handler reads a target from its connection and, if it opens
  a session, opens it on the endpoint the policy plans for that target. The locale is this contract;
  SOCKS5, HTTP CONNECT, the transparent inbound and the server's dispatch interpret it.
\<close>

section \<open>Planned sessions\<close>

definition session_planned ::
  "('w, 'd) services \<Rightarrow> target \<Rightarrow> endpoint \<Rightarrow> bool" where
  "session_planned sv t e \<longleftrightarrow>
     (\<exists>fid s dns w dns' w'. fst (plan_action (sv_runtime sv) t Tcp fid) = ERoute e \<and>
        connect_tcp (sv_os sv) (sv_connect sv) (sv_outbounds sv) e t dns w = (Ok s, dns', w'))"

lemma plan_action_decides:
  assumes "fst (plan_action rt t transport fid) = ERoute e"
  shows "dec_action (decide (rt_policy rt) (fst (target_flow t transport fid))) = PRoute e"
  using assms by (auto simp: plan_action_def plan_def Let_def split: prod.splits policy_action.splits)

lemma connected_registered:
  assumes "connect_tcp os connect r (Proxy i) t dns w = (Ok s, dns', w')"
  shows "registry_contains r i"
  using assms
  by (auto simp: connect_tcp_def registry_contains_def hm_contains_def endpoint_caps_def split: if_splits option.splits)

section \<open>The contract\<close>

type_synonym 'w handler =
  "stream \<Rightarrow> 'w shared \<Rightarrow> 'w \<Rightarrow> ((unit, error_kind) result \<times> outcome \<times> stream \<times> 'w shared \<times> 'w) option"

locale tcp_inbound =
  fixes sv :: "('w, 'd) services"
    and handle :: "'w handler"
    and requested :: "stream \<Rightarrow> 'w \<Rightarrow> target option"
  assumes opens_planned: "handle client sh w = Some (r, Opened e s, client', sh', w') \<Longrightarrow>
    \<exists>t. requested client w = Some t \<and> session_planned sv t e"
begin

lemma opened_decided:
  assumes "handle client sh w = Some (r, Opened e s, client', sh', w')"
  shows "\<exists>t fid. requested client w = Some t \<and>
    dec_action (decide (rt_policy (sv_runtime sv)) (fst (target_flow t Tcp fid))) = PRoute e \<and>
    (\<forall>i. e = Proxy i \<longrightarrow> registry_contains (sv_outbounds sv) i)"
proof -
  obtain t where t: "requested client w = Some t" "session_planned sv t e" using opens_planned [OF assms] by blast
  then obtain fid s dns v dns' v' where p: "fst (plan_action (sv_runtime sv) t Tcp fid) = ERoute e"
    "connect_tcp (sv_os sv) (sv_connect sv) (sv_outbounds sv) e t dns v = (Ok s, dns', v')"
    by (auto simp: session_planned_def)
  have "\<forall>i. e = Proxy i \<longrightarrow> registry_contains (sv_outbounds sv) i"
    using p(2) by (auto intro: connected_registered)
  with t(1) plan_action_decides [OF p(1)] show ?thesis by blast
qed

lemma no_target_refused:
  assumes "requested client w = None" "handle client sh w = Some (r, out, client', sh', w')"
  shows "out = Refused"
  using opens_planned assms by (cases out) fastforce+

end

section \<open>Sessions of the SOCKS5 handler\<close>

lemma socks_session_planned:
  assumes "handle_connect sv t client sh w = (r, Opened e s, client', sh', w')"
  shows "session_planned sv t e"
  using assms unfolding handle_connect_def Let_def session_planned_def
  by (auto split: prod.splits execution_action.splits result.splits) (metis fst_conv)+

end
