(* ===== verification/Http_Connect.thy ===== *)
theory Http_Connect
  imports Inbound
begin

text \<open>
  \<open>crates/daemon/src/http_connect.rs\<close>: the HTTP CONNECT inbound. The request head is read in
  chunks, so bytes of the tunnel may already be in the buffer when the head is complete; they are
  handed on to the remote side. The package version in the success reply is a parameter.
\<close>

section \<open>Definitions\<close>

definition MAX_HEADER_BYTES :: nat where
  "MAX_HEADER_BYTES = 16 * 1024"

definition HEADER_END :: bytes where
  "HEADER_END = [0x0d, 0x0a, 0x0d, 0x0a]"

fun find_header_end :: "bytes \<Rightarrow> nat option" where
  "find_header_end [] = None"
| "find_header_end (b # bs) =
     (if take 4 (b # bs) = HEADER_END then Some 0 else map_option Suc (find_header_end bs))"

definition parse_port :: "str \<Rightarrow> (u16, error_kind) result" where
  "parse_port value =
     bindR (ok_or InvalidData (parse_u16 value)) (\<lambda>port. if port = 0 then Err InvalidData else Ok port)"

definition parse_bracketed :: "str \<Rightarrow> (target, error_kind) result" where
  "parse_bracketed rest =
     bindR (ok_or InvalidData (find_char (CHR '']'') rest)) (\<lambda>close.
     let host = take close rest
     in bindR (ok_or InvalidData (strip_prefix '':'' (drop (close + 1) rest))) (\<lambda>port.
        if CHR '':'' \<in> set port then Err InvalidData
        else bindR (ok_or InvalidData (parse_ip_addr host)) (\<lambda>address.
          case address of
            V4 _ \<Rightarrow> Err InvalidData
          | V6 _ \<Rightarrow> bindR (parse_port port) (\<lambda>port. target_new (HIp address) port))))"

definition parse_authority :: "str \<Rightarrow> (target, error_kind) result" where
  "parse_authority authority =
     (case strip_prefix ''['' authority of
        Some rest \<Rightarrow> parse_bracketed rest
      | None \<Rightarrow>
          bindR (ok_or InvalidData (rsplit_once (CHR '':'') authority)) (\<lambda>(host, port).
          if host = [] \<or> CHR '':'' \<in> set host then Err InvalidData
          else
            bindR (case parse_ip_addr host of
                     Some address \<Rightarrow> Ok (HIp address)
                   | None \<Rightarrow>
                       let domain = to_ascii_lowercase (trim_end_matches (CHR ''.'') host)
                       in if domain = [] \<or> 253 < length domain then Err InvalidData
                          else Ok (HDomain domain))
              (\<lambda>dest. bindR (parse_port port) (\<lambda>port. target_new dest port))))"

definition parse_request_head :: "bytes \<Rightarrow> (target, error_kind) result" where
  "parse_request_head head =
     bindR (ok_or InvalidData (from_utf8 head)) (\<lambda>header.
     let items = split_whitespace (split_crlf_first header)
     in case items of
          [meth, authority, version] \<Rightarrow>
            if meth \<noteq> ''CONNECT'' \<or> \<not> starts_with ''HTTP/1.'' version then Err InvalidData
            else parse_authority authority
        | _ \<Rightarrow> Err InvalidData)"

function read_head :: "bytes \<Rightarrow> (bytes \<times> nat) io" where
  "read_head buffer s =
     (case find_header_end buffer of
        Some e \<Rightarrow> (Ok (buffer, e), s)
      | None \<Rightarrow>
          if MAX_HEADER_BYTES \<le> length buffer then (Err InvalidData, s)
          else (case read (min (MAX_HEADER_BYTES - length buffer) 1024) s of
                  (Err k, s') \<Rightarrow> (Err k, s')
                | (Ok chunk, s') \<Rightarrow>
                    if chunk = [] then (Err UnexpectedEof, s')
                    else read_head (buffer @ chunk) s'))"
  by pat_completeness auto
termination
  by (relation "measure (\<lambda>(buffer, s). MAX_HEADER_BYTES - length buffer)")
    (auto simp flip: length_greater_0_conv)

declare read_head.simps [simp del]

definition http_read_request :: "(target \<times> bytes) io" where
  "http_read_request =
     bindIO (read_head []) (\<lambda>(buffer, header_end).
     bindIO (liftIO (parse_request_head (take header_end buffer))) (\<lambda>t.
     returnIO (t, drop (header_end + 4) buffer)))"

definition reply_empty :: "str \<Rightarrow> bytes" where
  "reply_empty status =
     as_bytes (''HTTP/1.1 '' @ status @ crlf @ ''Connection: close'' @ crlf @ ''Content-Length: 0'' @ crlf @ crlf)"

definition reply_established :: "str \<Rightarrow> bytes" where
  "reply_established version =
     as_bytes (''HTTP/1.1 200 Connection Established'' @ crlf @ ''Proxy-Agent: Commeatus/'' @ version @ crlf @ crlf)"

definition HTTP_HANDSHAKE_TIMEOUT :: duration where "HTTP_HANDSHAKE_TIMEOUT = from_secs 10"

definition http_handle ::
  "('w, 'd) services \<Rightarrow> str \<Rightarrow> stream \<Rightarrow> 'w shared \<Rightarrow> 'w
    \<Rightarrow> (unit, error_kind) result \<times> outcome \<times> stream \<times> 'w shared \<times> 'w" where
  "http_handle sv version client sh w =
     (case client_timeouts sv (Some HTTP_HANDSHAKE_TIMEOUT) w of
        (Err k, w) \<Rightarrow> (Err k, Refused, client, sh, w)
      | (Ok _, w) \<Rightarrow>
     (case http_read_request client of
        (Err k, client) \<Rightarrow>
          (let (_, client) = write_all (reply_empty ''400 Bad Request'') client
           in (Err k, Refused, client, sh, w))
      | (Ok (t, buffered), client) \<Rightarrow>
          (let (action, next_id) = plan_action (sv_runtime sv) t Tcp (sh_next_flow_id sh);
               sh = sh\<lparr>sh_next_flow_id := next_id\<rparr>
           in case action of
                EReject _ \<Rightarrow>
                  (let (r, client) = write_all (reply_empty ''403 Forbidden'') client
                   in (r, Refused, client, sh, w))
              | ERoute e \<Rightarrow>
                  (case connect_tcp (sv_os sv) (sv_connect sv) (sv_outbounds sv) e t (sh_dns sh) w of
                     (Err k, dns, w) \<Rightarrow>
                       (let (_, client) = write_all (reply_empty ''502 Bad Gateway'') client
                        in (Err k, Refused, client, sh\<lparr>sh_dns := dns\<rparr>, w))
                   | (Ok remote, dns, w) \<Rightarrow>
                       (case write_all (reply_established version) client of
                          (Err k, client) \<Rightarrow> (Err k, Opened e remote, client, sh\<lparr>sh_dns := dns\<rparr>, w)
                        | (Ok _, client) \<Rightarrow>
                            (case (if buffered = [] then (Ok (), remote) else write_all buffered remote) of
                               (Err k, remote) \<Rightarrow> (Err k, Opened e remote, client, sh\<lparr>sh_dns := dns\<rparr>, w)
                             | (Ok _, remote) \<Rightarrow>
                                 (case client_timeouts sv None w of
                                    (Err k, w) \<Rightarrow> (Err k, Opened e remote, client, sh\<lparr>sh_dns := dns\<rparr>, w)
                                  | (Ok _, w) \<Rightarrow>
                                      (let (r, w) = sv_relay sv remote client w
                                       in (r, Opened e remote, client, sh\<lparr>sh_dns := dns\<rparr>, w)))))))))"

section \<open>The inbound contract\<close>

definition http_requested :: "stream \<Rightarrow> 'w \<Rightarrow> target option" where
  "http_requested client w = (case http_read_request client of (Ok (t, _), _) \<Rightarrow> Some t | _ \<Rightarrow> None)"

lemma http_session_planned:
  assumes "http_handle sv version client sh w = (r, Opened e s, client', sh', w')"
  shows "\<exists>t buffered client1. http_read_request client = (Ok (t, buffered), client1) \<and> session_planned sv t e"
  using assms unfolding http_handle_def Let_def session_planned_def
  by (auto split: prod.splits execution_action.splits result.splits if_splits) (metis fst_conv)+

interpretation http_in: tcp_inbound sv "\<lambda>client sh w. Some (http_handle sv version client sh w)" http_requested
    for sv version
  by unfold_locales (auto simp: http_requested_def dest!: http_session_planned)

section \<open>Lemmas\<close>

lemma find_header_end_Some:
  "find_header_end bs = Some e \<Longrightarrow> take 4 (drop e bs) = HEADER_END \<and> (\<forall>k < e. take 4 (drop k bs) \<noteq> HEADER_END)"
proof (induction bs arbitrary: e)
  case Nil
  then show ?case by simp
next
  case (Cons b bs)
  show ?case
  proof (cases "take 4 (b # bs) = HEADER_END")
    case True
    with Cons.prems show ?thesis by simp
  next
    case False
    with Cons.prems obtain e' where "find_header_end bs = Some e'" "e = Suc e'" by auto
    with Cons.IH [OF this(1)] False show ?thesis
      by (auto simp del: take_Suc_Cons simp: less_Suc_eq_0_disj)
  qed
qed

lemma read_head_sound:
  assumes "read_head buffer s = (Ok (buf, e), s')"
  shows "buf @ pending s' = buffer @ pending s \<and> find_header_end buf = Some e \<and> out_bytes s' = out_bytes s"
  using assms
proof (induction buffer s rule: read_head.induct)
  case (1 buffer s)
  show ?case
  proof (cases "find_header_end buffer")
    case (Some e')
    with 1 show ?thesis by (simp add: read_head.simps [of buffer s])
  next
    case None
    let ?n = "min (MAX_HEADER_BYTES - length buffer) 1024"
    obtain chunk s1 where c: "read ?n s = (Ok chunk, s1)" "chunk \<noteq> []"
      and room: "\<not> MAX_HEADER_BYTES \<le> length buffer"
      and rest: "read_head (buffer @ chunk) s1 = (Ok (buf, e), s')"
      using "1.prems" None
      by (auto simp: read_head.simps [of buffer s] split: if_splits prod.splits result.splits)
    have "pending s = chunk @ pending s1" using read_Ok_nonempty [OF c] by simp
    moreover have "out_bytes s1 = out_bytes s"
      using c(1) by (auto simp: read_def split: if_splits option.splits prod.splits)
    ultimately show ?thesis
      using "1.IH" [OF None room c(1) [symmetric] refl c(2) rest] by simp
  qed
qed

lemma rsplit_once_last:
  assumes "c \<notin> set b"
  shows "rsplit_once c (a @ c # b) = Some (a, b)"
  using assms by (simp add: rsplit_once_def find_char_append)

lemma http_read_request_cases:
  assumes "http_read_request s = (Ok (t, buffered), s')"
  shows "\<exists>hdr. pending s = hdr @ HEADER_END @ buffered @ pending s' \<and>
    find_header_end (hdr @ HEADER_END @ buffered) = Some (length hdr) \<and>
    parse_request_head hdr = Ok t \<and> out_bytes s' = out_bytes s"
proof -
  obtain buf e where b: "read_head [] s = (Ok (buf, e), s')"
    and p: "parse_request_head (take e buf) = Ok t" and r: "buffered = drop (e + 4) buf"
    using assms
    by (auto simp: http_read_request_def bindIO_def liftIO_def returnIO_def split: prod.splits result.splits)
  have f: "find_header_end buf = Some e" and buf: "buf @ pending s' = pending s" "out_bytes s' = out_bytes s"
    using read_head_sound [OF b] by auto
  have four: "take 4 (drop e buf) = HEADER_END" using find_header_end_Some [OF f] by simp
  have "length (take 4 (drop e buf)) = 4" by (simp add: four HEADER_END_def del: length_take)
  then have len: "e + 4 \<le> length buf" by simp
  have "buf = take e buf @ take 4 (drop e buf) @ drop (e + 4) buf"
    by (metis add.commute append_take_drop_id drop_drop)
  then have split: "buf = take e buf @ HEADER_END @ buffered" by (simp add: four r)
  show ?thesis
  proof (intro exI [of _ "take e buf"] conjI)
    show "pending s = take e buf @ HEADER_END @ buffered @ pending s'"
      using buf(1) split by (metis append_assoc)
    show "find_header_end (take e buf @ HEADER_END @ buffered) = Some (length (take e buf))"
      using f len split by simp
  qed (use p buf(2) in simp_all)
qed

section \<open>Properties\<close>

text \<open>
  Reading an HTTP CONNECT request loses and invents nothing. The bytes taken from the
  client are the head, the first blank line, and the bytes returned as already buffered tunnel
  data; the target is the one the head names; nothing has been sent.
\<close>

theorem http_request_keeps_tunnel:
  assumes "http_read_request s = (Ok (t, buffered), s')"
  shows "\<exists>hdr. pending s = hdr @ HEADER_END @ buffered @ pending s' \<and>
    (\<forall>k < length hdr. take 4 (drop k (hdr @ HEADER_END @ buffered)) \<noteq> HEADER_END) \<and>
    parse_request_head hdr = Ok t \<and> out_bytes s' = out_bytes s"
proof -
  obtain hdr where h: "pending s = hdr @ HEADER_END @ buffered @ pending s'"
    "find_header_end (hdr @ HEADER_END @ buffered) = Some (length hdr)"
    "parse_request_head hdr = Ok t" "out_bytes s' = out_bytes s"
    using http_read_request_cases [OF assms] by auto
  show ?thesis using h(1,3,4) find_header_end_Some [OF h(2)] by blast
qed

definition sample_head :: bytes where
  "sample_head = as_bytes ''CONNECT a.example:443 HTTP/1.1''"

theorem http_request_keeps_tunnel_witness:
  "\<exists>s' hdr. http_read_request (sample_stream [sample_head @ [13], [10, 13, 10, 42], [43]])
      = (Ok (\<lparr>t_host = HDomain ''a.example'', t_port = 443\<rparr>, [42]), s') \<and>
    sample_head @ [13, 10, 13, 10, 42, 43] = hdr @ HEADER_END @ [42] @ pending s'"
proof -
  let ?s = "sample_stream [sample_head @ [13], [10, 13, 10, 42], [43]]"
  have "fst (http_read_request ?s) = Ok (\<lparr>t_host = HDomain ''a.example'', t_port = 443\<rparr>, [42])"
    by code_simp
  then obtain s' where s': "http_read_request ?s = (Ok (\<lparr>t_host = HDomain ''a.example'', t_port = 443\<rparr>, [42]), s')"
    by (cases "http_read_request ?s") simp
  have "pending ?s = sample_head @ [13, 10, 13, 10, 42, 43]" by (simp add: sample_stream_def pending_def)
  with http_request_keeps_tunnel [OF s'] s' show ?thesis by auto
qed

text \<open>
  The authority the HTTP CONNECT client writes for a domain target is read back as
  that target by the HTTP CONNECT server, for every canonical domain that is not itself an address.
\<close>

theorem http_authority_round_trip:
  assumes "t_host t = HDomain d" "t_port t \<noteq> 0" "nameable (t_host t)"
    and "CHR '':'' \<notin> set d" "\<not> starts_with ''['' d" "parse_ip_addr d = None"
  shows "parse_authority (target_authority t) = Ok t"
proof -
  let ?p = "show_nat (unat (t_port t))"
  have "CHR '':'' \<notin> set ?p" by (rule show_nat_no_char) (simp add: code_def)
  then have split: "rsplit_once (CHR '':'') (d @ CHR '':'' # ?p) = Some (d, ?p)" by (rule rsplit_once_last)
  have d: "d \<noteq> []" "length d \<le> 253" "to_ascii_lowercase (trim_end_matches (CHR ''.'') d) = d"
    using assms(1,3) by (auto simp: trim_end_matches_id)
  have "strip_prefix ''['' (d @ CHR '':'' # ?p) = None"
    using assms(5) d(1) by (cases d) (auto simp: strip_prefix_def starts_with_def)
  with split d assms show ?thesis
    by (simp add: target_authority_def parse_authority_def parse_port_def parse_u16_show ok_or_def
        target_new_def)
qed

theorem http_authority_round_trip_witness:
  "parse_authority (target_authority \<lparr>t_host = HDomain ''a.example'', t_port = 8080\<rparr>)
    = Ok \<lparr>t_host = HDomain ''a.example'', t_port = 8080\<rparr>"
proof (rule http_authority_round_trip [where d = "''a.example''"])
  show "nameable (t_host \<lparr>t_host = HDomain ''a.example'', t_port = 8080\<rparr>)" by code_simp
  show "parse_ip_addr ''a.example'' = None" by code_simp
qed (simp_all add: starts_with_def)



end
