(* ===== verification/Limiter.thy ===== *)
theory Limiter
  imports Commeatus_Prelude
begin

text \<open>
  The limiter of concurrent connections of \<open>crates/daemon/src/server.rs\<close> as the interleaving of
  its atomic operations. Any number of threads call \<open>try_acquire\<close> and drop their permits; the
  counter is one atomic cell, so every access sees the last write to it.
\<close>

section \<open>Definitions\<close>

definition MAX_ACTIVE_CONNECTIONS :: nat where "MAX_ACTIVE_CONNECTIONS = 256"

record limiter =
  lim_active :: nat
  lim_limit :: nat

definition limiter_new :: "nat \<Rightarrow> limiter" where
  "limiter_new limit = \<lparr>lim_active = 0, lim_limit = limit\<rparr>"

text \<open>
  Where a thread is between its call of \<open>try_acquire\<close> and the drop of its permit; a step is one
  atomic operation. \<open>compare_exchange_weak\<close> may fail spuriously, and on failure yields the
  current value.
\<close>

datatype permit_pc = Calling | Looping nat | Denied | Holding | Dropped

type_synonym limiter_state = "limiter \<times> (nat \<Rightarrow> permit_pc)"

definition try_step :: "nat \<Rightarrow> bool \<Rightarrow> limiter_state \<Rightarrow> limiter_state" where
  "try_step i spurious s =
     (case s of (l, pcs) \<Rightarrow>
        case pcs i of
          Calling \<Rightarrow> (l, pcs(i := Looping (lim_active l)))
        | Looping active \<Rightarrow>
            if lim_limit l \<le> active then (l, pcs(i := Denied))
            else if lim_active l = active \<and> \<not> spurious then (l\<lparr>lim_active := active + 1\<rparr>, pcs(i := Holding))
            else (l, pcs(i := Looping (lim_active l)))
        | _ \<Rightarrow> s)"

definition permit_drop :: "nat \<Rightarrow> limiter_state \<Rightarrow> limiter_state" where
  "permit_drop i s =
     (case s of (l, pcs) \<Rightarrow>
        if pcs i = Holding
        then (l\<lparr>lim_active := (lim_active l + usize_bound - 1) mod usize_bound\<rparr>, pcs(i := Dropped))
        else s)"

text \<open>The whole of \<open>try_acquire\<close> when no other thread interferes.\<close>

definition try_acquire :: "limiter \<Rightarrow> bool \<times> limiter" where
  "try_acquire l =
     (if lim_limit l \<le> lim_active l then (False, l) else (True, l\<lparr>lim_active := lim_active l + 1\<rparr>))"

definition release :: "limiter \<Rightarrow> limiter" where
  "release l = l\<lparr>lim_active := (lim_active l + usize_bound - 1) mod usize_bound\<rparr>"

section \<open>Interleavings\<close>

inductive limiter_run :: "nat \<Rightarrow> limiter_state \<Rightarrow> bool" for limit :: nat where
  start: "limiter_run limit (limiter_new limit, \<lambda>_. Calling)"
| attempt: "limiter_run limit s \<Longrightarrow> limiter_run limit (try_step i spurious s)"
| drop: "limiter_run limit s \<Longrightarrow> limiter_run limit (permit_drop i s)"

definition holders :: "(nat \<Rightarrow> permit_pc) \<Rightarrow> nat set" where
  "holders pcs = {i. pcs i = Holding}"

definition limiter_inv :: "nat \<Rightarrow> limiter_state \<Rightarrow> bool" where
  "limiter_inv limit s \<longleftrightarrow>
     (case s of (l, pcs) \<Rightarrow>
        lim_limit l = limit \<and> finite (holders pcs) \<and> card (holders pcs) = lim_active l \<and> lim_active l \<le> limit)"

lemma holders_other: "pcs i \<noteq> Holding \<Longrightarrow> pc \<noteq> Holding \<Longrightarrow> holders (pcs(i := pc)) = holders pcs"
  by (auto simp: holders_def)

lemma holders_add: "holders (pcs(i := Holding)) = insert i (holders pcs)"
  by (auto simp: holders_def)

lemma holders_remove: "pc \<noteq> Holding \<Longrightarrow> holders (pcs(i := pc)) = holders pcs - {i}"
  by (auto simp: holders_def)

lemma limiter_inv_try:
  assumes "limiter_inv limit s"
  shows "limiter_inv limit (try_step i spurious s)"
proof -
  obtain l pcs where s: "s = (l, pcs)" by (cases s)
  show ?thesis
  proof (cases "pcs i")
    case (Looping active)
    then have "i \<notin> holders pcs" by (simp add: holders_def)
    with assms s Looping show ?thesis
      by (auto simp: limiter_inv_def try_step_def holders_other holders_add)
  qed (use assms s in \<open>auto simp: limiter_inv_def try_step_def holders_other\<close>)
qed

lemma wrapping_pred:
  fixes b :: nat
  assumes "0 < n" "n \<le> b"
  shows "(n + b - 1) mod b = n - 1"
proof -
  have "n + b - 1 = (n - 1) + b" "n - 1 < b" using assms by linarith+
  then show ?thesis by (simp only: mod_add_self2 mod_less)
qed

lemma limiter_inv_drop:
  assumes "limiter_inv limit s" "limit \<le> usize_bound"
  shows "limiter_inv limit (permit_drop i s)"
proof -
  obtain l pcs where s: "s = (l, pcs)" by (cases s)
  show ?thesis
  proof (cases "pcs i = Holding")
    case True
    then have i: "i \<in> holders pcs" by (simp add: holders_def)
    then have "holders pcs \<noteq> {}" by blast
    moreover have "finite (holders pcs)" "card (holders pcs) = lim_active l"
      using assms(1) s by (simp_all add: limiter_inv_def)
    ultimately have "0 < lim_active l" by (metis card_gt_0_iff)
    moreover have "lim_active l \<le> usize_bound" using assms s by (auto simp: limiter_inv_def)
    ultimately have "(lim_active l + usize_bound - 1) mod usize_bound = lim_active l - 1" by (rule wrapping_pred)
    with assms s True i show ?thesis
      by (auto simp: limiter_inv_def permit_drop_def holders_remove)
  qed (use assms s in \<open>simp add: permit_drop_def\<close>)
qed

lemma limiter_run_inv:
  assumes "limiter_run limit s" "limit \<le> usize_bound"
  shows "limiter_inv limit s"
  using assms(1)
proof induction
  case start
  then show ?case by (simp add: limiter_inv_def limiter_new_def holders_def)
next
  case (attempt s i spurious)
  show ?case by (rule limiter_inv_try [OF attempt.IH])
next
  case (drop s i)
  show ?case by (rule limiter_inv_drop [OF drop.IH assms(2)])
qed

section \<open>Bounds\<close>

text \<open>
  Property C11: the connection limit holds under every interleaving. However the atomic operations of
  any number of threads interleave, spurious failures of the exchange included, the counter is the
  number of permits that are held, it never exceeds the limit, and giving a permit back never wraps
  it around.
\<close>

theorem limiter_never_exceeds:
  assumes "limiter_run MAX_ACTIVE_CONNECTIONS (l, pcs)"
  shows "finite {i. pcs i = Holding} \<and> card {i. pcs i = Holding} = lim_active l \<and> lim_active l \<le> 256 \<and>
    (\<forall>i. pcs i = Holding \<longrightarrow> lim_active (fst (permit_drop i (l, pcs))) = lim_active l - 1)"
proof -
  have b: "MAX_ACTIVE_CONNECTIONS \<le> usize_bound" by (simp add: MAX_ACTIVE_CONNECTIONS_def usize_bound_def)
  have inv: "limiter_inv MAX_ACTIVE_CONNECTIONS (l, pcs)" by (rule limiter_run_inv [OF assms b])
  have "lim_active (fst (permit_drop i (l, pcs))) = lim_active l - 1" if "pcs i = Holding" for i
  proof -
    have "i \<in> holders pcs" using that by (simp add: holders_def)
    moreover have "limiter_inv MAX_ACTIVE_CONNECTIONS (permit_drop i (l, pcs))" by (rule limiter_inv_drop [OF inv b])
    ultimately show ?thesis using inv that by (simp add: limiter_inv_def permit_drop_def holders_remove)
  qed
  with inv show ?thesis by (simp add: limiter_inv_def holders_def MAX_ACTIVE_CONNECTIONS_def)
qed

theorem limiter_never_exceeds_witness:
  "\<exists>l pcs. limiter_run MAX_ACTIVE_CONNECTIONS (l, pcs) \<and> pcs 0 = Holding \<and> lim_active l = 1 \<and>
    lim_active (fst (permit_drop 0 (l, pcs))) = 0"
proof -
  let ?s0 = "(limiter_new MAX_ACTIVE_CONNECTIONS, \<lambda>_::nat. Calling)"
  let ?s2 = "try_step 0 False (try_step 0 False ?s0)"
  have run: "limiter_run MAX_ACTIVE_CONNECTIONS ?s2" by (intro limiter_run.attempt limiter_run.start)
  have s2: "snd ?s2 0 = Holding" "lim_active (fst ?s2) = 1"
    by (simp_all add: try_step_def limiter_new_def MAX_ACTIVE_CONNECTIONS_def)
  have run2: "limiter_run MAX_ACTIVE_CONNECTIONS (fst ?s2, snd ?s2)" using run by simp
  have "lim_active (fst (permit_drop 0 (fst ?s2, snd ?s2))) = 0"
    using limiter_never_exceeds [OF run2] s2 by simp
  with run2 s2 show ?thesis by blast
qed

section \<open>The limiter is a counting semaphore\<close>

text \<open>
  The specification: acquiring and giving back are single steps. A thread that has read a value at or
  above the limit is denied from then on; one that has read a smaller value has not taken effect yet.
\<close>

definition spec_acquire :: "nat \<Rightarrow> limiter_state \<Rightarrow> limiter_state" where
  "spec_acquire i s =
     (case s of (l, pcs) \<Rightarrow>
        if pcs i = Calling
        then (snd (try_acquire l), pcs(i := if fst (try_acquire l) then Holding else Denied))
        else s)"

definition spec_release :: "nat \<Rightarrow> limiter_state \<Rightarrow> limiter_state" where
  "spec_release i s = (case s of (l, pcs) \<Rightarrow> if pcs i = Holding then (release l, pcs(i := Dropped)) else s)"

inductive semaphore :: "nat \<Rightarrow> limiter_state \<Rightarrow> bool" for limit :: nat where
  start: "semaphore limit (limiter_new limit, \<lambda>_. Calling)"
| acquire: "semaphore limit s \<Longrightarrow> semaphore limit (spec_acquire i s)"
| give_back: "semaphore limit s \<Longrightarrow> semaphore limit (spec_release i s)"

fun settled :: "nat \<Rightarrow> permit_pc \<Rightarrow> permit_pc" where
  "settled limit (Looping active) = (if limit \<le> active then Denied else Calling)"
| "settled limit pc = pc"

definition linearized :: "limiter_state \<Rightarrow> limiter_state" where
  "linearized s = (fst s, \<lambda>i. settled (lim_limit (fst s)) (snd s i))"

lemma settled_upd: "(\<lambda>j. settled n ((pcs(i := pc)) j)) = (\<lambda>j. settled n (pcs j))(i := settled n pc)"
  by auto

lemma try_step_linearizes:
  "linearized (try_step i spurious s) = linearized s \<or> linearized (try_step i spurious s) = spec_acquire i (linearized s)"
proof -
  obtain l pcs where s: "s = (l, pcs)" by (cases s)
  show ?thesis
  proof (cases "pcs i")
    case (Looping active)
    then show ?thesis
      by (auto simp: s linearized_def try_step_def spec_acquire_def try_acquire_def settled_upd fun_eq_iff)
  qed (auto simp: s linearized_def try_step_def spec_acquire_def try_acquire_def settled_upd fun_eq_iff)
qed

lemma permit_drop_linearizes: "linearized (permit_drop i s) = spec_release i (linearized s)"
proof -
  obtain l pcs where s: "s = (l, pcs)" by (cases s)
  show ?thesis
    by (cases "pcs i")
      (auto simp: s linearized_def permit_drop_def spec_release_def release_def settled_upd fun_eq_iff)
qed

lemma limiter_run_linearizes: "limiter_run limit s \<Longrightarrow> semaphore limit (linearized s)"
proof (induction rule: limiter_run.induct)
  case start
  then show ?case using semaphore.start by (simp add: linearized_def)
next
  case (attempt s i spurious)
  then show ?case using try_step_linearizes [of i spurious s] by (metis semaphore.acquire)
next
  case (drop s i)
  then show ?case by (simp add: permit_drop_linearizes semaphore.give_back)
qed

text \<open>Undisturbed, a thread realises a step of the specification.\<close>

lemma undisturbed_acquire:
  assumes "\<forall>a. pcs i \<noteq> Looping a"
  shows "try_step i False (try_step i False (l, pcs)) = spec_acquire i (l, pcs)"
  using assms by (cases "pcs i") (auto simp: try_step_def spec_acquire_def try_acquire_def)

lemma semaphore_realised:
  "semaphore limit s \<Longrightarrow> limiter_run limit s \<and> (\<forall>i a. snd s i \<noteq> Looping a)"
proof (induction rule: semaphore.induct)
  case start
  then show ?case by (simp add: limiter_run.start)
next
  case (acquire s i)
  then have "spec_acquire i s = try_step i False (try_step i False s)"
    using undisturbed_acquire [of "snd s" i "fst s"] by simp
  moreover have "\<forall>j a. snd (spec_acquire i s) j \<noteq> Looping a"
    using acquire by (auto simp: spec_acquire_def split: prod.splits)
  ultimately show ?case using acquire by (auto intro: limiter_run.attempt)
next
  case (give_back s i)
  then have "spec_release i s = permit_drop i s"
    by (auto simp: spec_release_def permit_drop_def release_def split: prod.splits)
  moreover have "\<forall>j a. snd (spec_release i s) j \<noteq> Looping a"
    using give_back by (auto simp: spec_release_def split: prod.splits)
  ultimately show ?case using give_back by (auto intro: limiter_run.drop)
qed

lemma linearized_id: "\<forall>i a. snd s i \<noteq> Looping a \<Longrightarrow> linearized s = s"
proof -
  assume a: "\<forall>i a. snd s i \<noteq> Looping a"
  have "settled n (snd s i) = snd s i" for n i using a by (cases "snd s i") auto
  then show ?thesis by (simp add: linearized_def)
qed

text \<open>
  Property C12: the limiter is linearizable. Whatever the interleaving, spurious failures included,
  every atomic operation of \<open>try_acquire\<close> either changes nothing of what the threads can observe or
  is the single step of a counting semaphore for its thread, and dropping a permit is the semaphore's
  release; the states the interleaved program reaches are, up to undecided attempts, exactly those of
  the semaphore.
\<close>

theorem limiter_linearizable:
  "(\<forall>i spurious s. linearized (try_step i spurious s) \<in> {linearized s, spec_acquire i (linearized s)}) \<and>
    (\<forall>i s. linearized (permit_drop i s) = spec_release i (linearized s)) \<and>
    (semaphore limit t \<longleftrightarrow> (\<exists>s. limiter_run limit s \<and> linearized s = t))"
proof (intro conjI allI)
  show "linearized (try_step i spurious s) \<in> {linearized s, spec_acquire i (linearized s)}" for i spurious s
    using try_step_linearizes by blast
  show "linearized (permit_drop i s) = spec_release i (linearized s)" for i s
    by (rule permit_drop_linearizes)
  show "semaphore limit t \<longleftrightarrow> (\<exists>s. limiter_run limit s \<and> linearized s = t)"
  proof
    assume "semaphore limit t"
    then have "limiter_run limit t" "linearized t = t"
      using semaphore_realised [of limit t] linearized_id [of t] by simp_all
    then show "\<exists>s. limiter_run limit s \<and> linearized s = t" by (intro exI [of _ t]) simp
  qed (auto intro: limiter_run_linearizes)
qed

section \<open>Progress\<close>

text \<open>
  Acquiring makes progress. From every reachable state, a thread that calls
  \<open>try_acquire\<close> and is not disturbed returns after its load and one exchange: with a permit
  exactly when fewer than the limit are held, and what it does to the counter is the sequential
  \<open>try_acquire\<close>.
\<close>

theorem limiter_acquires_undisturbed:
  assumes "limiter_run MAX_ACTIVE_CONNECTIONS (l, pcs)" "pcs i = Calling"
  shows "try_step i False (try_step i False (l, pcs))
    = (snd (try_acquire l), pcs(i := if fst (try_acquire l) then Holding else Denied)) \<and>
    (fst (try_acquire l) \<longleftrightarrow> card {i. pcs i = Holding} < MAX_ACTIVE_CONNECTIONS)"
proof -
  have b: "MAX_ACTIVE_CONNECTIONS \<le> usize_bound" by (simp add: MAX_ACTIVE_CONNECTIONS_def usize_bound_def)
  have "limiter_inv MAX_ACTIVE_CONNECTIONS (l, pcs)" by (rule limiter_run_inv [OF assms(1) b])
  with assms(2) show ?thesis
    by (auto simp: limiter_inv_def holders_def try_step_def try_acquire_def)
qed

theorem limiter_acquires_undisturbed_witness:
  "\<exists>l pcs. limiter_run MAX_ACTIVE_CONNECTIONS (l, pcs) \<and> fst (try_acquire l) \<and>
    snd (try_step 3 False (try_step 3 False (l, pcs))) 3 = Holding"
proof -
  have run: "limiter_run MAX_ACTIVE_CONNECTIONS (limiter_new MAX_ACTIVE_CONNECTIONS, \<lambda>_. Calling)"
    by (rule limiter_run.start)
  moreover have "fst (try_acquire (limiter_new MAX_ACTIVE_CONNECTIONS))"
    by (simp add: try_acquire_def limiter_new_def MAX_ACTIVE_CONNECTIONS_def)
  moreover from this have "snd (try_step 3 False (try_step 3 False (limiter_new MAX_ACTIVE_CONNECTIONS, \<lambda>_. Calling))) 3 = Holding"
    using limiter_acquires_undisturbed [OF run, of 3] by simp
  ultimately show ?thesis by blast
qed

end
