(* ===== verification/Datagram.thy ===== *)
theory Datagram
  imports Outbound
begin

text \<open>
  \<open>crates/daemon/src/datagram.rs\<close>: readiness tokens, the set of lazily opened outbound
  datagram routes of one inbound association, and the DIRECT association with its contacted peers.
  A trait object is a state with the operations of \<open>DatagramExecution\<close>; UDP sockets and the
  poll registry are parameters. A received datagram carries the bytes the source leaves in the
  caller's buffer. Sending, receiving and opening may run a loop of the carrier that does not end;
  their value is \<open>None\<close> then.
\<close>

section \<open>Definitions\<close>

definition MAX_DATAGRAM_REMOTE_PEERS :: nat where "MAX_DATAGRAM_REMOTE_PEERS = 256"
definition MAX_DATAGRAM_ROUTES :: nat where "MAX_DATAGRAM_ROUTES = 32"
definition MAX_UNTRUSTED_DRAIN_PER_RECEIVE :: nat where "MAX_UNTRUSTED_DRAIN_PER_RECEIVE = 32"

record received_datagram =
  rd_source :: target
  rd_payload :: bytes

type_synonym token = nat

record ('x, 'w) exec_ops =
  ex_send :: "target \<Rightarrow> bytes \<Rightarrow> 'x \<Rightarrow> 'w \<Rightarrow> ((unit, error_kind) result \<times> 'x \<times> 'w) option"
  ex_receive :: "nat \<Rightarrow> 'x \<Rightarrow> 'w \<Rightarrow> ((received_datagram option, error_kind) result \<times> 'x \<times> 'w) option"
  ex_count :: "'x \<Rightarrow> nat"
  ex_register :: "token list \<Rightarrow> 'x \<Rightarrow> 'w \<Rightarrow> (unit, error_kind) result \<times> 'x \<times> 'w"

record token_allocator =
  next_token :: token

definition allocator_new :: "token \<Rightarrow> token_allocator" where
  "allocator_new first_token = \<lparr>next_token = first_token\<rparr>"

definition allocate :: "nat \<Rightarrow> token_allocator \<Rightarrow> (token list, error_kind) result \<times> token_allocator" where
  "allocate n ta =
     (if n = 0 then (Err InvalidInput, ta)
      else (case checked_add (next_token ta) n of
              None \<Rightarrow> (Err OutOfMemory, ta)
            | Some e \<Rightarrow> (Ok [next_token ta..<e], ta\<lparr>next_token := e\<rparr>)))"

record 'x datagram_route =
  dr_execution :: 'x
  dr_tokens :: "token list"

record 'x route_set =
  routes :: "(endpoint, 'x datagram_route) hashmap"

definition route_set_new :: "'x route_set" where
  "route_set_new = \<lparr>routes = []\<rparr>"

definition open_route ::
  "('x, 'w) exec_ops \<Rightarrow> (endpoint \<Rightarrow> 'w \<Rightarrow> (('x, error_kind) result \<times> 'w) option) \<Rightarrow> endpoint
    \<Rightarrow> 'x route_set \<Rightarrow> token_allocator \<Rightarrow> 'w
    \<Rightarrow> ((unit, error_kind) result \<times> 'x route_set \<times> token_allocator \<times> 'w) option" where
  "open_route ops open e rs ta w =
     (if MAX_DATAGRAM_ROUTES \<le> length (routes rs) then Some (Err QuotaExceeded, rs, ta, w)
      else (case open e w of
        None \<Rightarrow> None
      | Some (Err k, w) \<Rightarrow> Some (Err k, rs, ta, w)
      | Some (Ok x, w) \<Rightarrow>
          (case allocate (ex_count ops x) ta of
             (Err k, ta) \<Rightarrow> Some (Err k, rs, ta, w)
           | (Ok tokens, ta) \<Rightarrow>
               (case ex_register ops tokens x w of
                  (Err k, _, w) \<Rightarrow> Some (Err k, rs, ta, w)
                | (Ok _, x, w) \<Rightarrow>
                    Some (Ok (), rs\<lparr>routes := hm_insert e \<lparr>dr_execution = x, dr_tokens = tokens\<rparr> (routes rs)\<rparr>,
                      ta, w)))))"

definition send_with ::
  "('x, 'w) exec_ops \<Rightarrow> (endpoint \<Rightarrow> 'w \<Rightarrow> (('x, error_kind) result \<times> 'w) option)
    \<Rightarrow> endpoint \<Rightarrow> target \<Rightarrow> bytes \<Rightarrow> 'x route_set \<Rightarrow> token_allocator \<Rightarrow> 'w
    \<Rightarrow> ((unit, error_kind) result \<times> 'x route_set \<times> token_allocator \<times> 'w) option" where
  "send_with ops open e t payload rs ta w =
     (case (if hm_contains (routes rs) e then Some (Ok (), rs, ta, w) else open_route ops open e rs ta w) of
        None \<Rightarrow> None
      | Some (Err k, rs, ta, w) \<Rightarrow> Some (Err k, rs, ta, w)
      | Some (Ok _, rs, ta, w) \<Rightarrow>
          (case hm_get (routes rs) e of
             None \<Rightarrow> Some (Err OtherKind, rs, ta, w)
           | Some route \<Rightarrow>
               (case ex_send ops t payload (dr_execution route) w of
                  None \<Rightarrow> None
                | Some (r, x, w) \<Rightarrow>
                    Some (r, rs\<lparr>routes := hm_insert e (route\<lparr>dr_execution := x\<rparr>) (routes rs)\<rparr>, ta, w))))"

definition owned_tokens :: "'x route_set \<Rightarrow> token list" where
  "owned_tokens rs = concat (map (\<lambda>(_, route). dr_tokens route) (routes rs))"

definition owns_token :: "'x route_set \<Rightarrow> token \<Rightarrow> bool" where
  "owns_token rs tok = list_ex (\<lambda>(_, route). tok \<in> set (dr_tokens route)) (routes rs)"

definition receive_ready ::
  "('x, 'w) exec_ops \<Rightarrow> token \<Rightarrow> nat \<Rightarrow> 'x route_set \<Rightarrow> 'w
    \<Rightarrow> ((received_datagram option, error_kind) result \<times> 'x route_set \<times> 'w) option" where
  "receive_ready ops tok len rs w =
     (case List.find (\<lambda>(_, route). tok \<in> set (dr_tokens route)) (routes rs) of
        None \<Rightarrow> Some (Ok None, rs, w)
      | Some (e, route) \<Rightarrow>
          (case ex_receive ops len (dr_execution route) w of
             None \<Rightarrow> None
           | Some (r, x, w) \<Rightarrow>
               Some (r, rs\<lparr>routes := hm_insert e (route\<lparr>dr_execution := x\<rparr>) (routes rs)\<rparr>, w)))"

section \<open>The DIRECT association\<close>

text \<open>The operations of a UDP socket, named by a descriptor, and of the poll registry.\<close>

record 'w udp_os =
  uo_bind :: "socket_addr \<Rightarrow> 'w \<Rightarrow> (nat, error_kind) result \<times> 'w"
  uo_set_nonblocking :: "nat \<Rightarrow> 'w \<Rightarrow> (unit, error_kind) result \<times> 'w"
  uo_send_to :: "nat \<Rightarrow> bytes \<Rightarrow> socket_addr \<Rightarrow> 'w \<Rightarrow> (nat, error_kind) result \<times> 'w"
  uo_recv_from :: "nat \<Rightarrow> nat \<Rightarrow> 'w \<Rightarrow> (bytes \<times> socket_addr, error_kind) result \<times> 'w"
  uo_register :: "nat \<Rightarrow> token \<Rightarrow> 'w \<Rightarrow> (unit, error_kind) result \<times> 'w"

record direct_association =
  da_ipv4 :: nat
  da_ipv6 :: "nat option"
  remote_peers :: "socket_addr list"

definition bind_nonblocking :: "'w udp_os \<Rightarrow> socket_addr \<Rightarrow> 'w \<Rightarrow> (nat, error_kind) result \<times> 'w" where
  "bind_nonblocking uo address w =
     (case uo_bind uo address w of
        (Err k, w) \<Rightarrow> (Err k, w)
      | (Ok socket, w) \<Rightarrow>
          (case uo_set_nonblocking uo socket w of
             (Err k, w) \<Rightarrow> (Err k, w)
           | (Ok _, w) \<Rightarrow> (Ok socket, w)))"

definition direct_new :: "'w udp_os \<Rightarrow> 'w \<Rightarrow> (direct_association, error_kind) result \<times> 'w" where
  "direct_new uo w =
     (case bind_nonblocking uo (SockV4 0 0) w of
        (Err k, w) \<Rightarrow> (Err k, w)
      | (Ok ipv4, w) \<Rightarrow>
          (case bind_nonblocking uo (SockV6 0 0 0 0) w of
             (Ok ipv6, w) \<Rightarrow> (Ok \<lparr>da_ipv4 = ipv4, da_ipv6 = Some ipv6, remote_peers = []\<rparr>, w)
           | (Err k, w) \<Rightarrow>
               if k = AddrNotAvailable \<or> k = UnsupportedKind
               then (Ok \<lparr>da_ipv4 = ipv4, da_ipv6 = None, remote_peers = []\<rparr>, w)
               else (Err k, w)))"

definition send_to_resolved ::
  "'w udp_os \<Rightarrow> socket_addr \<Rightarrow> bytes \<Rightarrow> direct_association \<Rightarrow> 'w
    \<Rightarrow> (unit, error_kind) result \<times> direct_association \<times> 'w" where
  "send_to_resolved uo address payload d w =
     (if address \<notin> set (remote_peers d) \<and> MAX_DATAGRAM_REMOTE_PEERS \<le> length (remote_peers d)
      then (Err QuotaExceeded, d, w)
      else (case (case address of
                    SockV4 _ _ \<Rightarrow> uo_send_to uo (da_ipv4 d) payload address w
                  | SockV6 _ _ _ _ \<Rightarrow>
                      (case da_ipv6 d of
                         None \<Rightarrow> (Err AddrNotAvailable, w)
                       | Some socket \<Rightarrow> uo_send_to uo socket payload address w)) of
              (Err k, w) \<Rightarrow> (Err k, d, w)
            | (Ok sent, w) \<Rightarrow>
                if sent \<noteq> length payload then (Err WriteZero, d, w)
                else (Ok (), d\<lparr>remote_peers := push_new address (remote_peers d)\<rparr>, w)))"

fun direct_send_loop ::
  "'w udp_os \<Rightarrow> socket_addr list \<Rightarrow> bytes \<Rightarrow> error_kind option \<Rightarrow> direct_association \<Rightarrow> 'w
    \<Rightarrow> (unit, error_kind) result \<times> direct_association \<times> 'w" where
  "direct_send_loop uo [] payload last_error d w =
     (Err (case last_error of None \<Rightarrow> AddrNotAvailable | Some k \<Rightarrow> k), d, w)"
| "direct_send_loop uo (address # rest) payload last_error d w =
     (case send_to_resolved uo address payload d w of
        (Ok _, d, w) \<Rightarrow> (Ok (), d, w)
      | (Err k, d, w) \<Rightarrow> direct_send_loop uo rest payload (Some k) d w)"

definition direct_send ::
  "'w net_os \<Rightarrow> 'w udp_os \<Rightarrow> target \<Rightarrow> bytes \<Rightarrow> direct_association \<Rightarrow> 'w dns_engine \<times> 'w
    \<Rightarrow> (unit, error_kind) result \<times> direct_association \<times> 'w dns_engine \<times> 'w" where
  "direct_send os uo t payload d dw =
     (case resolve_target os t (fst dw) (snd dw) of
        (Err k, dns, w) \<Rightarrow> (Err k, d, dns, w)
      | (Ok addresses, dns, w) \<Rightarrow>
          (let (r, d, w) = direct_send_loop uo addresses payload None d w in (r, d, dns, w)))"

primrec receive_from_socket ::
  "nat \<Rightarrow> 'w udp_os \<Rightarrow> nat \<Rightarrow> socket_addr list \<Rightarrow> nat \<Rightarrow> 'w
    \<Rightarrow> (received_datagram option, error_kind) result \<times> 'w" where
  "receive_from_socket 0 uo socket peers len w = (Ok None, w)"
| "receive_from_socket (Suc n) uo socket peers len w =
     (case uo_recv_from uo socket len w of
        (Ok (payload, source), w) \<Rightarrow>
          if source \<notin> set peers then receive_from_socket n uo socket peers len w
          else (bindR (target_new (HIp (sock_ip source)) (sock_port source)) (\<lambda>t.
                 Ok (Some \<lparr>rd_source = t, rd_payload = payload\<rparr>)), w)
      | (Err k, w) \<Rightarrow>
          if k = WouldBlock then (Ok None, w)
          else if k = Interrupted then receive_from_socket n uo socket peers len w
          else (Err k, w))"

definition direct_receive ::
  "'w udp_os \<Rightarrow> nat \<Rightarrow> direct_association \<Rightarrow> 'w
    \<Rightarrow> (received_datagram option, error_kind) result \<times> 'w" where
  "direct_receive uo len d w =
     (if len = 0 then (Err InvalidInput, w)
      else (case receive_from_socket MAX_UNTRUSTED_DRAIN_PER_RECEIVE uo (da_ipv4 d) (remote_peers d) len w of
        (Err k, w) \<Rightarrow> (Err k, w)
      | (Ok (Some received), w) \<Rightarrow> (Ok (Some received), w)
      | (Ok None, w) \<Rightarrow>
          (case da_ipv6 d of
             None \<Rightarrow> (Ok None, w)
           | Some socket \<Rightarrow>
               receive_from_socket MAX_UNTRUSTED_DRAIN_PER_RECEIVE uo socket (remote_peers d) len w)))"

definition direct_count :: "direct_association \<Rightarrow> nat" where
  "direct_count d = 1 + (if da_ipv6 d = None then 0 else 1)"

definition direct_register ::
  "'w udp_os \<Rightarrow> token list \<Rightarrow> direct_association \<Rightarrow> 'w \<Rightarrow> (unit, error_kind) result \<times> 'w" where
  "direct_register uo tokens d w =
     (if length tokens \<noteq> direct_count d then (Err InvalidInput, w)
      else (case uo_register uo (da_ipv4 d) (tokens ! 0) w of
        (Err k, w) \<Rightarrow> (Err k, w)
      | (Ok _, w) \<Rightarrow>
          (case da_ipv6 d of
             None \<Rightarrow> (Ok (), w)
           | Some socket \<Rightarrow> uo_register uo socket (tokens ! 1) w)))"

definition direct_ops :: "'w net_os \<Rightarrow> 'w udp_os \<Rightarrow> (direct_association, 'w dns_engine \<times> 'w) exec_ops" where
  "direct_ops os uo =
     \<lparr>ex_send = (\<lambda>t payload d dw. Some (direct_send os uo t payload d dw)),
      ex_receive = (\<lambda>len d (dns, w). let (r, w) = direct_receive uo len d w in Some (r, d, dns, w)),
      ex_count = direct_count,
      ex_register = (\<lambda>tokens d (dns, w). let (r, w) = direct_register uo tokens d w in (r, d, dns, w))\<rparr>"

section \<open>Runs of a route set\<close>

text \<open>
  The states an inbound association's routes go through: sends to any endpoint and receives for
  any token, in any order and with any result.
\<close>

inductive route_run :: "('x, 'w) exec_ops \<Rightarrow> token \<Rightarrow> 'x route_set \<Rightarrow> token_allocator \<Rightarrow> bool"
  for ops :: "('x, 'w) exec_ops" and first :: token where
  start: "route_run ops first route_set_new (allocator_new first)"
| send: "route_run ops first rs ta \<Longrightarrow> send_with ops open e t payload rs ta w = Some (r, rs', ta', w') \<Longrightarrow>
    route_run ops first rs' ta'"
| receive: "route_run ops first rs ta \<Longrightarrow> receive_ready ops tok len rs w = Some (q, rs', w') \<Longrightarrow>
    route_run ops first rs' ta"

definition route_inv :: "('x, 'w) exec_ops \<Rightarrow> token \<Rightarrow> 'x route_set \<Rightarrow> token_allocator \<Rightarrow> bool" where
  "route_inv ops first rs ta \<longleftrightarrow>
     wf_map (routes rs) \<and> length (routes rs) \<le> MAX_DATAGRAM_ROUTES \<and>
     first \<le> next_token ta \<and> distinct (owned_tokens rs) \<and>
     (\<forall>tok \<in> set (owned_tokens rs). first \<le> tok \<and> tok < next_token ta) \<and>
     (\<forall>(e, route) \<in> set (routes rs). length (dr_tokens route) = ex_count ops (dr_execution route))"

lemma owned_tokens_update:
  assumes "hm_get (routes rs) e = Some route"
  shows "owned_tokens (rs\<lparr>routes := hm_insert e (route\<lparr>dr_execution := x\<rparr>) (routes rs)\<rparr>) = owned_tokens rs"
proof -
  have "map (\<lambda>(_, r). dr_tokens r) (AList.update e (route\<lparr>dr_execution := x\<rparr>) m) = map (\<lambda>(_, r). dr_tokens r) m"
    if "map_of m e = Some route" for m
    using that by (induction m) auto
  with assms show ?thesis by (simp add: owned_tokens_def hm_get_def hm_insert_def)
qed

lemma find_SomeD: "List.find P xs = Some x \<Longrightarrow> x \<in> set xs \<and> P x"
  by (induction xs) (auto split: if_splits)

lemma length_hm_update: "hm_get m k = Some v \<Longrightarrow> length (hm_insert k v' m) = length m"
  unfolding hm_get_def hm_insert_def by (induction m) (auto split: if_splits)

lemma hm_insert_new: "hm_get m k = None \<Longrightarrow> hm_insert k v m = m @ [(k, v)]"
  unfolding hm_get_def hm_insert_def by (induction m) (auto split: if_splits)

lemma set_hm_insert: "set (hm_insert k v m) \<subseteq> insert (k, v) (set m)"
  unfolding hm_insert_def by (induction m) auto

lemma route_inv_update:
  assumes "route_inv ops first rs ta" "hm_get (routes rs) e = Some route"
    and "ex_count ops x = ex_count ops (dr_execution route)"
  shows "route_inv ops first (rs\<lparr>routes := hm_insert e (route\<lparr>dr_execution := x\<rparr>) (routes rs)\<rparr>) ta"
proof -
  have mem: "(e, route) \<in> set (routes rs)"
    using assms(1,2) by (simp add: route_inv_def hm_get_Some_mem)
  have "length (dr_tokens r) = ex_count ops (dr_execution r)"
    if "(i, r) \<in> set (hm_insert e (route\<lparr>dr_execution := x\<rparr>) (routes rs))" for i r
  proof -
    have "(i, r) = (e, route\<lparr>dr_execution := x\<rparr>) \<or> (i, r) \<in> set (routes rs)"
      using subsetD [OF set_hm_insert that] by simp
    then show ?thesis
    proof
      assume "(i, r) \<in> set (routes rs)"
      with assms(1) show ?thesis unfolding route_inv_def by blast
    next
      assume "(i, r) = (e, route\<lparr>dr_execution := x\<rparr>)"
      moreover have "length (dr_tokens route) = ex_count ops (dr_execution route)"
        using assms(1) mem unfolding route_inv_def by blast
      ultimately show ?thesis using assms(3) by simp
    qed
  qed
  moreover have "wf_map (hm_insert e (route\<lparr>dr_execution := x\<rparr>) (routes rs))"
    using assms(1) by (simp add: route_inv_def)
  ultimately show ?thesis
    using assms(1) unfolding route_inv_def owned_tokens_update [OF assms(2)]
    by (auto simp: length_hm_update [OF assms(2)] simp del: hm_get_insert)
qed

text \<open>A send touches only the route of its endpoint, and leaves one there when it succeeds.\<close>

lemma send_with_routes:
  assumes "send_with ops open e t payload rs ta w = Some (r, rs', ta', w')"
  shows "(e' \<noteq> e \<longrightarrow> hm_get (routes rs') e' = hm_get (routes rs) e') \<and> (is_ok r \<longrightarrow> hm_contains (routes rs') e)"
proof -
  obtain q rs1 ta1 w1 where 1: "(if hm_contains (routes rs) e then Some (Ok (), rs, ta, w)
      else open_route ops open e rs ta w) = Some (q, rs1, ta1, w1)"
    using assms by (auto simp: send_with_def split: option.splits if_splits)
  then have "e' \<noteq> e \<longrightarrow> hm_get (routes rs1) e' = hm_get (routes rs) e'"
    by (auto simp: open_route_def split: if_splits prod.splits result.splits option.splits)
  with assms 1 show ?thesis
    by (auto simp: send_with_def hm_contains_def is_ok_def split: result.splits option.splits prod.splits)
qed

lemma distinct_concat_owner:
  assumes "distinct (concat (map f xs))" "x \<in> set xs" "y \<in> set xs" "t \<in> set (f x)" "t \<in> set (f y)"
  shows "x = y"
  using assms
proof (induction xs)
  case (Cons z zs)
  then show ?case by (cases "x = z"; cases "y = z") auto
qed simp

lemma route_inv_mono:
  assumes "route_inv ops first rs ta" "next_token ta \<le> next_token ta'"
  shows "route_inv ops first rs ta'"
  using assms unfolding route_inv_def by (metis order_trans less_le_trans)

lemma route_inv_new: "first \<le> next_token ta \<Longrightarrow> route_inv ops first route_set_new ta"
  by (simp add: route_inv_def route_set_new_def owned_tokens_def)

lemma open_route_owned:
  assumes "open_route ops open e rs ta w = Some (r, rs', ta', w')" "hm_get (routes rs) e = None"
  shows "next_token ta \<le> next_token ta' \<and>
    (owned_tokens rs' = owned_tokens rs \<or> owned_tokens rs' = owned_tokens rs @ [next_token ta..<next_token ta'])"
  using assms
  by (auto simp: open_route_def allocate_def checked_add_def owned_tokens_def hm_insert_new
      split: if_splits prod.splits result.splits option.splits)

text \<open>A send adds only fresh tokens, a receive none.\<close>

lemma send_with_owned:
  assumes "send_with ops open e t payload rs ta w = Some (r, rs', ta', w')"
  shows "next_token ta \<le> next_token ta' \<and>
    (owned_tokens rs' = owned_tokens rs \<or> owned_tokens rs' = owned_tokens rs @ [next_token ta..<next_token ta'])"
proof -
  obtain q rs1 ta1 w1 where 1: "(if hm_contains (routes rs) e then Some (Ok (), rs, ta, w)
      else open_route ops open e rs ta w) = Some (q, rs1, ta1, w1)"
    using assms by (auto simp: send_with_def split: option.splits if_splits)
  then have o1: "next_token ta \<le> next_token ta1 \<and>
      (owned_tokens rs1 = owned_tokens rs \<or> owned_tokens rs1 = owned_tokens rs @ [next_token ta..<next_token ta1])"
    using open_route_owned [of ops "open" e rs ta w q rs1 ta1 w1] by (auto simp: hm_contains_def split: if_splits)
  have "ta' = ta1 \<and> owned_tokens rs' = owned_tokens rs1"
    using assms 1
    by (auto simp: send_with_def owned_tokens_update split: result.splits option.splits prod.splits)
  with o1 show ?thesis by simp
qed

lemma receive_ready_owned:
  assumes "receive_ready ops tok len rs w = Some (q, rs', w')" "wf_map (routes rs)"
  shows "owned_tokens rs' = owned_tokens rs"
proof (cases "List.find (\<lambda>(_, route). tok \<in> set (dr_tokens route)) (routes rs)")
  case (Some p)
  then obtain e route where p: "p = (e, route)" "(e, route) \<in> set (routes rs)"
    by (cases p) (auto dest: find_SomeD)
  then have "hm_get (routes rs) e = Some route" using assms(2) by (simp add: hm_get_Some_mem)
  with assms(1) Some p show ?thesis
    by (auto simp: receive_ready_def owned_tokens_update split: prod.splits option.splits)
qed (use assms in \<open>simp add: receive_ready_def\<close>)

definition delivered :: "'w udp_os \<Rightarrow> bytes \<Rightarrow> socket_addr \<Rightarrow> bool" where
  \<comment> \<open>the operating system took the whole payload for that address\<close>
  "delivered uo payload address \<longleftrightarrow>
     (\<exists>socket w w'. uo_send_to uo socket payload address w = (Ok (length payload), w'))"

lemma send_to_resolved_sockets:
  assumes "send_to_resolved uo address payload d w = (r, d', w')"
  shows "da_ipv4 d' = da_ipv4 d \<and> da_ipv6 d' = da_ipv6 d \<and>
    (case r of Ok _ \<Rightarrow> set (remote_peers d') = insert address (set (remote_peers d)) \<and>
        delivered uo payload address
      | Err _ \<Rightarrow> d' = d) \<and>
    (length (remote_peers d) \<le> MAX_DATAGRAM_REMOTE_PEERS \<longrightarrow>
      length (remote_peers d') \<le> MAX_DATAGRAM_REMOTE_PEERS)"
  using assms
  by (auto simp: send_to_resolved_def push_new_def delivered_def
      split: if_splits socket_addr.splits prod.splits result.splits option.splits)

lemma direct_send_loop_peers:
  assumes "direct_send_loop uo addresses payload last_error d w = (r, d', w')"
  shows "da_ipv4 d' = da_ipv4 d \<and> da_ipv6 d' = da_ipv6 d \<and>
    (case r of Ok _ \<Rightarrow> (\<exists>address \<in> set addresses. set (remote_peers d') = insert address (set (remote_peers d)) \<and>
        delivered uo payload address)
      | Err _ \<Rightarrow> d' = d) \<and>
    (length (remote_peers d) \<le> MAX_DATAGRAM_REMOTE_PEERS \<longrightarrow>
      length (remote_peers d') \<le> MAX_DATAGRAM_REMOTE_PEERS)"
  using assms
proof (induction uo addresses payload last_error d w rule: direct_send_loop.induct)
  case (2 uo address rest payload last_error d w)
  obtain q d1 w1 where s: "send_to_resolved uo address payload d w = (q, d1, w1)"
    by (metis prod_cases3)
  note one = send_to_resolved_sockets [OF s]
  show ?case
  proof (cases q)
    case (Ok u)
    with "2.prems" s one show ?thesis by auto
  next
    case (Err k)
    with "2.prems" s have "direct_send_loop uo rest payload (Some k) d1 w1 = (r, d', w')" by simp
    from "2.IH" [OF s [symmetric] Err refl this] one Err show ?thesis
      by (auto split: result.splits)
  qed
qed auto

lemma direct_send_sockets:
  assumes "direct_send os uo t payload d dw = (r, d', dns', w')"
  shows "da_ipv4 d' = da_ipv4 d \<and> da_ipv6 d' = da_ipv6 d"
  using assms
  by (auto simp: direct_send_def Let_def dest!: direct_send_loop_peers split: prod.splits result.splits)

section \<open>The interface of an execution\<close>

text \<open>
  What the route set relies on: an execution needs at least one readiness source, registration
  accepts only as many tokens as it asked for, and neither operation changes that number.
\<close>

locale datagram_execution =
  fixes ops :: "('x, 'w) exec_ops"
  assumes count_pos: "0 < ex_count ops x"
    and register_arity: "ex_register ops tokens x w = (Ok (), x', w') \<Longrightarrow> length tokens = ex_count ops x"
    and register_count: "ex_register ops tokens x w = (r, x', w') \<Longrightarrow> ex_count ops x' = ex_count ops x"
    and send_count: "ex_send ops t payload x w = Some (r, x', w') \<Longrightarrow> ex_count ops x' = ex_count ops x"
    and receive_count: "ex_receive ops len x w = Some (q, x', w') \<Longrightarrow> ex_count ops x' = ex_count ops x"
begin

lemma open_route_Ok:
  assumes "open_route ops open e rs ta w = Some (Ok (), rs', ta', w')"
  shows "\<exists>x tokens. routes rs' = hm_insert e \<lparr>dr_execution = x, dr_tokens = tokens\<rparr> (routes rs) \<and>
    length (routes rs) < MAX_DATAGRAM_ROUTES \<and> tokens = [next_token ta..<next_token ta'] \<and>
    length tokens = ex_count ops x \<and> next_token ta' < usize_bound"
  using assms
  by (auto simp: open_route_def allocate_def checked_add_def not_le dest!: register_count
      split: if_splits prod.splits result.splits option.splits)

lemma open_route_Err:
  assumes "open_route ops open e rs ta w = Some (Err k, rs', ta', w')"
  shows "rs' = rs \<and> next_token ta \<le> next_token ta'"
  using assms
  by (auto simp: open_route_def allocate_def checked_add_def
      split: if_splits prod.splits result.splits option.splits)

lemma route_inv_open:
  assumes "route_inv ops first rs ta" "\<not> hm_contains (routes rs) e"
    and "open_route ops open e rs ta w = Some (r, rs', ta', w')"
  shows "route_inv ops first rs' ta'"
proof (cases r)
  case (Err k)
  with open_route_Err [of "open" e rs ta w k rs' ta' w'] assms show ?thesis
    by (fastforce simp: route_inv_def)
next
  case (Ok u)
  obtain x tokens where x: "routes rs' = hm_insert e \<lparr>dr_execution = x, dr_tokens = tokens\<rparr> (routes rs)"
    "length (routes rs) < MAX_DATAGRAM_ROUTES" "tokens = [next_token ta..<next_token ta']"
    "length tokens = ex_count ops x"
    using open_route_Ok [of "open" e rs ta w rs' ta' w'] assms(3) Ok by auto
  have new: "routes rs' = routes rs @ [(e, \<lparr>dr_execution = x, dr_tokens = tokens\<rparr>)]"
    using assms(2) x(1) by (simp add: hm_contains_def hm_insert_new)
  have "0 < length tokens" using x(4) count_pos by simp
  then have le: "next_token ta < next_token ta'" using x(3) by simp
  have toks: "owned_tokens rs' = owned_tokens rs @ tokens" by (simp add: owned_tokens_def new)
  have "wf_map (routes rs')" using assms(1) by (simp add: x(1) route_inv_def)
  then show ?thesis
    using assms(1) x(2-4) le unfolding route_inv_def toks by (auto simp: new)
qed

lemma route_inv_send:
  assumes "route_inv ops first rs ta" "send_with ops open e t payload rs ta w = Some (r, rs', ta', w')"
  shows "route_inv ops first rs' ta'"
proof -
  obtain q rs1 ta1 w1 where 1: "(if hm_contains (routes rs) e then Some (Ok (), rs, ta, w)
      else open_route ops open e rs ta w) = Some (q, rs1, ta1, w1)"
    using assms(2) by (auto simp: send_with_def split: option.splits if_splits)
  then have inv: "route_inv ops first rs1 ta1"
    using assms(1) route_inv_open by (auto split: if_splits)
  show ?thesis
    using assms(2) inv 1
    by (auto simp: send_with_def Let_def intro!: route_inv_update dest: send_count
        split: result.splits option.splits prod.splits)
qed

lemma route_inv_receive:
  assumes "route_inv ops first rs ta" "receive_ready ops tok len rs w = Some (q, rs', w')"
  shows "route_inv ops first rs' ta"
proof (cases "List.find (\<lambda>(_, route). tok \<in> set (dr_tokens route)) (routes rs)")
  case None
  with assms show ?thesis by (simp add: receive_ready_def)
next
  case (Some p)
  then obtain e route where p: "p = (e, route)" "(e, route) \<in> set (routes rs)"
    by (cases p) (auto dest: find_SomeD)
  then have "hm_get (routes rs) e = Some route"
    using assms(1) by (simp add: route_inv_def hm_get_Some_mem)
  with assms Some p show ?thesis
    by (auto simp: receive_ready_def intro!: route_inv_update dest: receive_count
        split: prod.splits option.splits)
qed

lemma route_run_inv:
  assumes "route_run ops first rs ta"
  shows "route_inv ops first rs ta"
  using assms
proof induction
  case start
  then show ?case
    by (simp add: route_inv_def route_set_new_def allocator_new_def owned_tokens_def)
next
  case (send rs ta "open" e t payload w r rs' ta' w')
  show ?case by (rule route_inv_send [OF send(3,2)])
next
  case (receive rs ta tok len w q rs' w')
  show ?case by (rule route_inv_receive [OF receive(3,2)])
qed

lemma owner_unique:
  assumes "route_run ops first rs ta"
    and "hm_get (routes rs) e = Some route" "tok \<in> set (dr_tokens route)"
  shows "receive_ready ops tok len rs w =
    map_option (\<lambda>(q, x, w'). (q, rs\<lparr>routes := hm_insert e (route\<lparr>dr_execution := x\<rparr>) (routes rs)\<rparr>, w'))
      (ex_receive ops len (dr_execution route) w)"
proof -
  note inv = route_run_inv [OF assms(1)]
  then have mem: "(e, route) \<in> set (routes rs)"
    using assms(2) by (simp add: route_inv_def hm_get_Some_mem)
  obtain e' route' where f: "List.find (\<lambda>(_, r). tok \<in> set (dr_tokens r)) (routes rs) = Some (e', route')"
    using mem assms(3) by (cases "List.find (\<lambda>(_, r). tok \<in> set (dr_tokens r)) (routes rs)")
      (auto simp: find_None_iff)
  then have mem': "(e', route') \<in> set (routes rs)" "tok \<in> set (dr_tokens route')"
    by (auto dest: find_SomeD)
  have "distinct (concat (map (\<lambda>(_, r). dr_tokens r) (routes rs)))"
    using inv by (simp add: route_inv_def owned_tokens_def)
  then have "e' = e \<and> route' = route"
    using mem mem' assms(3) distinct_concat_owner by fastforce
  with f show ?thesis by (simp add: receive_ready_def split: option.split)
qed

end

interpretation direct: datagram_execution "direct_ops os uo"
proof unfold_locales
  show "ex_send (direct_ops os uo) t payload x w = Some (r, x', w') \<Longrightarrow>
      ex_count (direct_ops os uo) x' = ex_count (direct_ops os uo) x" for t payload x w r x' w'
    using direct_send_sockets [of os uo t payload x w r x' "fst w'" "snd w'"]
    by (simp add: direct_ops_def direct_count_def)
qed (auto simp: direct_ops_def direct_count_def direct_register_def Let_def
     split: prod.splits if_splits result.splits option.splits)

section \<open>Whom the DIRECT association listens to\<close>

text \<open>
  The addresses a send may add to the contacts: those the target resolved to and for which the
  operating system took the whole payload. Runs of an association keep them beside its state.
\<close>

definition contacts ::
  "'w net_os \<Rightarrow> 'w udp_os \<Rightarrow> target \<Rightarrow> bytes \<Rightarrow> 'w dns_engine \<times> 'w \<Rightarrow> socket_addr set" where
  "contacts os uo t payload dw =
     {a. delivered uo payload a \<and>
         (\<exists>as. fst (resolve_target os t (fst dw) (snd dw)) = Ok as \<and> a \<in> set as)}"

inductive direct_run :: "'w net_os \<Rightarrow> 'w udp_os \<Rightarrow> socket_addr set \<Rightarrow> direct_association \<Rightarrow> bool"
  for os :: "'w net_os" and uo :: "'w udp_os" where
  opened: "direct_new uo w = (Ok d, w') \<Longrightarrow> direct_run os uo {} d"
| sent: "direct_run os uo contacted d \<Longrightarrow> direct_send os uo t payload d dw = (Ok (), d', dw') \<Longrightarrow>
    direct_run os uo (contacted \<union> contacts os uo t payload dw) d'"
| failed: "direct_run os uo contacted d \<Longrightarrow> direct_send os uo t payload d dw = (Err k, d', dw') \<Longrightarrow>
    direct_run os uo contacted d'"

lemma direct_send_peers:
  assumes "direct_send os uo t payload d dw = (r, d', dw')"
  shows "(case r of Ok _ \<Rightarrow> set (remote_peers d') \<subseteq> set (remote_peers d) \<union> contacts os uo t payload dw
      | Err _ \<Rightarrow> d' = d) \<and>
    (length (remote_peers d) \<le> MAX_DATAGRAM_REMOTE_PEERS \<longrightarrow>
      length (remote_peers d') \<le> MAX_DATAGRAM_REMOTE_PEERS)"
  using assms
  by (auto simp: direct_send_def Let_def contacts_def dest!: direct_send_loop_peers
      split: prod.splits result.splits)

lemma direct_run_peers:
  assumes "direct_run os uo contacted d"
  shows "set (remote_peers d) \<subseteq> contacted \<and> length (remote_peers d) \<le> MAX_DATAGRAM_REMOTE_PEERS"
  using assms
proof induction
  case (opened w d w')
  then show ?case by (auto simp: direct_new_def split: prod.splits result.splits if_splits)
next
  case (sent contacted d t payload dw d' dw')
  with direct_send_peers [OF sent(2)] show ?case by auto
next
  case (failed contacted d t payload dw k d' dw')
  with direct_send_peers [OF failed(2)] show ?case by simp
qed

lemma receive_from_socket_Some:
  assumes "receive_from_socket n uo socket peers len w = (Ok (Some rd), w')"
  shows "\<exists>a \<in> set peers. rd_source rd = \<lparr>t_host = HIp (sock_ip a), t_port = sock_port a\<rparr> \<and>
    (\<exists>w1 w2. uo_recv_from uo socket len w1 = (Ok (rd_payload rd, a), w2))"
  using assms
proof (induction n arbitrary: w)
  case (Suc n)
  obtain q w1 where q: "uo_recv_from uo socket len w = (q, w1)" by (cases "uo_recv_from uo socket len w")
  show ?case
  proof (cases q)
    case (Err k)
    with Suc q show ?thesis by (auto split: if_splits)
  next
    case (Ok p)
    obtain payload source where p: "p = (payload, source)" by (cases p)
    show ?thesis
    proof (cases "source \<in> set peers")
      case True
      with Suc.prems q Ok p have "rd = \<lparr>rd_source = \<lparr>t_host = HIp (sock_ip source), t_port = sock_port source\<rparr>,
          rd_payload = payload\<rparr>"
        by (auto simp: target_new_def bindR_def split: if_splits)
      with True q Ok p show ?thesis by auto
    qed (use Suc q Ok p in auto)
  qed
qed simp

section \<open>Properties\<close>

text \<open>
  Property C30: an unsolicited datagram never reaches the client. Whatever was sent before, a
  datagram the DIRECT association hands on was received from an address to which an earlier send
  of this association was delivered, and it is attributed to exactly that address; the set of such
  addresses never exceeds 256.
\<close>

theorem direct_receives_only_contacted:
  assumes "direct_run os uo contacted d"
  shows "length (remote_peers d) \<le> 256 \<and>
    (\<forall>len w rd w'. direct_receive uo len d w = (Ok (Some rd), w') \<longrightarrow>
      (\<exists>a \<in> contacted. rd_source rd = \<lparr>t_host = HIp (sock_ip a), t_port = sock_port a\<rparr> \<and>
        (\<exists>socket w1 w2. uo_recv_from uo socket len w1 = (Ok (rd_payload rd, a), w2))))"
proof (intro conjI allI impI)
  show "length (remote_peers d) \<le> 256"
    using direct_run_peers [OF assms] by (simp add: MAX_DATAGRAM_REMOTE_PEERS_def)
  fix len w rd w'
  assume "direct_receive uo len d w = (Ok (Some rd), w')"
  then obtain n socket w0 where
    "receive_from_socket n uo socket (remote_peers d) len w0 = (Ok (Some rd), w')"
    by (auto simp: direct_receive_def split: if_splits prod.splits result.splits option.splits)
  from receive_from_socket_Some [OF this] direct_run_peers [OF assms]
  show "\<exists>a \<in> contacted. rd_source rd = \<lparr>t_host = HIp (sock_ip a), t_port = sock_port a\<rparr> \<and>
      (\<exists>socket w1 w2. uo_recv_from uo socket len w1 = (Ok (rd_payload rd, a), w2))"
    by blast
qed

text \<open>A sample environment: every send is taken, one datagram from the given address is pending.\<close>

definition sample_udp :: "socket_addr \<Rightarrow> unit udp_os" where
  "sample_udp source =
     \<lparr>uo_bind = (\<lambda>a w. (Ok (if sock_is_ipv4 a then 4 else 6), w)), uo_set_nonblocking = (\<lambda>_ w. (Ok (), w)),
      uo_send_to = (\<lambda>_ payload _ w. (Ok (length payload), w)),
      uo_recv_from = (\<lambda>_ _ w. (Ok ([42], source), w)), uo_register = (\<lambda>_ _ w. (Ok (), w))\<rparr>"

theorem direct_receives_only_contacted_witness:
  "\<exists>contacted d. direct_run (sample_os []) (sample_udp (SockV4 9 53)) contacted d \<and>
    direct_receive (sample_udp (SockV4 9 53)) 64 d ()
      = (Ok (Some \<lparr>rd_source = \<lparr>t_host = HIp (V4 9), t_port = 53\<rparr>, rd_payload = [42]\<rparr>), ()) \<and>
    (\<exists>a \<in> contacted. HIp (V4 9) = HIp (sock_ip a) \<and> sock_port a = 53)"
proof -
  let ?os = "sample_os [] :: unit net_os" and ?uo = "sample_udp (SockV4 9 53)"
    and ?t = "\<lparr>t_host = HIp (V4 9), t_port = 53\<rparr>" and ?dw = "(sample_engine, ())"
  let ?d = "\<lparr>da_ipv4 = 4, da_ipv6 = Some 6, remote_peers = []\<rparr>"
  have "direct_new ?uo () = (Ok ?d, ())" by code_simp
  then have "direct_run ?os ?uo {} ?d" by (rule direct_run.opened)
  moreover have "direct_send ?os ?uo ?t [1] ?d ?dw = (Ok (), ?d\<lparr>remote_peers := [SockV4 9 53]\<rparr>, ?dw)"
    by (simp add: direct_send_def resolve_target_def send_to_resolved_def sample_udp_def
        socket_addr_new_def bindR_def MAX_DATAGRAM_REMOTE_PEERS_def push_new_def)
  ultimately have run: "direct_run ?os ?uo ({} \<union> contacts ?os ?uo ?t [1] ?dw) (?d\<lparr>remote_peers := [SockV4 9 53]\<rparr>)"
    by (rule direct_run.sent)
  have rec: "direct_receive ?uo 64 (?d\<lparr>remote_peers := [SockV4 9 53]\<rparr>) ()
      = (Ok (Some \<lparr>rd_source = ?t, rd_payload = [42]\<rparr>), ())"
    by code_simp
  from direct_receives_only_contacted [OF run] rec run show ?thesis by fastforce
qed

end
