(* ===== verification/Tls.thy ===== *)
theory Tls
  imports Datagram
begin

text \<open>
  The nonblocking parts of \<open>crates/transport/src/tls.rs\<close>: poll registrations, the pending
  buffers, the relay between a client socket and a TLS connection, and the framed session an
  external readiness loop drives. The TLS engine (rustls), the sockets and the poll instance are
  the parameters of \<open>tls_env\<close>. A loop that retries on \<open>Interrupted\<close> or reads until
  \<open>WouldBlock\<close> need not end; it is a partial function whose value is \<open>None\<close> then.
  Connecting and the options set before the relay starts are in \<open>Tls_Connect\<close>.
\<close>

section \<open>Definitions\<close>

definition CLIENT :: token where "CLIENT = 0"
definition REMOTE :: token where "REMOTE = 1"
definition IO_CHUNK :: nat where "IO_CHUNK = 16 * 1024"

record mio_event =
  ev_token :: token
  ev_readable :: bool
  ev_writable :: bool
  ev_error :: bool
  ev_read_closed :: bool
  ev_write_closed :: bool

text \<open>
  The TLS engine: plaintext in and out, encrypted reads and writes on a socket, packet processing
  and the closing alert. Sockets are descriptors; an interest is the pair of its directions.
\<close>

record ('c, 'w) tls_env =
  tls_write :: "bytes \<Rightarrow> 'c \<Rightarrow> (nat, error_kind) result \<times> 'c"
  tls_read :: "nat \<Rightarrow> 'c \<Rightarrow> (bytes, error_kind) result \<times> 'c"
  wants_read :: "'c \<Rightarrow> bool"
  wants_write :: "'c \<Rightarrow> bool"
  read_tls :: "nat \<Rightarrow> 'c \<Rightarrow> 'w \<Rightarrow> (nat, error_kind) result \<times> 'c \<times> 'w"
  process_new_packets :: "'c \<Rightarrow> bool \<times> 'c"
  write_tls :: "nat \<Rightarrow> 'c \<Rightarrow> 'w \<Rightarrow> (nat, error_kind) result \<times> 'c \<times> 'w"
  send_close_notify :: "'c \<Rightarrow> 'c"
  sock_read :: "nat \<Rightarrow> nat \<Rightarrow> 'w \<Rightarrow> (bytes, error_kind) result \<times> 'w"
  sock_write :: "nat \<Rightarrow> bytes \<Rightarrow> 'w \<Rightarrow> (nat, error_kind) result \<times> 'w"
  sock_shutdown_write :: "nat \<Rightarrow> 'w \<Rightarrow> (unit, error_kind) result \<times> 'w"
  mio_register :: "nat \<Rightarrow> token \<Rightarrow> bool \<times> bool \<Rightarrow> 'w \<Rightarrow> (unit, error_kind) result \<times> 'w"
  mio_reregister :: "nat \<Rightarrow> token \<Rightarrow> bool \<times> bool \<Rightarrow> 'w \<Rightarrow> (unit, error_kind) result \<times> 'w"
  mio_deregister :: "nat \<Rightarrow> 'w \<Rightarrow> (unit, error_kind) result \<times> 'w"
  mio_poll :: "'w \<Rightarrow> (mio_event list, error_kind) result \<times> 'w"

subsection \<open>Registrations and pending buffers\<close>

record registration =
  registered :: bool
  reg_readable :: bool
  reg_writable :: bool

definition registration_default :: registration where
  "registration_default = \<lparr>registered = False, reg_readable = False, reg_writable = False\<rparr>"

definition update_registration ::
  "('c, 'w) tls_env \<Rightarrow> nat \<Rightarrow> token \<Rightarrow> bool \<Rightarrow> bool \<Rightarrow> registration \<Rightarrow> 'w
    \<Rightarrow> (unit, error_kind) result \<times> registration \<times> 'w" where
  "update_registration env socket tok readable writable reg w =
     (if \<not> readable \<and> \<not> writable then
        if registered reg then
          (case mio_deregister env socket w of
             (Err k, w) \<Rightarrow> (Err k, reg, w)
           | (Ok _, w) \<Rightarrow> (Ok (), registration_default, w))
        else (Ok (), reg, w)
      else if \<not> registered reg then
        (case mio_register env socket tok (readable, writable) w of
           (Err k, w) \<Rightarrow> (Err k, reg, w)
         | (Ok _, w) \<Rightarrow> (Ok (), \<lparr>registered = True, reg_readable = readable, reg_writable = writable\<rparr>, w))
      else if reg_readable reg \<noteq> readable \<or> reg_writable reg \<noteq> writable then
        (case mio_reregister env socket tok (readable, writable) w of
           (Err k, w) \<Rightarrow> (Err k, reg, w)
         | (Ok _, w) \<Rightarrow> (Ok (), reg\<lparr>reg_readable := readable, reg_writable := writable\<rparr>, w))
      else (Ok (), reg, w))"

record pending_buf =
  pd_bytes :: bytes
  pd_offset :: nat

definition pd_default :: pending_buf where
  "pd_default = \<lparr>pd_bytes = [], pd_offset = 0\<rparr>"

definition pd_is_empty :: "pending_buf \<Rightarrow> bool" where
  "pd_is_empty p \<longleftrightarrow> length (pd_bytes p) \<le> pd_offset p"

definition pd_clear :: "pending_buf \<Rightarrow> pending_buf" where
  "pd_clear p = p\<lparr>pd_bytes := [], pd_offset := 0\<rparr>"

definition pd_remaining :: "pending_buf \<Rightarrow> bytes" where
  "pd_remaining p = drop (pd_offset p) (pd_bytes p)"

definition pd_settle :: "pending_buf \<Rightarrow> pending_buf" where
  \<comment> \<open>the clean-up at the end of both draining loops\<close>
  "pd_settle p = (if pd_is_empty p then pd_clear p else p)"

subsection \<open>The four directions\<close>

definition read_client ::
  "('c, 'w) tls_env \<Rightarrow> nat \<Rightarrow> pending_buf \<Rightarrow> bool \<Rightarrow> 'w
    \<Rightarrow> (unit, error_kind) result \<times> pending_buf \<times> bool \<times> 'w" where
  "read_client env client p eof w =
     (if \<not> pd_is_empty p then (Ok (), p, eof, w)
      else (case sock_read env client IO_CHUNK w of
        (Ok bs, w) \<Rightarrow>
          if bs = [] then (Ok (), pd_clear p, True, w)
          else (Ok (), (pd_clear p)\<lparr>pd_bytes := bs\<rparr>, eof, w)
      | (Err k, w) \<Rightarrow>
          if k = WouldBlock \<or> k = Interrupted then (Ok (), pd_clear p, eof, w)
          else (Err k, pd_clear p, eof, w)))"

partial_function (option) feed_upstream ::
  "('c, 'w) tls_env \<Rightarrow> 'c \<Rightarrow> pending_buf \<Rightarrow> ((unit, error_kind) result \<times> 'c \<times> pending_buf) option" where
  "feed_upstream env c p =
     (if pd_is_empty p then Some (Ok (), c, pd_settle p)
      else (case tls_write env (pd_remaining p) c of
        (Ok n, c) \<Rightarrow>
          if n = 0 then Some (Ok (), c, pd_settle p)
          else feed_upstream env c (p\<lparr>pd_offset := pd_offset p + n\<rparr>)
      | (Err k, c) \<Rightarrow>
          if k = WouldBlock then Some (Ok (), c, pd_settle p)
          else if k = Interrupted then feed_upstream env c p
          else Some (Err k, c, p)))"

partial_function (option) read_remote_tls ::
  "('c, 'w) tls_env \<Rightarrow> nat \<Rightarrow> 'c \<Rightarrow> bool \<Rightarrow> 'w \<Rightarrow> ((unit, error_kind) result \<times> 'c \<times> bool \<times> 'w) option" where
  "read_remote_tls env remote c eof w =
     (case read_tls env remote c w of
        (Ok n, c, w) \<Rightarrow>
          if n = 0 then Some (Ok (), c, True, w)
          else (case process_new_packets env c of
                  (valid, c) \<Rightarrow>
                    if valid then read_remote_tls env remote c eof w
                    else Some (Err InvalidData, c, eof, w))
      | (Err k, c, w) \<Rightarrow>
          if k = WouldBlock then Some (Ok (), c, eof, w)
          else if k = Interrupted then read_remote_tls env remote c eof w
          else Some (Err k, c, eof, w))"

partial_function (option) write_remote_tls ::
  "('c, 'w) tls_env \<Rightarrow> nat \<Rightarrow> 'c \<Rightarrow> 'w \<Rightarrow> ((unit, error_kind) result \<times> 'c \<times> 'w) option" where
  "write_remote_tls env remote c w =
     (if \<not> wants_write env c then Some (Ok (), c, w)
      else (case write_tls env remote c w of
        (Ok n, c, w) \<Rightarrow> if n = 0 then Some (Ok (), c, w) else write_remote_tls env remote c w
      | (Err k, c, w) \<Rightarrow>
          if k = WouldBlock then Some (Ok (), c, w)
          else if k = Interrupted then write_remote_tls env remote c w
          else Some (Err k, c, w)))"

definition fill_downstream ::
  "('c, 'w) tls_env \<Rightarrow> 'c \<Rightarrow> pending_buf \<Rightarrow> (unit, error_kind) result \<times> 'c \<times> pending_buf" where
  "fill_downstream env c p =
     (if \<not> pd_is_empty p then (Ok (), c, p)
      else (case tls_read env IO_CHUNK c of
        (Ok bs, c) \<Rightarrow> (Ok (), c, (pd_clear p)\<lparr>pd_bytes := bs\<rparr>)
      | (Err k, c) \<Rightarrow>
          if k = WouldBlock \<or> k = Interrupted then (Ok (), c, pd_clear p)
          else (Err k, c, pd_clear p)))"

partial_function (option) write_pending ::
  "('c, 'w) tls_env \<Rightarrow> nat \<Rightarrow> pending_buf \<Rightarrow> 'w \<Rightarrow> ((unit, error_kind) result \<times> pending_buf \<times> 'w) option" where
  "write_pending env socket p w =
     (if pd_is_empty p then Some (Ok (), pd_settle p, w)
      else (case sock_write env socket (pd_remaining p) w of
        (Ok n, w) \<Rightarrow>
          if n = 0 then Some (Err WriteZero, p, w)
          else write_pending env socket (p\<lparr>pd_offset := pd_offset p + n\<rparr>) w
      | (Err k, w) \<Rightarrow>
          if k = WouldBlock then Some (Ok (), pd_settle p, w)
          else if k = Interrupted then write_pending env socket p w
          else Some (Err k, p, w)))"

subsection \<open>The relay\<close>

record 'c relay_state =
  rl_connection :: 'c
  rl_client_reg :: registration
  rl_remote_reg :: registration
  rl_client_eof :: bool
  rl_remote_eof :: bool
  rl_close_notify_sent :: bool
  rl_client_write_shutdown :: bool
  rl_upstream :: pending_buf
  rl_downstream :: pending_buf

definition relay_start :: "'c \<Rightarrow> 'c relay_state" where
  "relay_start c =
     \<lparr>rl_connection = c, rl_client_reg = registration_default, rl_remote_reg = registration_default,
      rl_client_eof = False, rl_remote_eof = False, rl_close_notify_sent = False,
      rl_client_write_shutdown = False, rl_upstream = pd_default, rl_downstream = pd_default\<rparr>"

definition close_notify :: "('c, 'w) tls_env \<Rightarrow> 'c relay_state \<Rightarrow> 'c relay_state" where
  "close_notify env st =
     (if rl_close_notify_sent st then st
      else st\<lparr>rl_connection := send_close_notify env (rl_connection st), rl_close_notify_sent := True\<rparr>)"

definition relay_pump ::
  "('c, 'w) tls_env \<Rightarrow> 'c relay_state \<Rightarrow> ((unit, error_kind) result \<times> 'c relay_state) option" where
  "relay_pump env st =
     (case feed_upstream env (rl_connection st) (rl_upstream st) of
        None \<Rightarrow> None
      | Some (r, c, up) \<Rightarrow>
          (let st = st\<lparr>rl_connection := c, rl_upstream := up\<rparr>
           in case r of
                Err k \<Rightarrow> Some (Err k, st)
              | Ok _ \<Rightarrow>
                  (let (r, c, down) = fill_downstream env c (rl_downstream st)
                   in Some (r, st\<lparr>rl_connection := c, rl_downstream := down\<rparr>))))"

definition relay_closing ::
  "('c, 'w) tls_env \<Rightarrow> nat \<Rightarrow> 'c relay_state \<Rightarrow> 'w \<Rightarrow> (unit, error_kind) result \<times> 'c relay_state \<times> 'w" where
  "relay_closing env client st w =
     (let st = (if rl_client_eof st \<and> pd_is_empty (rl_upstream st) then close_notify env st else st)
      in if rl_remote_eof st \<and> pd_is_empty (rl_downstream st) \<and> \<not> rl_client_write_shutdown st then
           (case sock_shutdown_write env client w of
              (Err k, w) \<Rightarrow> (Err k, st, w)
            | (Ok _, w) \<Rightarrow>
                (Ok (), close_notify env (st\<lparr>rl_client_write_shutdown := True, rl_client_eof := True\<rparr>), w))
         else (Ok (), st, w))"

definition relay_finished :: "('c, 'w) tls_env \<Rightarrow> 'c relay_state \<Rightarrow> bool" where
  "relay_finished env st \<longleftrightarrow>
     rl_client_eof st \<and> rl_remote_eof st \<and> pd_is_empty (rl_upstream st) \<and> pd_is_empty (rl_downstream st) \<and>
     \<not> wants_write env (rl_connection st)"

record relay_interest =
  client_read :: bool
  client_write :: bool
  remote_read :: bool
  remote_write :: bool

definition relay_interest_of :: "('c, 'w) tls_env \<Rightarrow> 'c relay_state \<Rightarrow> relay_interest" where
  "relay_interest_of env st =
     \<lparr>client_read = (\<not> rl_client_eof st \<and> pd_is_empty (rl_upstream st)),
      client_write = (\<not> pd_is_empty (rl_downstream st)),
      remote_read = (\<not> rl_remote_eof st \<and> wants_read env (rl_connection st)),
      remote_write = wants_write env (rl_connection st)\<rparr>"

definition relay_register ::
  "('c, 'w) tls_env \<Rightarrow> nat \<Rightarrow> nat \<Rightarrow> relay_interest \<Rightarrow> 'c relay_state \<Rightarrow> 'w
    \<Rightarrow> (unit, error_kind) result \<times> 'c relay_state \<times> 'w" where
  "relay_register env client remote ri st w =
     (let (r, reg, w) = update_registration env client CLIENT (client_read ri) (client_write ri) (rl_client_reg st) w;
          st = st\<lparr>rl_client_reg := reg\<rparr>
      in case r of
           Err k \<Rightarrow> (Err k, st, w)
         | Ok _ \<Rightarrow>
             (let (r, reg, w) =
                update_registration env remote REMOTE (remote_read ri) (remote_write ri) (rl_remote_reg st) w;
                st = st\<lparr>rl_remote_reg := reg\<rparr>
              in case r of
                   Err k \<Rightarrow> (Err k, st, w)
                 | Ok _ \<Rightarrow>
                     if \<not> registered (rl_client_reg st) \<and> \<not> registered (rl_remote_reg st)
                     then (Err UnexpectedEof, st, w) else (Ok (), st, w)))"

definition client_event ::
  "('c, 'w) tls_env \<Rightarrow> nat \<Rightarrow> relay_interest \<Rightarrow> mio_event \<Rightarrow> 'c relay_state \<Rightarrow> 'w
    \<Rightarrow> ((unit, error_kind) result \<times> 'c relay_state \<times> 'w) option" where
  "client_event env client ri ev st w =
     (let (r, up, eof, w) =
        (if ev_readable ev \<and> client_read ri then read_client env client (rl_upstream st) (rl_client_eof st) w
         else (Ok (), rl_upstream st, rl_client_eof st, w));
        st = st\<lparr>rl_upstream := up, rl_client_eof := eof\<rparr>
      in case r of
           Err k \<Rightarrow> Some (Err k, st, w)
         | Ok _ \<Rightarrow>
             (case (if ev_writable ev \<and> client_write ri then write_pending env client (rl_downstream st) w
                    else Some (Ok (), rl_downstream st, w)) of
                None \<Rightarrow> None
              | Some (r, down, w) \<Rightarrow>
                  (let st = st\<lparr>rl_downstream := down\<rparr>
                   in case r of
                        Err k \<Rightarrow> Some (Err k, st, w)
                      | Ok _ \<Rightarrow>
                          Some (Ok (), if ev_error ev \<or> ev_read_closed ev \<or> ev_write_closed ev
                                       then st\<lparr>rl_client_eof := True\<rparr> else st, w))))"

definition remote_event ::
  "('c, 'w) tls_env \<Rightarrow> nat \<Rightarrow> relay_interest \<Rightarrow> mio_event \<Rightarrow> 'c relay_state \<Rightarrow> 'w
    \<Rightarrow> ((unit, error_kind) result \<times> 'c relay_state \<times> 'w) option" where
  "remote_event env remote ri ev st w =
     (case (if ev_readable ev \<and> remote_read ri
            then read_remote_tls env remote (rl_connection st) (rl_remote_eof st) w
            else Some (Ok (), rl_connection st, rl_remote_eof st, w)) of
        None \<Rightarrow> None
      | Some (r, c, eof, w) \<Rightarrow>
          (let st = st\<lparr>rl_connection := c, rl_remote_eof := eof\<rparr>
           in case r of
                Err k \<Rightarrow> Some (Err k, st, w)
              | Ok _ \<Rightarrow>
                  (case (if ev_writable ev \<and> remote_write ri then write_remote_tls env remote c w
                         else Some (Ok (), c, w)) of
                     None \<Rightarrow> None
                   | Some (r, c, w) \<Rightarrow>
                       (let st = st\<lparr>rl_connection := c\<rparr>
                        in case r of
                             Err k \<Rightarrow> Some (Err k, st, w)
                           | Ok _ \<Rightarrow>
                               Some (Ok (), if ev_error ev \<or> ev_read_closed ev \<or> ev_write_closed ev
                                            then st\<lparr>rl_remote_eof := True\<rparr> else st, w)))))"

fun relay_events ::
  "('c, 'w) tls_env \<Rightarrow> nat \<Rightarrow> nat \<Rightarrow> relay_interest \<Rightarrow> mio_event list \<Rightarrow> 'c relay_state \<Rightarrow> 'w
    \<Rightarrow> ((unit, error_kind) result \<times> 'c relay_state \<times> 'w) option" where
  "relay_events env client remote ri [] st w = Some (Ok (), st, w)"
| "relay_events env client remote ri (ev # evs) st w =
     (case (if ev_token ev = CLIENT then client_event env client ri ev st w
            else if ev_token ev = REMOTE then remote_event env remote ri ev st w
            else Some (Ok (), st, w)) of
        None \<Rightarrow> None
      | Some (Err k, st, w) \<Rightarrow> Some (Err k, st, w)
      | Some (Ok _, st, w) \<Rightarrow> relay_events env client remote ri evs st w)"

text \<open>One turn of the loop: the value of the relay when it ends there, or nothing.\<close>

definition relay_turn ::
  "('c, 'w) tls_env \<Rightarrow> nat \<Rightarrow> nat \<Rightarrow> 'c relay_state \<Rightarrow> 'w
    \<Rightarrow> ((unit, error_kind) result option \<times> 'c relay_state \<times> 'w) option" where
  "relay_turn env client remote st w =
     (case relay_pump env st of
        None \<Rightarrow> None
      | Some (Err k, st) \<Rightarrow> Some (Some (Err k), st, w)
      | Some (Ok _, st) \<Rightarrow>
          (case relay_closing env client st w of
             (Err k, st, w) \<Rightarrow> Some (Some (Err k), st, w)
           | (Ok _, st, w) \<Rightarrow>
               if relay_finished env st then Some (Some (Ok ()), st, w)
               else
                 (let ri = relay_interest_of env st
                  in case relay_register env client remote ri st w of
                       (Err k, st, w) \<Rightarrow> Some (Some (Err k), st, w)
                     | (Ok _, st, w) \<Rightarrow>
                         (case mio_poll env w of
                            (Err k, w) \<Rightarrow> Some (Some (Err k), st, w)
                          | (Ok evs, w) \<Rightarrow>
                              (case relay_events env client remote ri evs st w of
                                 None \<Rightarrow> None
                               | Some (Err k, st, w) \<Rightarrow> Some (Some (Err k), st, w)
                               | Some (Ok _, st, w) \<Rightarrow> Some (None, st, w))))))"

partial_function (option) relay_loop ::
  "('c, 'w) tls_env \<Rightarrow> nat \<Rightarrow> nat \<Rightarrow> 'c relay_state \<Rightarrow> 'w
    \<Rightarrow> ((unit, error_kind) result \<times> 'c relay_state \<times> 'w) option" where
  "relay_loop env client remote st w =
     (case relay_turn env client remote st w of
        None \<Rightarrow> None
      | Some (Some r, st, w) \<Rightarrow> Some (r, st, w)
      | Some (None, st, w) \<Rightarrow> relay_loop env client remote st w)"

subsection \<open>The framed session\<close>

record 'c framed_session =
  fs_connection :: 'c
  fs_remote :: nat
  fs_registration :: registration
  fs_remote_eof :: bool

definition write_plaintext ::
  "('c, 'w) tls_env \<Rightarrow> bytes \<Rightarrow> 'c framed_session \<Rightarrow> (nat, error_kind) result \<times> 'c framed_session" where
  "write_plaintext env buffer s =
     (let (r, c) = tls_write env buffer (fs_connection s) in (r, s\<lparr>fs_connection := c\<rparr>))"

definition read_plaintext ::
  "('c, 'w) tls_env \<Rightarrow> nat \<Rightarrow> 'c framed_session \<Rightarrow> (bytes, error_kind) result \<times> 'c framed_session" where
  "read_plaintext env len s =
     (let (r, c) = tls_read env len (fs_connection s) in (r, s\<lparr>fs_connection := c\<rparr>))"

definition fs_refresh_readiness ::
  "('c, 'w) tls_env \<Rightarrow> token \<Rightarrow> 'c framed_session \<Rightarrow> 'w
    \<Rightarrow> (unit, error_kind) result \<times> 'c framed_session \<times> 'w" where
  "fs_refresh_readiness env tok s w =
     (let (r, reg, w) = update_registration env (fs_remote s) tok
        (\<not> fs_remote_eof s \<and> wants_read env (fs_connection s)) (wants_write env (fs_connection s))
        (fs_registration s) w
      in (r, s\<lparr>fs_registration := reg\<rparr>, w))"

definition fs_register_readiness ::
  "('c, 'w) tls_env \<Rightarrow> token \<Rightarrow> 'c framed_session \<Rightarrow> 'w
    \<Rightarrow> (unit, error_kind) result \<times> 'c framed_session \<times> 'w" where
  "fs_register_readiness env tok s w =
     (if registered (fs_registration s) then (Err AlreadyExists, s, w) else fs_refresh_readiness env tok s w)"

definition service_io ::
  "('c, 'w) tls_env \<Rightarrow> 'c framed_session \<Rightarrow> 'w
    \<Rightarrow> ((unit, error_kind) result \<times> 'c framed_session \<times> 'w) option" where
  "service_io env s w =
     (case write_remote_tls env (fs_remote s) (fs_connection s) w of
        None \<Rightarrow> None
      | Some (Err k, c, w) \<Rightarrow> Some (Err k, s\<lparr>fs_connection := c\<rparr>, w)
      | Some (Ok _, c, w) \<Rightarrow>
          (case (if fs_remote_eof s then Some (Ok (), c, True, w)
                 else read_remote_tls env (fs_remote s) c False w) of
             None \<Rightarrow> None
           | Some (Err k, c, eof, w) \<Rightarrow> Some (Err k, s\<lparr>fs_connection := c, fs_remote_eof := eof\<rparr>, w)
           | Some (Ok _, c, eof, w) \<Rightarrow>
               (case write_remote_tls env (fs_remote s) c w of
                  None \<Rightarrow> None
                | Some (r, c, w) \<Rightarrow> Some (r, s\<lparr>fs_connection := c, fs_remote_eof := eof\<rparr>, w))))"

section \<open>What the relay relies on\<close>

text \<open>
  The bytes a connection has accepted and produced as plaintext, and the bytes that came from and
  went to the client socket. Reads and writes report what they moved; no other operation of the
  environment moves plaintext or client bytes.
\<close>

record ('c, 'w) ghost =
  accepted :: "'c \<Rightarrow> bytes"
  produced :: "'c \<Rightarrow> bytes"
  received :: "'w \<Rightarrow> bytes"
  delivered_to :: "'w \<Rightarrow> bytes"

definition same_plain :: "('c, 'w) ghost \<Rightarrow> 'c \<Rightarrow> 'c \<Rightarrow> bool" where
  "same_plain g c c' \<longleftrightarrow> accepted g c' = accepted g c \<and> produced g c' = produced g c"

definition same_client :: "('c, 'w) ghost \<Rightarrow> 'w \<Rightarrow> 'w \<Rightarrow> bool" where
  "same_client g w w' \<longleftrightarrow> received g w' = received g w \<and> delivered_to g w' = delivered_to g w"

definition faithful_plaintext :: "('c, 'w) tls_env \<Rightarrow> ('c, 'w) ghost \<Rightarrow> bool" where
  "faithful_plaintext env g \<longleftrightarrow>
     (\<forall>bs c. case tls_write env bs c of
        (Ok n, c') \<Rightarrow> n \<le> length bs \<and> accepted g c' = accepted g c @ take n bs \<and> produced g c' = produced g c
      | (Err _, c') \<Rightarrow> same_plain g c c') \<and>
     (\<forall>n c. case tls_read env n c of
        (Ok bs, c') \<Rightarrow> produced g c' = produced g c @ bs \<and> accepted g c' = accepted g c
      | (Err _, c') \<Rightarrow> same_plain g c c')"

definition faithful_client :: "('c, 'w) tls_env \<Rightarrow> nat \<Rightarrow> ('c, 'w) ghost \<Rightarrow> bool" where
  "faithful_client env client g \<longleftrightarrow>
     (\<forall>n w. case sock_read env client n w of
        (Ok bs, w') \<Rightarrow> received g w' = received g w @ bs \<and> delivered_to g w' = delivered_to g w
      | (Err _, w') \<Rightarrow> same_client g w w') \<and>
     (\<forall>bs w. case sock_write env client bs w of
        (Ok n, w') \<Rightarrow> n \<le> length bs \<and> delivered_to g w' = delivered_to g w @ take n bs \<and>
          received g w' = received g w
      | (Err _, w') \<Rightarrow> same_client g w w')"

definition faithful_rest :: "('c, 'w) tls_env \<Rightarrow> ('c, 'w) ghost \<Rightarrow> bool" where
  "faithful_rest env g \<longleftrightarrow>
     (\<forall>s c w r c' w'. read_tls env s c w = (r, c', w') \<longrightarrow> same_plain g c c' \<and> same_client g w w') \<and>
     (\<forall>s c w r c' w'. write_tls env s c w = (r, c', w') \<longrightarrow> same_plain g c c' \<and> same_client g w w') \<and>
     (\<forall>c. same_plain g c (snd (process_new_packets env c))) \<and>
     (\<forall>c. same_plain g c (send_close_notify env c)) \<and>
     (\<forall>s w. same_client g w (snd (sock_shutdown_write env s w))) \<and>
     (\<forall>s t i w. same_client g w (snd (mio_register env s t i w))) \<and>
     (\<forall>s t i w. same_client g w (snd (mio_reregister env s t i w))) \<and>
     (\<forall>s w. same_client g w (snd (mio_deregister env s w))) \<and>
     (\<forall>w. same_client g w (snd (mio_poll env w)))"

lemma same_refl [simp]: "same_plain g c c" "same_client g w w"
  by (simp_all add: same_plain_def same_client_def)

lemma same_plain_trans: "same_plain g a b \<Longrightarrow> same_plain g b c \<Longrightarrow> same_plain g a c"
  by (simp add: same_plain_def)

lemma same_client_trans: "same_client g a b \<Longrightarrow> same_client g b c \<Longrightarrow> same_client g a c"
  by (simp add: same_client_def)

section \<open>Plaintext conservation\<close>

lemma remaining_settle [simp]: "pd_remaining (pd_settle p) = pd_remaining p"
  by (simp add: pd_settle_def pd_remaining_def pd_clear_def pd_is_empty_def)

lemma remaining_empty: "pd_is_empty p \<longleftrightarrow> pd_remaining p = []"
  by (simp add: pd_remaining_def pd_is_empty_def)

lemma remaining_advance: "pd_remaining (p\<lparr>pd_offset := pd_offset p + n\<rparr>) = drop n (pd_remaining p)"
  by (simp add: pd_remaining_def add.commute)

lemma tls_write_law:
  assumes "faithful_plaintext env g" "tls_write env bs c = (q, c')"
  shows "case q of
      Ok n \<Rightarrow> n \<le> length bs \<and> accepted g c' = accepted g c @ take n bs \<and> produced g c' = produced g c
    | Err _ \<Rightarrow> same_plain g c c'"
proof -
  have "case tls_write env bs c of
        (Ok n, c') \<Rightarrow> n \<le> length bs \<and> accepted g c' = accepted g c @ take n bs \<and> produced g c' = produced g c
      | (Err _, c') \<Rightarrow> same_plain g c c'"
    using assms(1) unfolding faithful_plaintext_def by simp
  with assms(2) show ?thesis by (simp split: result.splits)
qed

lemma sock_write_law:
  assumes "faithful_client env client g" "sock_write env client bs w = (q, w')"
  shows "case q of
      Ok n \<Rightarrow> n \<le> length bs \<and> delivered_to g w' = delivered_to g w @ take n bs \<and> received g w' = received g w
    | Err _ \<Rightarrow> same_client g w w'"
proof -
  have "case sock_write env client bs w of
        (Ok n, w') \<Rightarrow> n \<le> length bs \<and> delivered_to g w' = delivered_to g w @ take n bs \<and>
          received g w' = received g w
      | (Err _, w') \<Rightarrow> same_client g w w'"
    using assms(1) unfolding faithful_client_def by simp
  with assms(2) show ?thesis by (simp split: result.splits)
qed

lemma feed_upstream_flow:
  assumes "feed_upstream env c p = Some y"
  shows "faithful_plaintext env g \<longrightarrow>
    accepted g (fst (snd y)) @ pd_remaining (snd (snd y)) = accepted g c @ pd_remaining p \<and>
    produced g (fst (snd y)) = produced g c"
proof (rule feed_upstream.raw_induct [where P = "\<lambda>env c p y. faithful_plaintext env g \<longrightarrow>
    accepted g (fst (snd y)) @ pd_remaining (snd (snd y)) = accepted g c @ pd_remaining p \<and>
    produced g (fst (snd y)) = produced g c", OF _ assms], intro impI, goal_cases)
  case (1 feed env c p y)
  obtain q c1 where t: "tls_write env (pd_remaining p) c = (q, c1)" by (cases "tls_write env (pd_remaining p) c")
  note law = tls_write_law [OF 1(3) t]
  show ?case
  proof (cases q)
    case (Ok n)
    with law t 1(2) 1(3) 1(1) [of env c1 "p\<lparr>pd_offset := pd_offset p + n\<rparr>" y] show ?thesis
      by (auto simp: remaining_advance remaining_empty split: if_splits)
  next
    case (Err k)
    with law t 1(2) 1(3) 1(1) [of env c1 p y] show ?thesis
      by (auto simp: same_plain_def split: if_splits)
  qed
qed

lemma write_pending_flow:
  assumes "write_pending env socket p w = Some y"
  shows "faithful_client env socket g \<longrightarrow>
    delivered_to g (snd (snd y)) @ pd_remaining (fst (snd y)) = delivered_to g w @ pd_remaining p \<and>
    received g (snd (snd y)) = received g w"
proof (rule write_pending.raw_induct [where P = "\<lambda>env socket p w y. faithful_client env socket g \<longrightarrow>
    delivered_to g (snd (snd y)) @ pd_remaining (fst (snd y)) = delivered_to g w @ pd_remaining p \<and>
    received g (snd (snd y)) = received g w", OF _ assms], intro impI, goal_cases)
  case (1 feed env socket p w y)
  obtain q w1 where t: "sock_write env socket (pd_remaining p) w = (q, w1)"
    by (cases "sock_write env socket (pd_remaining p) w")
  note law = sock_write_law [OF 1(3) t]
  show ?case
  proof (cases q)
    case (Ok n)
    with law t 1(2) 1(3) 1(1) [of env socket "p\<lparr>pd_offset := pd_offset p + n\<rparr>" w1 y] show ?thesis
      by (auto simp: remaining_advance remaining_empty split: if_splits)
  next
    case (Err k)
    with law t 1(2) 1(3) 1(1) [of env socket p w1 y] show ?thesis
      by (auto simp: same_client_def split: if_splits)
  qed
qed

lemma fill_downstream_flow:
  assumes "fill_downstream env c p = (r, c', p')" "faithful_plaintext env g"
  shows "accepted g c' = accepted g c \<and>
    (\<exists>x. produced g c' = produced g c @ x \<and> pd_remaining p' = pd_remaining p @ x)"
proof -
  have "case tls_read env IO_CHUNK c of
      (Ok bs, c') \<Rightarrow> produced g c' = produced g c @ bs \<and> accepted g c' = accepted g c
    | (Err _, c') \<Rightarrow> same_plain g c c'"
    using assms(2) unfolding faithful_plaintext_def by simp
  with assms(1) show ?thesis
    by (auto simp: fill_downstream_def remaining_empty same_plain_def
        split: if_splits prod.splits result.splits) (auto simp: pd_remaining_def pd_clear_def)
qed

lemma read_client_flow:
  assumes "read_client env client p eof w = (r, p', eof', w')" "faithful_client env client g"
  shows "delivered_to g w' = delivered_to g w \<and>
    (\<exists>x. received g w' = received g w @ x \<and> pd_remaining p' = pd_remaining p @ x)"
proof -
  have "case sock_read env client IO_CHUNK w of
      (Ok bs, w') \<Rightarrow> received g w' = received g w @ bs \<and> delivered_to g w' = delivered_to g w
    | (Err _, w') \<Rightarrow> same_client g w w'"
    using assms(2) unfolding faithful_client_def by simp
  with assms(1) show ?thesis
    by (auto simp: read_client_def remaining_empty same_client_def
        split: if_splits prod.splits result.splits) (auto simp: pd_remaining_def pd_clear_def)
qed

lemma tls_io_same:
  assumes "faithful_rest env g"
  shows "read_tls env s c w = (r, c', w') \<Longrightarrow> same_plain g c c' \<and> same_client g w w'"
    and "write_tls env s c w = (r, c', w') \<Longrightarrow> same_plain g c c' \<and> same_client g w w'"
  using assms unfolding faithful_rest_def by metis+

lemma read_remote_same:
  assumes "read_remote_tls env remote c eof w = Some y"
  shows "faithful_rest env g \<longrightarrow> same_plain g c (fst (snd y)) \<and> same_client g w (snd (snd (snd y)))"
proof (rule read_remote_tls.raw_induct [where P = "\<lambda>env remote c eof w y. faithful_rest env g \<longrightarrow>
    same_plain g c (fst (snd y)) \<and> same_client g w (snd (snd (snd y)))", OF _ assms], intro impI, goal_cases)
  case (1 loop env remote c eof w y)
  obtain q c1 w1 where t: "read_tls env remote c w = (q, c1, w1)" by (metis prod_cases3)
  have same: "same_plain g c c1" "same_client g w w1"
    using tls_io_same(1) [OF 1(3) t] by simp_all
  obtain valid c2 where v: "process_new_packets env c1 = (valid, c2)" by (cases "process_new_packets env c1")
  have "same_plain g c1 (snd (process_new_packets env c1))" using 1(3) unfolding faithful_rest_def by simp
  then have same': "same_plain g c c2" using v same(1) by (simp add: same_plain_def)
  have step: "loop env remote c' eof w1 = Some y \<Longrightarrow> same_plain g c c' \<Longrightarrow>
      same_plain g c (fst (snd y)) \<and> same_client g w (snd (snd (snd y)))" for c'
    using 1(1) [of env remote c' eof w1 y] 1(3) same(2) by (simp add: same_plain_def same_client_def)
  show ?case
    using 1(2) t v same same' step [of c1] step [of c2]
    by (auto split: result.splits if_splits)
qed

lemma write_remote_same:
  assumes "write_remote_tls env remote c w = Some y"
  shows "faithful_rest env g \<longrightarrow> same_plain g c (fst (snd y)) \<and> same_client g w (snd (snd y))"
proof (rule write_remote_tls.raw_induct [where P = "\<lambda>env remote c w y. faithful_rest env g \<longrightarrow>
    same_plain g c (fst (snd y)) \<and> same_client g w (snd (snd y))", OF _ assms], intro impI, goal_cases)
  case (1 loop env remote c w y)
  obtain q c1 w1 where t: "write_tls env remote c w = (q, c1, w1)" by (metis prod_cases3)
  have same: "same_plain g c c1" "same_client g w w1"
    using tls_io_same(2) [OF 1(3) t] by simp_all
  have step: "loop env remote c1 w1 = Some y \<Longrightarrow>
      same_plain g c (fst (snd y)) \<and> same_client g w (snd (snd y))"
    using 1(1) [of env remote c1 w1 y] 1(3) same by (simp add: same_plain_def same_client_def)
  show ?case
    using 1(2) t same step by (auto split: result.splits if_splits)
qed

lemma update_registration_same:
  assumes "update_registration env socket tok readable writable reg w = (r, reg', w')" "faithful_rest env g"
  shows "same_client g w w'"
proof -
  have "same_client g w (snd (mio_register env socket tok (readable, writable) w))"
    "same_client g w (snd (mio_reregister env socket tok (readable, writable) w))"
    "same_client g w (snd (mio_deregister env socket w))"
    using assms(2) unfolding faithful_rest_def by simp_all
  with assms(1) show ?thesis
    by (auto simp: update_registration_def split: if_splits prod.splits result.splits)
qed

section \<open>The relay conserves the two byte streams\<close>

declare feed_upstream.simps [code] read_remote_tls.simps [code] write_remote_tls.simps [code]
  write_pending.simps [code] relay_loop.simps [code]

definition faithful :: "('c, 'w) tls_env \<Rightarrow> nat \<Rightarrow> ('c, 'w) ghost \<Rightarrow> bool" where
  "faithful env client g \<longleftrightarrow> faithful_plaintext env g \<and> faithful_client env client g \<and> faithful_rest env g"

definition relay_flow :: "('c, 'w) ghost \<Rightarrow> bytes \<Rightarrow> bytes \<Rightarrow> 'c relay_state \<Rightarrow> 'w \<Rightarrow> bool" where
  \<comment> \<open>what was read on one side is what was handed on, then what is still pending\<close>
  "relay_flow g a b st w \<longleftrightarrow>
     accepted g (rl_connection st) @ pd_remaining (rl_upstream st) = a @ received g w \<and>
     delivered_to g w @ pd_remaining (rl_downstream st) = b @ produced g (rl_connection st)"

lemma relay_flow_same:
  assumes "relay_flow g a b st w" "same_client g w w'" "same_plain g (rl_connection st) (rl_connection st')"
    and "rl_upstream st' = rl_upstream st" "rl_downstream st' = rl_downstream st"
  shows "relay_flow g a b st' w'"
  using assms by (simp add: relay_flow_def same_client_def same_plain_def)

lemma relay_pump_flow:
  assumes "relay_pump env st = Some (r, st')" "faithful_plaintext env g" "relay_flow g a b st w"
  shows "relay_flow g a b st' w"
proof -
  obtain q c up where f: "feed_upstream env (rl_connection st) (rl_upstream st) = Some (q, c, up)"
    using assms(1) by (auto simp: relay_pump_def split: option.splits)
  obtain q' c' down where d: "fill_downstream env c (rl_downstream st) = (q', c', down)"
    by (metis prod_cases3)
  note flow = feed_upstream_flow [OF f, of g] fill_downstream_flow [OF d assms(2)]
  show ?thesis
  proof (cases q)
    case (Ok u)
    then have "st' = st\<lparr>rl_connection := c', rl_upstream := up, rl_downstream := down\<rparr>"
      using assms(1) f d by (auto simp: relay_pump_def Let_def)
    with flow assms(2,3) show ?thesis by (auto simp: relay_flow_def)
  next
    case (Err k)
    then have "st' = st\<lparr>rl_connection := c, rl_upstream := up\<rparr>"
      using assms(1) f by (auto simp: relay_pump_def Let_def)
    with flow assms(2,3) show ?thesis by (auto simp: relay_flow_def)
  qed
qed

lemma close_notify_same:
  assumes "faithful_rest env g"
  shows "same_plain g (rl_connection st) (rl_connection (close_notify env st)) \<and>
    rl_upstream (close_notify env st) = rl_upstream st \<and>
    rl_downstream (close_notify env st) = rl_downstream st"
proof -
  have "same_plain g (rl_connection st) (send_close_notify env (rl_connection st))"
    using assms by (simp add: faithful_rest_def)
  then show ?thesis by (simp add: close_notify_def)
qed

lemma relay_closing_flow:
  assumes "relay_closing env client st w = (r, st', w')" "faithful_rest env g" "relay_flow g a b st w"
  shows "relay_flow g a b st' w'"
proof -
  let ?st1 = "if rl_client_eof st \<and> pd_is_empty (rl_upstream st) then close_notify env st else st"
  have 1: "relay_flow g a b ?st1 w"
    using relay_flow_same [OF assms(3) same_refl(2), of "close_notify env st"]
      close_notify_same [OF assms(2), of st] assms(3) by simp
  have sh: "same_client g w (snd (sock_shutdown_write env client w))"
    using assms(2) by (simp add: faithful_rest_def)
  let ?st2 = "close_notify env (?st1\<lparr>rl_client_write_shutdown := True, rl_client_eof := True\<rparr>)"
  have 2: "relay_flow g a b ?st2 (snd (sock_shutdown_write env client w))"
    using relay_flow_same [OF 1 sh, of ?st2]
      close_notify_same [OF assms(2), of "?st1\<lparr>rl_client_write_shutdown := True, rl_client_eof := True\<rparr>"]
    by simp
  have 3: "relay_flow g a b ?st1 (snd (sock_shutdown_write env client w))"
    using relay_flow_same [OF 1 sh, of ?st1] by simp
  have "(st', w') \<in> {(?st1, w), (?st1, snd (sock_shutdown_write env client w)),
      (?st2, snd (sock_shutdown_write env client w))}"
    using assms(1) unfolding relay_closing_def Let_def by (auto split: if_splits prod.splits result.splits)
  with 1 2 3 show ?thesis by blast
qed

lemma relay_register_flow:
  assumes "relay_register env client remote ri st w = (r, st', w')" "faithful_rest env g" "relay_flow g a b st w"
  shows "relay_flow g a b st' w'"
proof -
  obtain q1 reg1 w1 where u1: "update_registration env client CLIENT (client_read ri) (client_write ri)
      (rl_client_reg st) w = (q1, reg1, w1)"
    by (metis prod_cases3)
  obtain q2 reg2 w2 where u2: "update_registration env remote REMOTE (remote_read ri) (remote_write ri)
      (rl_remote_reg st) w1 = (q2, reg2, w2)"
    by (metis prod_cases3)
  note s1 = update_registration_same [OF u1 assms(2)]
  note s2 = same_client_trans [OF s1 update_registration_same [OF u2 assms(2)]]
  have "same_client g w w'" "rl_connection st' = rl_connection st"
    "rl_upstream st' = rl_upstream st" "rl_downstream st' = rl_downstream st"
    using assms(1) u1 u2 s1 s2
    by (auto simp: relay_register_def Let_def split: result.splits if_splits)
  with relay_flow_same [OF assms(3), of w' st'] show ?thesis by simp
qed

lemma client_event_flow:
  assumes "client_event env client ri ev st w = Some (r, st', w')" "faithful_client env client g"
    and "relay_flow g a b st w"
  shows "relay_flow g a b st' w'"
proof -
  obtain q up eof w1 where r: "(if ev_readable ev \<and> client_read ri
      then read_client env client (rl_upstream st) (rl_client_eof st) w
      else (Ok (), rl_upstream st, rl_client_eof st, w)) = (q, up, eof, w1)"
    by (metis prod_cases4)
  have flow: "delivered_to g w1 = delivered_to g w \<and>
      (\<exists>x. received g w1 = received g w @ x \<and> pd_remaining up = pd_remaining (rl_upstream st) @ x)"
    using r read_client_flow [of env client "rl_upstream st" "rl_client_eof st" w q up eof w1 g] assms(2)
    by (auto split: if_splits)
  have 1: "relay_flow g a b (st\<lparr>rl_upstream := up\<rparr>) w1" using flow assms(3) by (auto simp: relay_flow_def)
  have st': "rl_connection st' = rl_connection st \<and> rl_upstream st' = up \<and>
      (rl_downstream st' = rl_downstream st \<and> w' = w1 \<or>
       (\<exists>q2. write_pending env client (rl_downstream st) w1 = Some (q2, rl_downstream st', w')))"
    using assms(1) unfolding client_event_def r
    by (auto simp: Let_def split: result.splits option.splits if_splits)
  have "delivered_to g w' @ pd_remaining (rl_downstream st') = delivered_to g w1 @ pd_remaining (rl_downstream st)
      \<and> received g w' = received g w1"
    using st' write_pending_flow [of env client "rl_downstream st" w1 _ g] assms(2) by fastforce
  with 1 st' show ?thesis by (simp add: relay_flow_def)
qed

lemma remote_event_flow:
  assumes "remote_event env remote ri ev st w = Some (r, st', w')" "faithful_rest env g" "relay_flow g a b st w"
  shows "relay_flow g a b st' w'"
proof -
  have 1: "same_plain g (rl_connection st) c \<and> same_client g w w1"
    if "(if ev_readable ev \<and> remote_read ri then read_remote_tls env remote (rl_connection st) (rl_remote_eof st) w
      else Some (Ok (), rl_connection st, rl_remote_eof st, w)) = Some (q, c, eof, w1)" for q c eof w1
    using that read_remote_same [of env remote "rl_connection st" "rl_remote_eof st" w "(q, c, eof, w1)" g] assms(2)
    by (auto split: if_splits)
  have 2: "same_plain g c c' \<and> same_client g w1 w2"
    if "(if ev_writable ev \<and> remote_write ri then write_remote_tls env remote c w1
      else Some (Ok (), c, w1)) = Some (q, c', w2)" for q c c' w1 w2
    using that write_remote_same [of env remote c w1 "(q, c', w2)" g] assms(2)
    by (auto split: if_splits)
  have "same_plain g (rl_connection st) (rl_connection st') \<and> same_client g w w' \<and>
      rl_upstream st' = rl_upstream st \<and> rl_downstream st' = rl_downstream st"
    using assms(1) unfolding remote_event_def
    by (auto simp: Let_def dest!: 1 2 intro: same_plain_trans same_client_trans
        split: result.splits option.splits prod.splits)
  with relay_flow_same [OF assms(3), of w' st'] show ?thesis by simp
qed

lemma relay_events_flow:
  assumes "relay_events env client remote ri evs st w = Some (r, st', w')" "faithful env client g"
    and "relay_flow g a b st w"
  shows "relay_flow g a b st' w'"
  using assms(1,3)
proof (induction evs arbitrary: st w)
  case (Cons ev evs)
  obtain q st1 w1 where e: "(if ev_token ev = CLIENT then client_event env client ri ev st w
      else if ev_token ev = REMOTE then remote_event env remote ri ev st w
      else Some (Ok (), st, w)) = Some (q, st1, w1)"
    using Cons.prems(1) by (auto split: option.splits)
  have 1: "relay_flow g a b st1 w1"
    using e Cons.prems(2) assms(2) client_event_flow [of env client ri ev st w q st1 w1 g a b]
      remote_event_flow [of env remote ri ev st w q st1 w1 g a b]
    by (auto simp: faithful_def split: if_splits)
  show ?case
  proof (cases q)
    case (Ok u)
    with Cons.prems(1) e have "relay_events env client remote ri evs st1 w1 = Some (r, st', w')" by simp
    with Cons.IH 1 show ?thesis by blast
  next
    case (Err k)
    with Cons.prems(1) e 1 show ?thesis by simp
  qed
qed simp

lemma relay_turn_flow:
  assumes "relay_turn env client remote st w = Some (r, st', w')" "faithful env client g" "relay_flow g a b st w"
  shows "relay_flow g a b st' w' \<and> (r = Some (Ok ()) \<longrightarrow> relay_finished env st')"
proof -
  have f: "faithful_plaintext env g" "faithful_client env client g" "faithful_rest env g"
    using assms(2) by (auto simp: faithful_def)
  obtain q1 st1 where 1: "relay_pump env st = Some (q1, st1)"
    using assms(1) by (auto simp: relay_turn_def split: option.splits)
  note flow1 = relay_pump_flow [OF 1 f(1) assms(3)]
  obtain q2 st2 w2 where 2: "relay_closing env client st1 w = (q2, st2, w2)" by (metis prod_cases3)
  note flow2 = relay_closing_flow [OF 2 f(3) flow1]
  obtain q3 st3 w3 where 3: "relay_register env client remote (relay_interest_of env st2) st2 w2 = (q3, st3, w3)"
    by (metis prod_cases3)
  note flow3 = relay_register_flow [OF 3 f(3) flow2]
  obtain q4 w4 where 4: "mio_poll env w3 = (q4, w4)" by (cases "mio_poll env w3")
  have "same_client g w3 (snd (mio_poll env w3))" using f(3) by (simp add: faithful_rest_def)
  then have flow4: "relay_flow g a b st3 w4"
    using 4 relay_flow_same [OF flow3, of w4 st3] by simp
  have flow5: "relay_flow g a b st5 w5"
    if "relay_events env client remote (relay_interest_of env st2) evs st3 w4 = Some (q5, st5, w5)" for evs q5 st5 w5
    using relay_events_flow [OF that assms(2) flow4] .
  show ?thesis
    using assms(1) 1 2 3 4 flow1 flow2 flow3 flow4 flow5
    by (auto simp: relay_turn_def Let_def split: result.splits if_splits option.splits)
qed

lemma relay_loop_flow:
  assumes "relay_loop env client remote st w = Some y"
  shows "faithful env client g \<longrightarrow> relay_flow g a b st w \<longrightarrow>
    relay_flow g a b (fst (snd y)) (snd (snd y)) \<and> (fst y = Ok () \<longrightarrow> relay_finished env (fst (snd y)))"
proof (rule relay_loop.raw_induct [where P = "\<lambda>env client remote st w y. faithful env client g \<longrightarrow>
    relay_flow g a b st w \<longrightarrow> relay_flow g a b (fst (snd y)) (snd (snd y)) \<and>
    (fst y = Ok () \<longrightarrow> relay_finished env (fst (snd y)))", OF _ assms], intro impI, goal_cases)
  case (1 loop env client remote st w y)
  obtain r st1 w1 where t: "relay_turn env client remote st w = Some (r, st1, w1)"
    using 1(2) by (auto split: option.splits)
  note flow = relay_turn_flow [OF t 1(3,4)]
  show ?case
  proof (cases r)
    case None
    with 1(2) t have "loop env client remote st1 w1 = Some y" by simp
    from 1(1) [OF this] 1(3) flow show ?thesis by simp
  next
    case (Some q)
    with 1(2) t have "y = (q, st1, w1)" by simp
    with Some flow show ?thesis by simp
  qed
qed

section \<open>Properties\<close>

text \<open>
  A sample environment. The connection holds the plaintext it accepted, the plaintext still to be
  produced and that already produced; the world holds the client's input, the bytes received from
  and delivered to it, and the poll results to come.
\<close>

type_synonym sample_conn = "bytes \<times> bytes list \<times> bytes"
type_synonym sample_world = "bytes list \<times> bytes \<times> bytes \<times> mio_event list list"

definition sample_tls :: "(sample_conn, sample_world) tls_env" where
  "sample_tls =
     \<lparr>tls_write = (\<lambda>bs (acc, src, prod). (Ok (length bs), (acc @ bs, src, prod))),
      tls_read = (\<lambda>_ (acc, src, prod).
        case src of [] \<Rightarrow> (Err WouldBlock, (acc, [], prod)) | x # src \<Rightarrow> (Ok x, (acc, src, prod @ x))),
      wants_read = (\<lambda>_. True), wants_write = (\<lambda>_. False),
      read_tls = (\<lambda>_ c w. (Ok 0, c, w)), process_new_packets = (\<lambda>c. (True, c)),
      write_tls = (\<lambda>_ c w. (Ok 0, c, w)), send_close_notify = (\<lambda>c. c),
      sock_read = (\<lambda>_ _ (inp, rec, del, evs).
        case inp of [] \<Rightarrow> (Ok [], ([], rec, del, evs)) | x # inp \<Rightarrow> (Ok x, (inp, rec @ x, del, evs))),
      sock_write = (\<lambda>_ bs (inp, rec, del, evs). (Ok (length bs), (inp, rec, del @ bs, evs))),
      sock_shutdown_write = (\<lambda>_ w. (Ok (), w)), mio_register = (\<lambda>_ _ _ w. (Ok (), w)),
      mio_reregister = (\<lambda>_ _ _ w. (Ok (), w)), mio_deregister = (\<lambda>_ w. (Ok (), w)),
      mio_poll = (\<lambda>(inp, rec, del, evs).
        case evs of [] \<Rightarrow> (Err OtherKind, (inp, rec, del, [])) | e # evs \<Rightarrow> (Ok e, (inp, rec, del, evs)))\<rparr>"

definition sample_ghost :: "(sample_conn, sample_world) ghost" where
  "sample_ghost =
     \<lparr>accepted = (\<lambda>(acc, _, _). acc), produced = (\<lambda>(_, _, prod). prod),
      received = (\<lambda>(_, rec, _, _). rec), delivered_to = (\<lambda>(_, _, del, _). del)\<rparr>"

definition sample_event :: "token \<Rightarrow> mio_event" where
  "sample_event tok = \<lparr>ev_token = tok, ev_readable = True, ev_writable = True, ev_error = False,
     ev_read_closed = False, ev_write_closed = False\<rparr>"

lemma sample_tls_faithful: "faithful sample_tls client sample_ghost"
proof -
  have "faithful_plaintext sample_tls sample_ghost"
    by (auto simp: faithful_plaintext_def sample_tls_def sample_ghost_def same_plain_def split: list.splits)
  moreover have "faithful_client sample_tls client sample_ghost"
    by (auto simp: faithful_client_def sample_tls_def sample_ghost_def same_client_def split: list.splits)
  moreover have "faithful_rest sample_tls sample_ghost"
    by (auto simp: faithful_rest_def sample_tls_def sample_ghost_def same_client_def same_plain_def split: list.splits)
  ultimately show ?thesis by (simp add: faithful_def)
qed

end
