(* ===== verification/Trojan_Datagram.thy ===== *)
theory Trojan_Datagram
  imports Tls
begin

text \<open>
  \<open>crates/daemon/src/trojan_datagram.rs\<close>: datagrams framed over one TLS session. Frames wait
  in a bounded queue until the session takes their plaintext; received plaintext is buffered and
  cut into frames. The clone of the poll registry is kept only as the fact that it was made.
\<close>

section \<open>Definitions\<close>

definition MAX_PENDING_FRAMES :: nat where "MAX_PENDING_FRAMES = 64"
definition MAX_PENDING_BYTES :: nat where "MAX_PENDING_BYTES = 512 * 1024"
definition MAX_RX_BYTES :: nat where "MAX_RX_BYTES = 128 * 1024"
definition TLS_PLAINTEXT_READ_CHUNK :: nat where "TLS_PLAINTEXT_READ_CHUNK = 16 * 1024"

record pending_frame =
  pf_bytes :: bytes
  pf_offset :: nat

record 'c trojan_execution =
  te_tls :: "'c framed_session"
  te_pending :: "pending_frame list"
  te_pending_bytes :: nat
  te_rx :: bytes
  te_registry :: bool
  te_token :: "token option"

definition enqueue :: "bytes \<Rightarrow> 'c trojan_execution \<Rightarrow> (unit, error_kind) result \<times> 'c trojan_execution" where
  "enqueue bs x =
     (if MAX_PENDING_FRAMES \<le> length (te_pending x) then (Err QuotaExceeded, x)
      else (case checked_add (te_pending_bytes x) (length bs) of
              None \<Rightarrow> (Err OutOfMemory, x)
            | Some queued \<Rightarrow>
                if MAX_PENDING_BYTES < queued then (Err QuotaExceeded, x)
                else (Ok (), x\<lparr>te_pending_bytes := queued,
                               te_pending := te_pending x @ [\<lparr>pf_bytes = bs, pf_offset = 0\<rparr>]\<rparr>)))"

definition frame_written :: "nat \<Rightarrow> 'c framed_session \<Rightarrow> pending_frame \<Rightarrow> pending_frame list
    \<Rightarrow> 'c trojan_execution \<Rightarrow> 'c trojan_execution" where
  \<comment> \<open>the queue after the session took \<open>n\<close> bytes of its first frame\<close>
  "frame_written n s frame rest x =
     x\<lparr>te_tls := s, te_pending_bytes := te_pending_bytes x - n,
       te_pending := (if pf_offset frame + n = length (pf_bytes frame) then rest
                      else frame\<lparr>pf_offset := pf_offset frame + n\<rparr> # rest)\<rparr>"

partial_function (option) drain_pending ::
  "('c, 'w) tls_env \<Rightarrow> 'c trojan_execution \<Rightarrow> ((unit, error_kind) result \<times> 'c trojan_execution) option" where
  "drain_pending env te =
     (case te_pending te of
        [] \<Rightarrow> Some (Ok (), te)
      | frame # rest \<Rightarrow>
          if drop (pf_offset frame) (pf_bytes frame) = []
          then drain_pending env (te\<lparr>te_pending := rest\<rparr>)
          else (case write_plaintext env (drop (pf_offset frame) (pf_bytes frame)) (te_tls te) of
            (Ok n, s) \<Rightarrow>
              if n = 0 then Some (Err WriteZero, te\<lparr>te_tls := s\<rparr>)
              else drain_pending env (frame_written n s frame rest te)
          | (Err k, s) \<Rightarrow>
              if k = WouldBlock then Some (Ok (), te\<lparr>te_tls := s\<rparr>)
              else if k = Interrupted then drain_pending env (te\<lparr>te_tls := s\<rparr>)
              else Some (Err k, te\<lparr>te_tls := s\<rparr>)))"

definition te_refresh_readiness ::
  "('c, 'w) tls_env \<Rightarrow> 'c trojan_execution \<Rightarrow> 'w \<Rightarrow> (unit, error_kind) result \<times> 'c trojan_execution \<times> 'w" where
  "te_refresh_readiness env x w =
     (case (te_registry x, te_token x) of
        (True, Some tok) \<Rightarrow>
          (let (r, s, w) = fs_refresh_readiness env tok (te_tls x) w in (r, x\<lparr>te_tls := s\<rparr>, w))
      | (False, None) \<Rightarrow> (Ok (), x, w)
      | _ \<Rightarrow> (Err OtherKind, x, w))"

partial_function (option) read_plaintext_into_rx ::
  "('c, 'w) tls_env \<Rightarrow> 'c trojan_execution \<Rightarrow> ((unit, error_kind) result \<times> 'c trojan_execution) option" where
  "read_plaintext_into_rx env te =
     (if MAX_RX_BYTES \<le> length (te_rx te) then Some (Err InvalidData, te)
      else (case read_plaintext env (min (MAX_RX_BYTES - length (te_rx te)) TLS_PLAINTEXT_READ_CHUNK) (te_tls te) of
        (Ok bs, s) \<Rightarrow>
          if bs = [] then Some (Ok (), te\<lparr>te_tls := s\<rparr>)
          else read_plaintext_into_rx env (te\<lparr>te_tls := s, te_rx := te_rx te @ bs\<rparr>)
      | (Err k, s) \<Rightarrow>
          if k = WouldBlock then Some (Ok (), te\<lparr>te_tls := s\<rparr>)
          else if k = Interrupted then read_plaintext_into_rx env (te\<lparr>te_tls := s\<rparr>)
          else Some (Err k, te\<lparr>te_tls := s\<rparr>)))"

declare drain_pending.simps [code] read_plaintext_into_rx.simps [code]

text \<open>Sequencing with \<open>?\<close> for the operations that may not return.\<close>

definition thenO ::
  "((unit, error_kind) result \<times> 'x \<times> 'w) option
    \<Rightarrow> ('x \<Rightarrow> 'w \<Rightarrow> (('a, error_kind) result \<times> 'x \<times> 'w) option)
    \<Rightarrow> (('a, error_kind) result \<times> 'x \<times> 'w) option" where
  "thenO m f =
     (case m of
        None \<Rightarrow> None
      | Some (Err k, x, w) \<Rightarrow> Some (Err k, x, w)
      | Some (Ok _, x, w) \<Rightarrow> f x w)"

definition withW :: "'w \<Rightarrow> ('r \<times> 'x) option \<Rightarrow> ('r \<times> 'x \<times> 'w) option" where
  "withW w m = map_option (\<lambda>(r, x). (r, x, w)) m"

definition service_ready ::
  "('c, 'w) tls_env \<Rightarrow> 'c trojan_execution \<Rightarrow> 'w
    \<Rightarrow> ((unit, error_kind) result \<times> 'c trojan_execution \<times> 'w) option" where
  "service_ready env x w =
     thenO (withW w (drain_pending env x)) (\<lambda>x w.
     thenO (map_option (\<lambda>(r, s, w). (r, x\<lparr>te_tls := s\<rparr>, w)) (service_io env (te_tls x) w)) (\<lambda>x w.
     thenO (withW w (drain_pending env x)) (\<lambda>x w.
     thenO (withW w (read_plaintext_into_rx env x)) (\<lambda>x w.
     Some (te_refresh_readiness env x w)))))"

definition take_frame ::
  "nat \<Rightarrow> 'c trojan_execution \<Rightarrow> (received_datagram option, error_kind) result \<times> 'c trojan_execution" where
  "take_frame output_len x =
     (case parse_udp_frame (te_rx x) of
        Err k \<Rightarrow> (Err k, x)
      | Ok None \<Rightarrow> (Ok None, x)
      | Ok (Some frame) \<Rightarrow>
          if output_len < uf_payload_end frame - uf_payload_start frame then (Err InvalidInput, x)
          else (Ok (Some \<lparr>rd_source = uf_source frame,
                          rd_payload = take (uf_payload_end frame - uf_payload_start frame)
                            (drop (uf_payload_start frame) (te_rx x))\<rparr>),
                x\<lparr>te_rx := drop (uf_consumed frame) (te_rx x)\<rparr>))"

definition trojan_send ::
  "('c, 'w) tls_env \<Rightarrow> target \<Rightarrow> bytes \<Rightarrow> 'c trojan_execution \<Rightarrow> 'w
    \<Rightarrow> ((unit, error_kind) result \<times> 'c trojan_execution \<times> 'w) option" where
  "trojan_send env t payload x w =
     (case encode_udp_frame t payload of
        Err k \<Rightarrow> Some (Err k, x, w)
      | Ok frame \<Rightarrow>
          thenO (withW w (Some (enqueue frame x))) (\<lambda>x w.
          thenO (withW w (drain_pending env x)) (\<lambda>x w.
          Some (te_refresh_readiness env x w))))"

definition trojan_receive ::
  "('c, 'w) tls_env \<Rightarrow> nat \<Rightarrow> 'c trojan_execution \<Rightarrow> 'w
    \<Rightarrow> ((received_datagram option, error_kind) result \<times> 'c trojan_execution \<times> 'w) option" where
  "trojan_receive env len x w =
     (case take_frame len x of
        (Err k, x) \<Rightarrow> Some (Err k, x, w)
      | (Ok (Some frame), x) \<Rightarrow> Some (Ok (Some frame), x, w)
      | (Ok None, x) \<Rightarrow>
          thenO (service_ready env x w) (\<lambda>x w.
            case take_frame len x of
              (Err k, x) \<Rightarrow> Some (Err k, x, w)
            | (Ok (Some frame), x) \<Rightarrow> Some (Ok (Some frame), x, w)
            | (Ok None, x) \<Rightarrow>
                if fs_remote_eof (te_tls x) then Some (Err UnexpectedEof, x, w)
                else Some (Ok None, x, w)))"

definition trojan_count :: "'c trojan_execution \<Rightarrow> nat" where
  "trojan_count x = 1"

text \<open>\<open>try_clone\<close> of the registry is an operation of the environment that may fail.\<close>

definition trojan_register ::
  "('c, 'w) tls_env \<Rightarrow> ('w \<Rightarrow> (unit, error_kind) result \<times> 'w) \<Rightarrow> token list \<Rightarrow> 'c trojan_execution \<Rightarrow> 'w
    \<Rightarrow> (unit, error_kind) result \<times> 'c trojan_execution \<times> 'w" where
  "trojan_register env try_clone tokens x w =
     (if length tokens \<noteq> 1 then (Err InvalidInput, x, w)
      else if te_registry x \<or> te_token x \<noteq> None then (Err AlreadyExists, x, w)
      else (case try_clone w of
        (Err k, w) \<Rightarrow> (Err k, x, w)
      | (Ok _, w) \<Rightarrow>
          (case fs_register_readiness env (tokens ! 0) (te_tls x) w of
             (Err k, s, w) \<Rightarrow> (Err k, x\<lparr>te_tls := s\<rparr>, w)
           | (Ok _, s, w) \<Rightarrow>
               (Ok (), x\<lparr>te_tls := s, te_registry := True, te_token := Some (tokens ! 0)\<rparr>, w))))"

record trojan_provider =
  tp_verifier :: trojan_verifier
  tp_transport :: tls_transport

definition trojan_execution_new :: "'c framed_session \<Rightarrow> 'c trojan_execution" where
  "trojan_execution_new s =
     \<lparr>te_tls = s, te_pending = [], te_pending_bytes = 0, te_rx = [], te_registry = False, te_token = None\<rparr>"

text \<open>\<open>connect_framed\<close> is the TLS handshake of \<open>TlsTransport::connect_framed\<close>.\<close>

definition trojan_open ::
  "('c, 'w) tls_env \<Rightarrow> (tls_transport \<Rightarrow> 'w \<Rightarrow> ('c framed_session, error_kind) result \<times> 'w)
    \<Rightarrow> trojan_provider \<Rightarrow> 'w \<Rightarrow> (('c trojan_execution, error_kind) result \<times> 'w) option" where
  "trojan_open env connect_framed provider w =
     (case connect_framed (tp_transport provider) w of
        (Err k, w) \<Rightarrow> Some (Err k, w)
      | (Ok s, w) \<Rightarrow>
          (case enqueue (encode_udp_associate_request (tp_verifier provider)) (trojan_execution_new s) of
             (Err k, _) \<Rightarrow> Some (Err k, w)
           | (Ok _, x) \<Rightarrow>
               (case drain_pending env x of
                  None \<Rightarrow> None
                | Some (Err k, _) \<Rightarrow> Some (Err k, w)
                | Some (Ok _, x) \<Rightarrow> Some (Ok x, w))))"

definition trojan_ops ::
  "('c, 'w) tls_env \<Rightarrow> ('w \<Rightarrow> (unit, error_kind) result \<times> 'w) \<Rightarrow> ('c trojan_execution, 'w) exec_ops" where
  "trojan_ops env try_clone =
     \<lparr>ex_send = trojan_send env, ex_receive = trojan_receive env, ex_count = trojan_count,
      ex_register = trojan_register env try_clone\<rparr>"

interpretation trojan: datagram_execution "trojan_ops env try_clone"
  by unfold_locales
    (auto simp: trojan_ops_def trojan_count_def trojan_register_def split: if_splits)

section \<open>The queue\<close>

text \<open>
  The plaintext the session still has to take, oldest frame first. The invariant ties the byte
  counter to it and bounds frames and bytes.
\<close>

definition frame_rest :: "pending_frame \<Rightarrow> bytes" where
  "frame_rest frame = drop (pf_offset frame) (pf_bytes frame)"

definition queue_bytes :: "'c trojan_execution \<Rightarrow> bytes" where
  "queue_bytes x = concat (map frame_rest (te_pending x))"

definition queue_inv :: "'c trojan_execution \<Rightarrow> bool" where
  "queue_inv x \<longleftrightarrow>
     length (te_pending x) \<le> MAX_PENDING_FRAMES \<and> te_pending_bytes x = length (queue_bytes x) \<and>
     te_pending_bytes x \<le> MAX_PENDING_BYTES"

lemma enqueue_spec:
  assumes "enqueue bs x = (r, x')" "queue_inv x"
  shows "queue_inv x' \<and> te_tls x' = te_tls x \<and> te_rx x' = te_rx x \<and>
    (case r of Ok _ \<Rightarrow> queue_bytes x' = queue_bytes x @ bs
     | Err _ \<Rightarrow> x' = x \<and>
         (length (te_pending x) = MAX_PENDING_FRAMES \<or> MAX_PENDING_BYTES < length (queue_bytes x) + length bs))"
  using assms
  by (auto simp: enqueue_def queue_inv_def queue_bytes_def frame_rest_def checked_add_def usize_bound_def
      MAX_PENDING_BYTES_def split: if_splits option.splits)

lemma frame_written_spec:
  assumes "queue_inv x" "te_pending x = frame # rest" "frame_rest frame \<noteq> []" "n \<le> length (frame_rest frame)"
  shows "queue_inv (frame_written n s frame rest x)"
    and "take n (frame_rest frame) @ queue_bytes (frame_written n s frame rest x) = queue_bytes x"
    and "te_rx (frame_written n s frame rest x) = te_rx x"
    and "te_tls (frame_written n s frame rest x) = s"
proof -
  let ?x1 = "frame_written n s frame rest x"
  have rest: "queue_bytes ?x1 = drop n (frame_rest frame) @ concat (map frame_rest rest)"
    using assms(3,4) by (auto simp: queue_bytes_def frame_written_def frame_rest_def add.commute)
  then show q: "take n (frame_rest frame) @ queue_bytes ?x1 = queue_bytes x"
    by (simp add: queue_bytes_def assms(2))
  have "length (queue_bytes ?x1) = length (queue_bytes x) - n"
    using arg_cong [OF q, of length] assms(4) by simp
  then show "queue_inv ?x1"
    using assms(1,2) by (auto simp: queue_inv_def frame_written_def)
qed (simp_all add: frame_written_def)

text \<open>What draining keeps: the queue's bounds, the received bytes and the stream as a whole.\<close>

definition keeps_stream :: "('c, 'w) ghost \<Rightarrow> 'c trojan_execution \<Rightarrow> 'c trojan_execution \<Rightarrow> bool" where
  "keeps_stream g x y \<longleftrightarrow>
     queue_inv y \<and> te_rx y = te_rx x \<and>
     accepted g (fs_connection (te_tls y)) @ queue_bytes y = accepted g (fs_connection (te_tls x)) @ queue_bytes x"

lemma keeps_stream_refl: "queue_inv x \<Longrightarrow> keeps_stream g x x"
  by (simp add: keeps_stream_def)

lemma keeps_stream_trans: "keeps_stream g x y \<Longrightarrow> keeps_stream g y z \<Longrightarrow> keeps_stream g x z"
  by (simp add: keeps_stream_def)

lemma keeps_stream_empty_frame:
  assumes "queue_inv x" "te_pending x = frame # rest" "frame_rest frame = []"
  shows "keeps_stream g x (x\<lparr>te_pending := rest\<rparr>)"
  using assms by (simp add: keeps_stream_def queue_inv_def queue_bytes_def)

lemma keeps_stream_write:
  assumes "queue_inv x" "te_pending x = frame # rest" "frame_rest frame \<noteq> []" "faithful_plaintext env g"
    and "write_plaintext env (frame_rest frame) (te_tls x) = (q, s)"
  shows "case q of
      Err _ \<Rightarrow> keeps_stream g x (x\<lparr>te_tls := s\<rparr>)
    | Ok n \<Rightarrow> keeps_stream g x (if n = 0 then x\<lparr>te_tls := s\<rparr> else frame_written n s frame rest x)"
proof -
  obtain c where c: "tls_write env (frame_rest frame) (fs_connection (te_tls x)) = (q, c)" "fs_connection s = c"
    using assms(5) by (auto simp: write_plaintext_def split: prod.splits)
  note law = tls_write_law [OF assms(4) c(1)]
  have kept: "keeps_stream g x (x\<lparr>te_tls := s\<rparr>)" if "accepted g c = accepted g (fs_connection (te_tls x))"
    using assms(1) that c(2) by (simp add: keeps_stream_def queue_inv_def queue_bytes_def)
  show ?thesis
  proof (cases q)
    case (Err k)
    with law kept show ?thesis by (simp add: same_plain_def)
  next
    case (Ok n)
    with law have n: "n \<le> length (frame_rest frame)"
      "accepted g c = accepted g (fs_connection (te_tls x)) @ take n (frame_rest frame)" by simp_all
    with frame_written_spec [OF assms(1-3) n(1), of s] kept Ok c(2) show ?thesis
      by (cases "n = 0") (simp_all add: keeps_stream_def)
  qed
qed

lemma drain_pending_keeps:
  assumes "drain_pending env x = Some y"
  shows "faithful_plaintext env g \<longrightarrow> queue_inv x \<longrightarrow> keeps_stream g x (snd y)"
proof (rule drain_pending.raw_induct [where P = "\<lambda>env x y. faithful_plaintext env g \<longrightarrow> queue_inv x \<longrightarrow>
    keeps_stream g x (snd y)", OF _ assms], intro impI, goal_cases)
  case (1 loop env x y)
  have again: "keeps_stream g x (snd y)" if "loop env x1 = Some y" "keeps_stream g x x1" for x1
    using 1(1) [OF that(1)] 1(3) that(2) keeps_stream_trans [OF that(2)] by (simp add: keeps_stream_def)
  show ?case
  proof (cases "te_pending x")
    case Nil
    with 1(2,4) show ?thesis by (auto intro: keeps_stream_refl)
  next
    case (Cons frame rest)
    obtain q s where w: "write_plaintext env (frame_rest frame) (te_tls x) = (q, s)"
      by (cases "write_plaintext env (frame_rest frame) (te_tls x)")
    show ?thesis
    proof (cases "frame_rest frame = []")
      case True
      with 1(2) Cons keeps_stream_empty_frame [OF 1(4) Cons True, of g] show ?thesis
        by (auto simp: frame_rest_def intro: again)
    next
      case False
      with 1(2) Cons w keeps_stream_write [OF 1(4) Cons False 1(3) w] show ?thesis
        by (auto simp: frame_rest_def intro: again split: result.splits if_splits)
    qed
  qed
qed

lemma drain_pending_returns:
  assumes "faithful_plaintext env g" "\<And>bs c. fst (tls_write env bs c) \<noteq> Err Interrupted" "queue_inv x"
  shows "\<exists>y. drain_pending env x = Some y"
  using assms(3)
proof (induction "length (queue_bytes x) + length (te_pending x)" arbitrary: x rule: less_induct)
  case less
  show ?case
  proof (cases "te_pending x")
    case Nil
    then show ?thesis by (simp add: drain_pending.simps)
  next
    case (Cons frame rest)
    obtain q s where t: "write_plaintext env (frame_rest frame) (te_tls x) = (q, s)"
      by (cases "write_plaintext env (frame_rest frame) (te_tls x)")
    then obtain c where c: "tls_write env (frame_rest frame) (fs_connection (te_tls x)) = (q, c)"
      by (auto simp: write_plaintext_def split: prod.splits)
    note law = tls_write_law [OF assms(1) c]
    consider "frame_rest frame = []" | n where "frame_rest frame \<noteq> []" "q = Ok n" | k where "frame_rest frame \<noteq> []" "q = Err k"
      by (cases q) auto
    then show ?thesis
    proof cases
      case 1
      have "queue_inv (x\<lparr>te_pending := rest\<rparr>)" "length (queue_bytes (x\<lparr>te_pending := rest\<rparr>)) = length (queue_bytes x)"
        using less.prems Cons 1 by (simp_all add: queue_inv_def queue_bytes_def)
      with less.hyps [of "x\<lparr>te_pending := rest\<rparr>"] Cons 1 show ?thesis
        by (simp add: drain_pending.simps [of env x] frame_rest_def)
    next
      case (2 n)
      have n: "n \<le> length (frame_rest frame)" using law 2 by simp
      let ?x1 = "frame_written n s frame rest x"
      note w = frame_written_spec [OF less.prems Cons 2(1) n, of s]
      have "length (queue_bytes ?x1) + n = length (queue_bytes x)"
        using arg_cong [OF w(2), of length] n by simp
      moreover have "length (te_pending ?x1) \<le> length (te_pending x)" by (simp add: frame_written_def Cons)
      ultimately have "n \<noteq> 0 \<Longrightarrow> \<exists>y. drain_pending env ?x1 = Some y"
        using less.hyps [of ?x1] w(1) by simp
      with t Cons 2 show ?thesis by (auto simp: drain_pending.simps [of env x] frame_rest_def)
    next
      case (3 k)
      have "k \<noteq> Interrupted" using assms(2) [of "frame_rest frame" "fs_connection (te_tls x)"] c 3 by auto
      with t Cons 3 show ?thesis by (auto simp: drain_pending.simps [of env x] frame_rest_def)
    qed
  qed
qed

section \<open>The plaintext stream\<close>

definition stream_of :: "('c, 'w) ghost \<Rightarrow> 'c trojan_execution \<Rightarrow> bytes" where
  \<comment> \<open>what the session took, then what is still queued\<close>
  "stream_of g x = accepted g (fs_connection (te_tls x)) @ queue_bytes x"

definition stays :: "('c, 'w) ghost \<Rightarrow> 'c trojan_execution \<Rightarrow> 'c trojan_execution \<Rightarrow> bool" where
  "stays g x x' \<longleftrightarrow> (queue_inv x \<longrightarrow> queue_inv x') \<and> (queue_inv x \<longrightarrow> stream_of g x' = stream_of g x)"

lemma stays_trans: "stays g a b \<Longrightarrow> stays g b c \<Longrightarrow> stays g a c"
  by (simp add: stays_def)

lemma stays_refl [simp]: "stays g x x"
  by (simp add: stays_def)

lemma stays_tls:
  "accepted g (fs_connection s) = accepted g (fs_connection (te_tls x)) \<Longrightarrow> stays g x (x\<lparr>te_tls := s\<rparr>)"
  by (simp add: stays_def stream_of_def queue_inv_def queue_bytes_def)

lemma drain_stays:
  assumes "drain_pending env x = Some (r, x')" "faithful_plaintext env g"
  shows "stays g x x'"
  using drain_pending_keeps [OF assms(1), of g] assms(2) by (simp add: stays_def stream_of_def keeps_stream_def)

lemma refresh_stays: "te_refresh_readiness env x w = (r, x', w') \<Longrightarrow> stays g x x'"
  by (auto simp: te_refresh_readiness_def fs_refresh_readiness_def Let_def intro!: stays_tls
      split: bool.splits option.splits prod.splits)

lemma rx_stays:
  assumes "read_plaintext_into_rx env x = Some y"
  shows "faithful_plaintext env g \<longrightarrow> stays g x (snd y)"
proof (rule read_plaintext_into_rx.raw_induct [where P = "\<lambda>env x y. faithful_plaintext env g \<longrightarrow>
    stays g x (snd y)", OF _ assms], intro impI, goal_cases)
  case (1 loop env x y)
  let ?n = "min (MAX_RX_BYTES - length (te_rx x)) TLS_PLAINTEXT_READ_CHUNK"
  obtain q s where t: "read_plaintext env ?n (te_tls x) = (q, s)" by (cases "read_plaintext env ?n (te_tls x)")
  then obtain c where c: "tls_read env ?n (fs_connection (te_tls x)) = (q, c)" "fs_connection s = c"
    by (auto simp: read_plaintext_def split: prod.splits)
  have "case tls_read env ?n (fs_connection (te_tls x)) of
      (Ok bs, c') \<Rightarrow> produced g c' = produced g (fs_connection (te_tls x)) @ bs \<and>
        accepted g c' = accepted g (fs_connection (te_tls x))
    | (Err _, c') \<Rightarrow> same_plain g (fs_connection (te_tls x)) c'"
    using 1(3) unfolding faithful_plaintext_def by simp
  then have "accepted g (fs_connection s) = accepted g (fs_connection (te_tls x))"
    using c by (auto simp: same_plain_def split: result.splits)
  then have s: "stays g x (x\<lparr>te_tls := s\<rparr>)" "stays g x (x\<lparr>te_tls := s, te_rx := rx\<rparr>)" for rx
    using stays_tls [of g s x] by (simp_all add: stays_def stream_of_def queue_inv_def queue_bytes_def)
  have step: "stays g x (snd y)" if "loop env x1 = Some y" "stays g x x1" for x1
    using stays_trans [OF that(2)] 1(1) [OF that(1)] 1(3) by simp
  show ?case
  proof (cases q)
    case (Ok bs)
    with 1(2) t s step [of "x\<lparr>te_tls := s, te_rx := te_rx x @ bs\<rparr>"] show ?thesis
      by (auto split: if_splits)
  next
    case (Err k)
    with 1(2) t s step [of "x\<lparr>te_tls := s\<rparr>"] show ?thesis by (auto split: if_splits)
  qed
qed

lemma service_io_stays:
  assumes "service_io env s w = Some (r, s', w')" "faithful_rest env g"
  shows "accepted g (fs_connection s') = accepted g (fs_connection s)"
proof -
  obtain q1 c1 w1 where 1: "write_remote_tls env (fs_remote s) (fs_connection s) w = Some (q1, c1, w1)"
    using assms(1) by (auto simp: service_io_def split: option.splits)
  have a1: "accepted g c1 = accepted g (fs_connection s)"
    using write_remote_same [OF 1, of g] assms(2) by (simp add: same_plain_def)
  show ?thesis
  proof (cases q1)
    case (Err k)
    with assms(1) 1 a1 show ?thesis by (auto simp: service_io_def)
  next
    case (Ok u)
    let ?read = "if fs_remote_eof s then Some (Ok (), c1, True, w1)
      else read_remote_tls env (fs_remote s) c1 False w1"
    obtain q2 c2 eof w2 where 2: "?read = Some (q2, c2, eof, w2)"
      using assms(1) 1 Ok by (auto simp: service_io_def split: option.splits)
    have a2: "accepted g c2 = accepted g (fs_connection s)"
      using 2 read_remote_same [of env "fs_remote s" c1 False w1 "(q2, c2, eof, w2)" g] assms(2) a1
      by (auto simp: same_plain_def split: if_splits)
    show ?thesis
    proof (cases q2)
      case (Err k)
      with assms(1) 1 Ok 2 a2 show ?thesis by (auto simp: service_io_def)
    next
      case (Ok v)
      obtain q3 c3 w3 where 3: "write_remote_tls env (fs_remote s) c2 w2 = Some (q3, c3, w3)"
        using assms(1) 1 \<open>q1 = Ok u\<close> 2 Ok by (auto simp: service_io_def split: option.splits)
      have "accepted g c3 = accepted g (fs_connection s)"
        using write_remote_same [OF 3, of g] assms(2) a2 by (simp add: same_plain_def)
      with assms(1) 1 \<open>q1 = Ok u\<close> 2 Ok 3 show ?thesis by (auto simp: service_io_def)
    qed
  qed
qed

lemma withW_Some: "withW w m = Some (r, x', w') \<longleftrightarrow> m = Some (r, x') \<and> w' = w"
  by (auto simp: withW_def)

lemma thenO_stays:
  assumes "thenO m f = Some (r, x', w')"
    and "\<And>q x1 w1. m = Some (q, x1, w1) \<Longrightarrow> stays g x x1"
    and "\<And>x1 w1 r x' w'. f x1 w1 = Some (r, x', w') \<Longrightarrow> stays g x1 x'"
  shows "stays g x x'"
proof -
  obtain q x1 w1 where m: "m = Some (q, x1, w1)"
    using assms(1) by (auto simp: thenO_def split: option.splits)
  note 1 = assms(2) [OF m]
  show ?thesis
  proof (cases q)
    case (Ok u)
    with assms(1) m have "f x1 w1 = Some (r, x', w')" by (simp add: thenO_def)
    from stays_trans [OF 1 assms(3) [OF this]] show ?thesis .
  next
    case (Err k)
    with assms(1) m 1 show ?thesis by (simp add: thenO_def)
  qed
qed

lemma service_ready_stays:
  assumes "service_ready env x w = Some (r, x', w')" "faithful_plaintext env g" "faithful_rest env g"
  shows "stays g x x'"
proof (rule thenO_stays [OF assms(1) [unfolded service_ready_def]])
  show "stays g x x1" if "withW w (drain_pending env x) = Some (q, x1, w1)" for q x1 w1
    using that drain_stays [OF _ assms(2)] by (auto simp: withW_Some)
next
  fix x w r x' w'
  assume a: "thenO (map_option (\<lambda>(r, s, w). (r, x\<lparr>te_tls := s\<rparr>, w)) (service_io env (te_tls x) w))
      (\<lambda>x w. thenO (withW w (drain_pending env x)) (\<lambda>x w.
        thenO (withW w (read_plaintext_into_rx env x)) (\<lambda>x w. Some (te_refresh_readiness env x w))))
      = Some (r, x', w')"
  show "stays g x x'"
  proof (rule thenO_stays [OF a])
    show "stays g x x1" if "map_option (\<lambda>(r, s, w). (r, x\<lparr>te_tls := s\<rparr>, w)) (service_io env (te_tls x) w)
        = Some (q, x1, w1)" for q x1 w1
      using that service_io_stays [OF _ assms(3)] by (auto intro: stays_tls)
  next
    fix x w r x' w'
    assume b: "thenO (withW w (drain_pending env x)) (\<lambda>x w.
        thenO (withW w (read_plaintext_into_rx env x)) (\<lambda>x w. Some (te_refresh_readiness env x w)))
        = Some (r, x', w')"
    show "stays g x x'"
    proof (rule thenO_stays [OF b])
      show "stays g x x1" if "withW w (drain_pending env x) = Some (q, x1, w1)" for q x1 w1
        using that drain_stays [OF _ assms(2)] by (auto simp: withW_Some)
    next
      fix x w r x' w'
      assume c: "thenO (withW w (read_plaintext_into_rx env x)) (\<lambda>x w. Some (te_refresh_readiness env x w))
          = Some (r, x', w')"
      show "stays g x x'"
      proof (rule thenO_stays [OF c])
        show "stays g x x1" if "withW w (read_plaintext_into_rx env x) = Some (q, x1, w1)" for q x1 w1
          using that rx_stays [of env x "(q, x1)" g] assms(2) by (auto simp: withW_Some)
        show "stays g x1 x'" if "Some (te_refresh_readiness env x1 w1) = Some (r, x', w')" for x1 w1 r x' w'
          using that refresh_stays [of env x1 w1 r x' w' g] by simp
      qed
    qed
  qed
qed

lemma take_frame_stays: "take_frame len x = (r, x') \<Longrightarrow> stays g x x'"
  by (auto simp: take_frame_def stays_def stream_of_def queue_inv_def queue_bytes_def
      split: result.splits option.splits if_splits)

lemma trojan_receive_stays:
  assumes "trojan_receive env len x w = Some (r, x', w')" "faithful_plaintext env g" "faithful_rest env g"
  shows "stays g x x'"
proof -
  obtain q x1 where t: "take_frame len x = (q, x1)" by (cases "take_frame len x")
  note 1 = take_frame_stays [OF t, of g]
  show ?thesis
  proof (cases "q = Ok None")
    case False
    with assms(1) t 1 show ?thesis
      by (auto simp: trojan_receive_def split: result.splits option.splits)
  next
    case True
    let ?f = "\<lambda>x w. case take_frame len x of
              (Err k, x) \<Rightarrow> Some (Err k, x, w)
            | (Ok (Some frame), x) \<Rightarrow> Some (Ok (Some frame), x, w)
            | (Ok None, x) \<Rightarrow>
                if fs_remote_eof (te_tls x) then Some (Err UnexpectedEof, x, w)
                else Some (Ok None, x, w)"
    have s: "thenO (service_ready env x1 w) ?f = Some (r, x', w')"
      using assms(1) t True by (simp add: trojan_receive_def)
    have "stays g x1 x'"
    proof (rule thenO_stays [OF s])
      show "stays g x1 x2" if "service_ready env x1 w = Some (q, x2, w2)" for q x2 w2
        using service_ready_stays [OF that assms(2,3)] .
      show "stays g x2 x3" if "?f x2 w2 = Some (r, x3, w3)" for x2 w2 r x3 w3
        using that take_frame_stays [of len x2 _ x3 g]
        by (auto split: prod.splits result.splits option.splits if_splits)
    qed
    with 1 show ?thesis by (rule stays_trans)
  qed
qed

lemma trojan_send_stream:
  assumes "trojan_send env t payload x w = Some (r, x', w')" "faithful_plaintext env g" "queue_inv x"
  shows "queue_inv x' \<and> stream_of g x' = stream_of g x @
    (case encode_udp_frame t payload of
       Err _ \<Rightarrow> []
     | Ok frame \<Rightarrow> if fst (enqueue frame x) = Ok () then frame else [])"
proof (cases "encode_udp_frame t payload")
  case (Err k)
  with assms show ?thesis by (simp add: trojan_send_def)
next
  case (Ok frame)
  obtain q x1 where e: "enqueue frame x = (q, x1)" by (cases "enqueue frame x")
  note q = enqueue_spec [OF e assms(3)]
  let ?f = "\<lambda>x w. thenO (withW w (drain_pending env x)) (\<lambda>x w. Some (te_refresh_readiness env x w))"
  have s: "thenO (Some (q, x1, w)) ?f = Some (r, x', w')"
    using assms(1) Ok e by (simp add: trojan_send_def withW_def)
  show ?thesis
  proof (cases q)
    case (Err k)
    with s q Ok e assms(3) show ?thesis by (auto simp: thenO_def)
  next
    case (Ok u)
    then have f: "?f x1 w = Some (r, x', w')" using s by (simp add: thenO_def)
    have "stays g x1 x'"
    proof (rule thenO_stays [OF f])
      show "stays g x1 x2" if "withW w (drain_pending env x1) = Some (q, x2, w2)" for q x2 w2
        using that drain_stays [OF _ assms(2)] by (auto simp: withW_Some)
      show "stays g x2 x3" if "Some (te_refresh_readiness env x2 w2) = Some (r, x3, w3)" for x2 w2 r x3 w3
        using that refresh_stays [of env x2 w2 r x3 w3 g] by simp
    qed
    then have "queue_inv x'" "stream_of g x' = stream_of g x1" using q by (simp_all add: stays_def)
    moreover have "stream_of g x1 = stream_of g x @ frame" using q Ok by (simp add: stream_of_def)
    ultimately show ?thesis using e Ok \<open>encode_udp_frame t payload = Ok frame\<close> by simp
  qed
qed

text \<open>
  Runs of one execution from its opening on, with the frames whose sending was accepted into the
  queue. Receiving and registering may happen at any point.
\<close>

inductive trojan_run ::
  "('c, 'w) tls_env \<Rightarrow> (tls_transport \<Rightarrow> 'w \<Rightarrow> ('c framed_session, error_kind) result \<times> 'w)
    \<Rightarrow> trojan_provider \<Rightarrow> bytes list \<Rightarrow> 'c trojan_execution \<Rightarrow> bool"
  for env :: "('c, 'w) tls_env" and connect_framed and provider where
  opened: "trojan_open env connect_framed provider w = Some (Ok x, w') \<Longrightarrow>
    trojan_run env connect_framed provider [] x"
| sent: "trojan_run env connect_framed provider frames x \<Longrightarrow> encode_udp_frame t payload = Ok frame \<Longrightarrow>
    fst (enqueue frame x) = Ok () \<Longrightarrow> trojan_send env t payload x w = Some (r, x', w') \<Longrightarrow>
    trojan_run env connect_framed provider (frames @ [frame]) x'"
| refused: "trojan_run env connect_framed provider frames x \<Longrightarrow>
    \<forall>frame. encode_udp_frame t payload = Ok frame \<longrightarrow> fst (enqueue frame x) \<noteq> Ok () \<Longrightarrow>
    trojan_send env t payload x w = Some (r, x', w') \<Longrightarrow>
    trojan_run env connect_framed provider frames x'"
| received: "trojan_run env connect_framed provider frames x \<Longrightarrow>
    trojan_receive env len x w = Some (q, x', w') \<Longrightarrow> trojan_run env connect_framed provider frames x'"
| registered: "trojan_run env connect_framed provider frames x \<Longrightarrow>
    trojan_register env try_clone tokens x w = (r, x', w') \<Longrightarrow> trojan_run env connect_framed provider frames x'"

lemma trojan_register_stays: "trojan_register env try_clone tokens x w = (r, x', w') \<Longrightarrow> stays g x x'"
  by (auto simp: trojan_register_def fs_register_readiness_def fs_refresh_readiness_def Let_def
      stays_def stream_of_def queue_inv_def queue_bytes_def split: if_splits prod.splits result.splits)

definition fresh_sessions ::
  "(tls_transport \<Rightarrow> 'w \<Rightarrow> ('c framed_session, error_kind) result \<times> 'w) \<Rightarrow> ('c, 'w) ghost \<Rightarrow> bool" where
  \<comment> \<open>a session just connected has taken no plaintext\<close>
  "fresh_sessions connect_framed g \<longleftrightarrow>
     (\<forall>transport w s w'. connect_framed transport w = (Ok s, w') \<longrightarrow> accepted g (fs_connection s) = [])"

lemma trojan_run_stream:
  assumes "trojan_run env connect_framed provider frames x"
    and "faithful_plaintext env g" "faithful_rest env g"
    and "fresh_sessions connect_framed g"
  shows "queue_inv x \<and> stream_of g x = encode_udp_associate_request (tp_verifier provider) @ concat frames"
  using assms(1)
proof induction
  case (opened w x w')
  let ?bs = "encode_udp_associate_request (tp_verifier provider)"
  obtain s w1 where c: "connect_framed (tp_transport provider) w = (Ok s, w1)"
    using opened by (auto simp: trojan_open_def split: prod.splits result.splits)
  obtain x1 where e: "enqueue ?bs (trojan_execution_new s) = (Ok (), x1)"
    and d: "drain_pending env x1 = Some (Ok (), x)"
    using opened c by (auto simp: trojan_open_def split: prod.splits result.splits option.splits)
  have n: "queue_inv (trojan_execution_new s)" "queue_bytes (trojan_execution_new s) = []"
    by (simp_all add: queue_inv_def queue_bytes_def trojan_execution_new_def)
  note q = enqueue_spec [OF e n(1)]
  have "accepted g (fs_connection (te_tls x1)) = []"
    using assms(4) c q unfolding fresh_sessions_def by (auto simp: trojan_execution_new_def)
  with q n(2) drain_stays [OF d assms(2)] show ?case by (simp add: stays_def stream_of_def)
next
  case (sent frames x t payload frame w r x' w')
  with trojan_send_stream [OF sent(4) assms(2)] show ?case by simp
next
  case (refused frames x t payload w r x' w')
  with trojan_send_stream [OF refused(3) assms(2)] show ?case by (auto split: result.splits)
next
  case (received frames x len w q x' w')
  with trojan_receive_stays [OF received(2) assms(2,3)] show ?case by (simp add: stays_def)
next
  case (registered frames x try_clone tokens w r x' w')
  with trojan_register_stays [OF registered(2), of g] show ?case by (simp add: stays_def)
qed

section \<open>Properties\<close>

text \<open>
  A Trojan association speaks the protocol in order and within its bounds, for any transport whose
  sessions start without plaintext.
\<close>

lemma trojan_stream_in_order:
  assumes "faithful_plaintext env g" "faithful_rest env g"
    and "fresh_sessions connect_framed g"
    and "trojan_run env connect_framed provider frames x"
  shows "accepted g (fs_connection (te_tls x)) @ queue_bytes x
      = encode_udp_associate_request (tp_verifier provider) @ concat frames \<and>
    length (te_pending x) \<le> 64 \<and> te_pending_bytes x = length (queue_bytes x) \<and>
    length (queue_bytes x) \<le> 524288"
  using trojan_run_stream [OF assms(4,1,2,3)]
  by (auto simp: stream_of_def queue_inv_def MAX_PENDING_FRAMES_def MAX_PENDING_BYTES_def)

definition sample_provider :: trojan_provider where
  "sample_provider = \<lparr>tp_verifier = TrojanVerifier [97],
     tp_transport = \<lparr>tls_tcp = tcp_transport_new (SockV4 1 443), tls_server_name = ''a''\<rparr>\<rparr>"

definition sample_framed :: "tls_transport \<Rightarrow> sample_world \<Rightarrow> (sample_conn framed_session, error_kind) result \<times> sample_world" where
  "sample_framed transport w =
     (Ok \<lparr>fs_connection = ([], [], []), fs_remote = 4, fs_registration = registration_default,
        fs_remote_eof = False\<rparr>, w)"

text \<open>
  Property C34: sending on a Trojan association always returns. If the TLS engine takes plaintext
  without reporting an interrupted call, a send on an association in any state it can reach ends,
  with a result and with the queue within its bounds.
\<close>

theorem trojan_send_returns:
  assumes "faithful_plaintext env g" "faithful_rest env g" "fresh_sessions connect_framed g"
    and "trojan_run env connect_framed provider frames x"
    and "\<And>bs c. fst (tls_write env bs c) \<noteq> Err Interrupted"
  shows "\<exists>r x' w'. trojan_send env t payload x w = Some (r, x', w') \<and> queue_inv x'"
proof -
  have inv: "queue_inv x" using trojan_run_stream [OF assms(4,1,2,3)] by blast
  show ?thesis
  proof (cases "encode_udp_frame t payload")
    case (Err k)
    with inv show ?thesis by (simp add: trojan_send_def)
  next
    case (Ok frame)
    obtain q x1 where q: "enqueue frame x = (q, x1)" by (cases "enqueue frame x")
    then have inv1: "queue_inv x1" using enqueue_spec [OF q inv] by blast
    obtain q2 x2 where d: "drain_pending env x1 = Some (q2, x2)"
      using drain_pending_returns [OF assms(1,5) inv1] by (metis surj_pair)
    then have inv2: "queue_inv x2" using drain_pending_keeps [OF d, of g] assms(1) inv1 by (simp add: keeps_stream_def)
    obtain q3 x3 w3 where f: "te_refresh_readiness env x2 w = (q3, x3, w3)" by (metis prod_cases3)
    then have "queue_inv x3" using inv2
      by (auto simp: te_refresh_readiness_def queue_inv_def queue_bytes_def split: bool.splits option.splits prod.splits)
    with inv1 inv2 Ok q d f show ?thesis
      by (cases q; cases q2) (simp_all add: trojan_send_def thenO_def withW_def)
  qed
qed

theorem trojan_send_returns_witness:
  "\<exists>x r x' w'. trojan_run sample_tls sample_framed sample_provider [] x \<and>
    trojan_send sample_tls \<lparr>t_host = HIp (V4 9), t_port = 53\<rparr> [7] x ([], [], [], []) = Some (r, x', w') \<and> queue_inv x'"
proof -
  let ?w = "([], [], [], []) :: sample_world" and ?t = "\<lparr>t_host = HIp (V4 9), t_port = 53\<rparr>"
  let ?x = "(trojan_execution_new (\<lparr>fs_connection = (encode_udp_associate_request (TrojanVerifier [97]), [], []),
      fs_remote = 4, fs_registration = registration_default, fs_remote_eof = False\<rparr> :: sample_conn framed_session))"
  have "trojan_open sample_tls sample_framed sample_provider ?w = Some (Ok ?x, ?w)" by code_simp
  then have run: "trojan_run sample_tls sample_framed sample_provider [] ?x" by (rule trojan_run.opened)
  have f: "faithful_plaintext sample_tls sample_ghost" "faithful_rest sample_tls sample_ghost"
    using sample_tls_faithful [of 0] by (simp_all add: faithful_def)
  have fresh: "fresh_sessions sample_framed sample_ghost"
    by (auto simp: fresh_sessions_def sample_framed_def sample_ghost_def)
  have "fst (tls_write sample_tls bs c) \<noteq> Err Interrupted" for bs c
    by (cases c) (simp add: sample_tls_def)
  from trojan_send_returns [OF f fresh run this, of ?t "[7]" ?w] run show ?thesis by blast
qed

end
