(* ===== verification/Datagram_Paths.thy ===== *)
theory Datagram_Paths
  imports Trojan_Datagram
begin

text \<open>
  The datagram executions a daemon has: the DIRECT association and the Trojan session behind one
  trait object, and the factory of \<open>OutboundRegistry::open_datagram\<close> that opens them
  (\<open>crates/daemon/src/outbound.rs\<close>). The inbound associations work on a route set of these.
  The world of an inbound is the shared DNS engine and the operating system.
\<close>

section \<open>Definitions\<close>

datatype 'c daemon_execution = DirectExec direct_association | TrojanExec "'c trojan_execution"

record ('c, 'w) datagram_env =
  de_os :: "'w net_os"
  de_udp :: "'w udp_os"
  de_tls :: "('c, 'w) tls_env"
  de_try_clone :: "'w \<Rightarrow> (unit, error_kind) result \<times> 'w"
  de_connect_framed :: "tls_transport \<Rightarrow> 'w \<Rightarrow> ('c framed_session, error_kind) result \<times> 'w"
  de_option :: "nat \<Rightarrow> socket_option \<Rightarrow> 'w \<Rightarrow> (unit, error_kind) result \<times> 'w"
  de_poll_new :: "'w \<Rightarrow> (unit, error_kind) result \<times> 'w"
  de_poll :: "duration option \<Rightarrow> 'w \<Rightarrow> (mio_event list, error_kind) result \<times> 'w"
  de_peer_addr :: "nat \<Rightarrow> 'w \<Rightarrow> (socket_addr, error_kind) result"
  de_local_addr :: "nat \<Rightarrow> 'w \<Rightarrow> (socket_addr, error_kind) result"

definition daemon_send ::
  "('c, 'w) datagram_env \<Rightarrow> target \<Rightarrow> bytes \<Rightarrow> 'c daemon_execution \<Rightarrow> 'w dns_engine \<times> 'w
    \<Rightarrow> ((unit, error_kind) result \<times> 'c daemon_execution \<times> 'w dns_engine \<times> 'w) option" where
  "daemon_send de t payload x dw =
     (case x of
        DirectExec d \<Rightarrow>
          map_option (\<lambda>(r, d, dw). (r, DirectExec d, dw))
            (ex_send (direct_ops (de_os de) (de_udp de)) t payload d dw)
      | TrojanExec y \<Rightarrow>
          map_option (\<lambda>(r, y, w). (r, TrojanExec y, fst dw, w))
            (ex_send (trojan_ops (de_tls de) (de_try_clone de)) t payload y (snd dw)))"

definition daemon_receive ::
  "('c, 'w) datagram_env \<Rightarrow> nat \<Rightarrow> 'c daemon_execution \<Rightarrow> 'w dns_engine \<times> 'w
    \<Rightarrow> ((received_datagram option, error_kind) result \<times> 'c daemon_execution \<times> 'w dns_engine \<times> 'w) option" where
  "daemon_receive de len x dw =
     (case x of
        DirectExec d \<Rightarrow>
          map_option (\<lambda>(r, d, dw). (r, DirectExec d, dw))
            (ex_receive (direct_ops (de_os de) (de_udp de)) len d dw)
      | TrojanExec y \<Rightarrow>
          map_option (\<lambda>(r, y, w). (r, TrojanExec y, fst dw, w))
            (ex_receive (trojan_ops (de_tls de) (de_try_clone de)) len y (snd dw)))"

definition daemon_count :: "'c daemon_execution \<Rightarrow> nat" where
  "daemon_count x = (case x of DirectExec d \<Rightarrow> direct_count d | TrojanExec y \<Rightarrow> trojan_count y)"

definition daemon_register ::
  "('c, 'w) datagram_env \<Rightarrow> token list \<Rightarrow> 'c daemon_execution \<Rightarrow> 'w dns_engine \<times> 'w
    \<Rightarrow> (unit, error_kind) result \<times> 'c daemon_execution \<times> 'w dns_engine \<times> 'w" where
  "daemon_register de tokens x dw =
     (case x of
        DirectExec d \<Rightarrow>
          (let (r, d, dw) = ex_register (direct_ops (de_os de) (de_udp de)) tokens d dw in (r, DirectExec d, dw))
      | TrojanExec y \<Rightarrow>
          (let (r, y, w) = ex_register (trojan_ops (de_tls de) (de_try_clone de)) tokens y (snd dw)
           in (r, TrojanExec y, fst dw, w)))"

definition daemon_ops :: "('c, 'w) datagram_env \<Rightarrow> ('c daemon_execution, 'w dns_engine \<times> 'w) exec_ops" where
  "daemon_ops de =
     \<lparr>ex_send = daemon_send de, ex_receive = daemon_receive de, ex_count = daemon_count,
      ex_register = daemon_register de\<rparr>"

definition daemon_open ::
  "('c, 'w) datagram_env \<Rightarrow> trojan_provider outbound_registry \<Rightarrow> endpoint \<Rightarrow> 'w dns_engine \<times> 'w
    \<Rightarrow> (('c daemon_execution, error_kind) result \<times> 'w dns_engine \<times> 'w) option" where
  "daemon_open de r =
     open_datagram
       (\<lambda>(dns, w). let (q, w) = direct_new (de_udp de) w in Some (bindR q (\<lambda>d. Ok (DirectExec d)), dns, w))
       (\<lambda>provider (dns, w).
          map_option (\<lambda>(q, w). (bindR q (\<lambda>y. Ok (TrojanExec y)), dns, w))
            (trojan_open (de_tls de) (de_connect_framed de) provider w))
       r"

text \<open>
  What both inbounds do with the target of a datagram: the policy plans an endpoint, and the
  endpoint must support datagrams.
\<close>

definition udp_endpoint ::
  "runtime \<Rightarrow> 'd outbound_registry \<Rightarrow> target \<Rightarrow> u64 \<Rightarrow> endpoint option \<times> u64" where
  "udp_endpoint rt r t fid =
     (let (action, fid) = plan_action rt t Udp fid
      in (case action of
            EReject _ \<Rightarrow> None
          | ERoute e \<Rightarrow>
              if (case endpoint_caps r e of None \<Rightarrow> False | Some c \<Rightarrow> cap_udp c) then Some e else None,
          fid))"

section \<open>The executions behind one interface\<close>

lemmas daemon_defs = daemon_ops_def daemon_send_def daemon_receive_def daemon_count_def daemon_register_def

interpretation paths: datagram_execution "daemon_ops de"
proof unfold_locales
  have d: "ex_count (direct_ops (de_os de) (de_udp de)) x = direct_count x" for x
    by (simp add: direct_ops_def)
  have t: "ex_count (trojan_ops (de_tls de) (de_try_clone de)) x = trojan_count x" for x
    by (simp add: trojan_ops_def)
  show "0 < ex_count (daemon_ops de) x" for x
    by (simp add: daemon_defs direct_count_def trojan_count_def split: daemon_execution.split)
  show "ex_register (daemon_ops de) tokens x w = (Ok (), x', w') \<Longrightarrow> length tokens = ex_count (daemon_ops de) x"
    for tokens x w x' w'
    using direct.register_arity [of "de_os de" "de_udp de"]
      trojan.register_arity [of "de_tls de" "de_try_clone de"]
    by (cases w) (auto simp: daemon_defs d t Let_def split: daemon_execution.splits prod.splits)
  show "ex_register (daemon_ops de) tokens x w = (r, x', w') \<Longrightarrow> ex_count (daemon_ops de) x' = ex_count (daemon_ops de) x"
    for tokens x w r x' w'
    using direct.register_count [of "de_os de" "de_udp de"]
      trojan.register_count [of "de_tls de" "de_try_clone de"]
    by (cases w) (auto simp: daemon_defs d t Let_def split: daemon_execution.splits prod.splits)
  show "ex_send (daemon_ops de) t payload x w = Some (r, x', w') \<Longrightarrow> ex_count (daemon_ops de) x' = ex_count (daemon_ops de) x"
    for t payload x w r x' w'
    using direct.send_count [of "de_os de" "de_udp de"]
      trojan.send_count [of "de_tls de" "de_try_clone de"]
    by (cases w) (auto simp: daemon_defs d t split: daemon_execution.splits)
  show "ex_receive (daemon_ops de) len x w = Some (q, x', w') \<Longrightarrow> ex_count (daemon_ops de) x' = ex_count (daemon_ops de) x"
    for len x w q x' w'
    using direct.receive_count [of "de_os de" "de_udp de"]
      trojan.receive_count [of "de_tls de" "de_try_clone de"]
    by (cases w) (auto simp: daemon_defs d t split: daemon_execution.splits)
qed

lemma udp_endpoint_Some:
  assumes "udp_endpoint rt r t fid = (Some e, fid')"
  shows "fst (plan_action rt t Udp fid) = ERoute e \<and> (\<exists>c. endpoint_caps r e = Some c \<and> cap_udp c)"
  using assms
  by (auto simp: udp_endpoint_def Let_def split: prod.splits execution_action.splits if_splits option.splits)

lemma daemon_open_proxy:
  assumes "daemon_open de r (Proxy i) dw = Some (Ok x, dw')"
  shows "\<exists>config provider y. hm_get (endpoints r) i = Some config \<and> pe_datagram config = Some provider \<and>
    x = TrojanExec y \<and>
    (\<exists>w'. trojan_open (de_tls de) (de_connect_framed de) provider (snd dw) = Some (Ok y, w'))"
  using assms
  by (auto simp: daemon_open_def open_datagram_def split: option.splits prod.splits)

section \<open>Routes keep their kind\<close>

text \<open>
  A route of a proxy endpoint is served by that endpoint's provider and never by the DIRECT
  association, and the other way round.
\<close>

definition own_kind :: "endpoint \<Rightarrow> 'c daemon_execution \<Rightarrow> bool" where
  "own_kind e x \<longleftrightarrow> (case e of Direct \<Rightarrow> \<exists>d. x = DirectExec d | Proxy _ \<Rightarrow> \<exists>y. x = TrojanExec y)"

definition kinds_inv :: "'c daemon_execution route_set \<Rightarrow> bool" where
  "kinds_inv rs \<longleftrightarrow> (\<forall>(e, route) \<in> set (routes rs). own_kind e (dr_execution route))"

lemma kinds_update:
  assumes "kinds_inv rs" "own_kind e x"
  shows "kinds_inv (rs\<lparr>routes := hm_insert e (route\<lparr>dr_execution := x\<rparr>) (routes rs)\<rparr>)"
proof -
  have "own_kind i (dr_execution r)"
    if "(i, r) \<in> set (hm_insert e (route\<lparr>dr_execution := x\<rparr>) (routes rs))" for i r
  proof -
    have "(i, r) = (e, route\<lparr>dr_execution := x\<rparr>) \<or> (i, r) \<in> set (routes rs)"
      using subsetD [OF set_hm_insert that] by simp
    with assms show ?thesis by (auto simp: kinds_inv_def)
  qed
  then show ?thesis by (auto simp: kinds_inv_def)
qed

lemma own_kind_send:
  "ex_send (daemon_ops de) t payload x dw = Some (r, x', dw') \<Longrightarrow> own_kind e x \<Longrightarrow> own_kind e x'"
  by (auto simp: daemon_defs own_kind_def split: daemon_execution.splits endpoint.splits)

lemma own_kind_receive:
  "ex_receive (daemon_ops de) len x dw = Some (r, x', dw') \<Longrightarrow> own_kind e x \<Longrightarrow> own_kind e x'"
  by (auto simp: daemon_defs own_kind_def split: daemon_execution.splits endpoint.splits)

lemma own_kind_register:
  "ex_register (daemon_ops de) tokens x dw = (r, x', dw') \<Longrightarrow> own_kind e x \<Longrightarrow> own_kind e x'"
  by (auto simp: daemon_defs own_kind_def Let_def split: daemon_execution.splits endpoint.splits prod.splits)

lemma own_kind_open: "daemon_open de r e dw = Some (Ok x, dw') \<Longrightarrow> own_kind e x"
  by (cases e) (auto simp: daemon_open_def open_datagram_def own_kind_def Let_def
      split: option.splits prod.splits)


lemma kinds_open:
  assumes "open_route (daemon_ops de) (daemon_open de r) e rs ta dw = Some (q, rs', ta', dw')" "kinds_inv rs"
  shows "kinds_inv rs'"
proof (cases "rs' = rs")
  case False
  then obtain x dw1 tokens dw2 x' where x: "daemon_open de r e dw = Some (Ok x, dw1)"
    "ex_register (daemon_ops de) tokens x dw1 = (Ok (), x', dw2)"
    "rs' = rs\<lparr>routes := hm_insert e \<lparr>dr_execution = x', dr_tokens = tokens\<rparr> (routes rs)\<rparr>"
    using assms(1) by (auto simp: open_route_def split: if_splits option.splits prod.splits result.splits)
  have "own_kind e x'" using own_kind_register [OF x(2) own_kind_open [OF x(1)]] .
  from kinds_update [OF assms(2) this, of "\<lparr>dr_execution = x', dr_tokens = tokens\<rparr>"] show ?thesis
    by (simp add: x(3))
qed (use assms in simp)

lemma kinds_send:
  assumes "send_with (daemon_ops de) (daemon_open de r) e t payload rs ta dw = Some (q, rs', ta', dw')"
    and "kinds_inv rs"
  shows "kinds_inv rs'"
proof -
  obtain q1 rs1 ta1 dw1 where 1: "(if hm_contains (routes rs) e then Some (Ok (), rs, ta, dw)
      else open_route (daemon_ops de) (daemon_open de r) e rs ta dw) = Some (q1, rs1, ta1, dw1)"
    using assms(1) by (auto simp: send_with_def split: option.splits if_splits)
  then have kinds: "kinds_inv rs1" using assms(2) by (auto split: if_splits elim!: kinds_open)
  show ?thesis
  proof (cases "rs' = rs1")
    case False
    then obtain route x' dw2 where x: "hm_get (routes rs1) e = Some route"
      "ex_send (daemon_ops de) t payload (dr_execution route) dw1 = Some (q, x', dw2)"
      "rs' = rs1\<lparr>routes := hm_insert e (route\<lparr>dr_execution := x'\<rparr>) (routes rs1)\<rparr>"
      using assms(1) 1 by (auto simp: send_with_def split: option.splits prod.splits result.splits)
    have "(e, route) \<in> set (routes rs1)" using x(1) by (simp add: hm_get_def map_of_SomeD)
    then have "own_kind e (dr_execution route)" using kinds by (auto simp: kinds_inv_def)
    from kinds_update [OF kinds own_kind_send [OF x(2) this]] show ?thesis by (simp add: x(3))
  qed (use kinds in simp)
qed

lemma kinds_receive:
  assumes "receive_ready (daemon_ops de) tok len rs dw = Some (q, rs', dw')" "kinds_inv rs"
  shows "kinds_inv rs'"
proof (cases "rs' = rs")
  case False
  then obtain e route x' where x: "List.find (\<lambda>(_, route). tok \<in> set (dr_tokens route)) (routes rs) = Some (e, route)"
    "ex_receive (daemon_ops de) len (dr_execution route) dw = Some (q, x', dw')"
    "rs' = rs\<lparr>routes := hm_insert e (route\<lparr>dr_execution := x'\<rparr>) (routes rs)\<rparr>"
    using assms(1) by (auto simp: receive_ready_def split: option.splits prod.splits)
  have "own_kind e (dr_execution route)"
    using find_SomeD [OF x(1)] assms(2) by (auto simp: kinds_inv_def)
  from kinds_update [OF assms(2) own_kind_receive [OF x(2) this]] show ?thesis by (simp add: x(3))
qed (use assms in simp)

end
