(* ===== verification/Socks5_Udp.thy ===== *)
theory Socks5_Udp
  imports Inbound Datagram_Paths
begin

text \<open>
  UDP ASSOCIATE of \<open>crates/daemon/src/socks5.rs\<close>: the loop between the control connection,
  the client's relay socket and the outbound routes, one turn at a time, and the entry point of the
  SOCKS5 inbound. Sockets are descriptors of the environment. A turn may run a loop of a carrier that does not end; its value is
  \<open>None\<close> then.
\<close>

section \<open>Definitions\<close>

definition UDP_IDLE_TIMEOUT :: duration where "UDP_IDLE_TIMEOUT = from_secs 120"
definition MAX_UDP_PACKET :: nat where "MAX_UDP_PACKET = 65535"
definition MAX_UDP_EVENT_BURST :: nat where "MAX_UDP_EVENT_BURST = 32"
definition MAX_PENDING_CLIENT_REPLIES :: nat where "MAX_PENDING_CLIENT_REPLIES = 64"
definition UDP_CONTROL_TOKEN :: token where "UDP_CONTROL_TOKEN = 0"
definition UDP_CLIENT_TOKEN :: token where "UDP_CLIENT_TOKEN = 1"
definition UDP_OUTBOUND_FIRST_TOKEN :: token where "UDP_OUTBOUND_FIRST_TOKEN = 2"

text \<open>What stays fixed during an association, and what its loop keeps.\<close>

record ('c, 'w) assoc_ctx =
  ac_env :: "('c, 'w) datagram_env"
  ac_runtime :: runtime
  ac_outbounds :: "trojan_provider outbound_registry"
  ac_control :: nat
  ac_relay :: nat
  ac_control_ip :: ip_addr

record 'c udp_assoc =
  ua_routes :: "'c daemon_execution route_set"
  ua_tokens :: token_allocator
  ua_client :: "socket_addr option"
  ua_pending :: "(bytes \<times> socket_addr) list"
  ua_writable :: bool
  ua_last_activity :: instant
  ua_next_flow_id :: u64

type_synonym 'w netw = "'w dns_engine \<times> 'w"

definition ac_now :: "('c, 'w) assoc_ctx \<Rightarrow> 'w \<Rightarrow> instant" where
  "ac_now ac w = os_now (de_os (ac_env ac)) w"

definition is_client_packet :: "socket_addr \<Rightarrow> ip_addr \<Rightarrow> socket_addr option \<Rightarrow> bool" where
  "is_client_packet source control_ip client =
     (case client of None \<Rightarrow> sock_ip source = control_ip | Some c \<Rightarrow> source = c)"

primrec control_reads :: "nat \<Rightarrow> ('c, 'w) assoc_ctx \<Rightarrow> 'w \<Rightarrow> (bool, error_kind) result \<times> 'w" where
  "control_reads 0 ac w = (Ok False, w)"
| "control_reads (Suc n) ac w =
     (case sock_read (de_tls (ac_env ac)) (ac_control ac) 256 w of
        (Ok bs, w) \<Rightarrow> if bs = [] then (Ok True, w) else control_reads n ac w
      | (Err k, w) \<Rightarrow>
          if k = WouldBlock then (Ok False, w)
          else if k = Interrupted then control_reads n ac w
          else if k = ConnectionReset \<or> k = BrokenPipe \<or> k = NotConnected then (Ok True, w)
          else (Err k, w))"

definition control_event_is_closed ::
  "('c, 'w) assoc_ctx \<Rightarrow> mio_event \<Rightarrow> 'w \<Rightarrow> (bool, error_kind) result \<times> 'w" where
  "control_event_is_closed ac ev w =
     (if ev_read_closed ev \<or> ev_error ev then (Ok True, w)
      else if \<not> ev_readable ev then (Ok False, w)
      else control_reads 4 ac w)"

fun control_closed ::
  "('c, 'w) assoc_ctx \<Rightarrow> mio_event list \<Rightarrow> 'w \<Rightarrow> (bool, error_kind) result \<times> 'w" where
  "control_closed ac [] w = (Ok False, w)"
| "control_closed ac (ev # evs) w =
     (if ev_token ev \<noteq> UDP_CONTROL_TOKEN then control_closed ac evs w
      else (case control_event_is_closed ac ev w of
              (Ok False, w) \<Rightarrow> control_closed ac evs w
            | r \<Rightarrow> r))"

definition handle_udp_client_packet ::
  "('c, 'w) assoc_ctx \<Rightarrow> bytes \<Rightarrow> 'c udp_assoc \<Rightarrow> 'w netw \<Rightarrow> (bool \<times> 'c udp_assoc \<times> 'w netw) option" where
  "handle_udp_client_packet ac packet st dw =
     (case parse_udp_request packet of
        Err _ \<Rightarrow> Some (False, st, dw)
      | Ok (t, payload) \<Rightarrow>
          (let (e, fid) = udp_endpoint (ac_runtime ac) (ac_outbounds ac) t (ua_next_flow_id st);
               st = st\<lparr>ua_next_flow_id := fid\<rparr>
           in case e of
                None \<Rightarrow> Some (False, st, dw)
              | Some e \<Rightarrow>
                  map_option (\<lambda>(r, rs, ta, dw). (is_ok r, st\<lparr>ua_routes := rs, ua_tokens := ta\<rparr>, dw))
                    (send_with (daemon_ops (ac_env ac)) (daemon_open (ac_env ac) (ac_outbounds ac))
                      e t payload (ua_routes st) (ua_tokens st) dw)))"

definition send_or_queue_client_reply ::
  "('c, 'w) assoc_ctx \<Rightarrow> bytes \<Rightarrow> socket_addr \<Rightarrow> (bytes \<times> socket_addr) list \<Rightarrow> 'w
    \<Rightarrow> bool \<times> (bytes \<times> socket_addr) list \<times> 'w" where
  "send_or_queue_client_reply ac packet client q w =
     (case uo_send_to (de_udp (ac_env ac)) (ac_relay ac) packet client w of
        (Ok sent, w) \<Rightarrow> (sent = length packet, q, w)
      | (Err k, w) \<Rightarrow>
          if k = WouldBlock \<or> k = Interrupted then
            (if MAX_PENDING_CLIENT_REPLIES \<le> length q then (False, q, w) else (True, q @ [(packet, client)], w))
          else (False, q, w))"

partial_function (option) flush_pending_client_replies ::
  "('c, 'w) assoc_ctx \<Rightarrow> bool \<Rightarrow> (bytes \<times> socket_addr) list \<Rightarrow> 'w
    \<Rightarrow> (bool \<times> (bytes \<times> socket_addr) list \<times> 'w) option" where
  "flush_pending_client_replies ac sent_any q w =
     (case q of
        [] \<Rightarrow> Some (sent_any, [], w)
      | (packet, client) # rest \<Rightarrow>
          (case uo_send_to (de_udp (ac_env ac)) (ac_relay ac) packet client w of
             (Ok sent, w) \<Rightarrow> flush_pending_client_replies ac (if sent = length packet then True else sent_any) rest w
           | (Err k, w) \<Rightarrow>
               if k = WouldBlock then Some (sent_any, (packet, client) # rest, w)
               else if k = Interrupted then flush_pending_client_replies ac sent_any ((packet, client) # rest) w
               else flush_pending_client_replies ac sent_any rest w))"

declare flush_pending_client_replies.simps [code]

text \<open>The bounded bursts of a turn: packets of the client, and datagrams of one ready route.\<close>

definition packet_handled ::
  "('c, 'w) assoc_ctx \<Rightarrow> bool \<Rightarrow> socket_addr \<Rightarrow> 'c udp_assoc \<Rightarrow> 'w netw \<Rightarrow> 'c udp_assoc" where
  "packet_handled ac handled source st dw =
     (if handled
      then st\<lparr>ua_client := (case ua_client st of None \<Rightarrow> Some source | Some c \<Rightarrow> Some c),
              ua_last_activity := ac_now ac (snd dw)\<rparr>
      else st)"

primrec client_burst ::
  "nat \<Rightarrow> ('c, 'w) assoc_ctx \<Rightarrow> 'c udp_assoc \<Rightarrow> 'w netw
    \<Rightarrow> ((unit, error_kind) result \<times> 'c udp_assoc \<times> 'w netw) option" where
  "client_burst 0 ac st dw = Some (Ok (), st, dw)"
| "client_burst (Suc n) ac st dw =
     (case uo_recv_from (de_udp (ac_env ac)) (ac_relay ac) MAX_UDP_PACKET (snd dw) of
        (Ok (packet, source), w) \<Rightarrow>
          if \<not> is_client_packet source (ac_control_ip ac) (ua_client st) then client_burst n ac st (fst dw, w)
          else (case handle_udp_client_packet ac packet st (fst dw, w) of
                  None \<Rightarrow> None
                | Some (handled, st, dw) \<Rightarrow> client_burst n ac (packet_handled ac handled source st dw) dw)
      | (Err k, w) \<Rightarrow>
          if k = WouldBlock then Some (Ok (), st, fst dw, w)
          else if k = Interrupted then client_burst n ac st (fst dw, w)
          else Some (Err k, st, fst dw, w))"

definition reply_to_client ::
  "('c, 'w) assoc_ctx \<Rightarrow> bytes \<Rightarrow> socket_addr \<Rightarrow> 'c udp_assoc \<Rightarrow> 'w netw \<Rightarrow> 'c udp_assoc \<times> 'w netw" where
  "reply_to_client ac response client st dw =
     (let (ok, q, w) = send_or_queue_client_reply ac response client (ua_pending st) (snd dw);
          st = st\<lparr>ua_pending := q\<rparr>
      in (if ok then st\<lparr>ua_last_activity := ac_now ac w\<rparr> else st, fst dw, w))"

primrec outbound_burst ::
  "nat \<Rightarrow> ('c, 'w) assoc_ctx \<Rightarrow> token \<Rightarrow> 'c udp_assoc \<Rightarrow> 'w netw
    \<Rightarrow> ((unit, error_kind) result \<times> 'c udp_assoc \<times> 'w netw) option" where
  "outbound_burst 0 ac tok st dw = Some (Ok (), st, dw)"
| "outbound_burst (Suc n) ac tok st dw =
     (case receive_ready (daemon_ops (ac_env ac)) tok MAX_UDP_PACKET (ua_routes st) dw of
        None \<Rightarrow> None
      | Some (Err k, rs, dw) \<Rightarrow> Some (Err k, st\<lparr>ua_routes := rs\<rparr>, dw)
      | Some (Ok None, rs, dw) \<Rightarrow> Some (Ok (), st\<lparr>ua_routes := rs\<rparr>, dw)
      | Some (Ok (Some rd), rs, dw) \<Rightarrow>
          (let st = st\<lparr>ua_routes := rs\<rparr>
           in case ua_client st of
                None \<Rightarrow> outbound_burst n ac tok st dw
              | Some client \<Rightarrow>
                  (case encode_udp_response (rd_source rd) (rd_payload rd) of
                     Err k \<Rightarrow> Some (Err k, st, dw)
                   | Ok response \<Rightarrow>
                       (let (st, dw) = reply_to_client ac response client st dw
                        in outbound_burst n ac tok st dw))))"

fun outbound_bursts ::
  "('c, 'w) assoc_ctx \<Rightarrow> token list \<Rightarrow> 'c udp_assoc \<Rightarrow> 'w netw
    \<Rightarrow> ((unit, error_kind) result \<times> 'c udp_assoc \<times> 'w netw) option" where
  "outbound_bursts ac [] st dw = Some (Ok (), st, dw)"
| "outbound_bursts ac (tok # toks) st dw =
     thenO (outbound_burst MAX_UDP_EVENT_BURST ac tok st dw) (\<lambda>st dw. outbound_bursts ac toks st dw)"

definition flush_replies ::
  "('c, 'w) assoc_ctx \<Rightarrow> bool \<Rightarrow> 'c udp_assoc \<Rightarrow> 'w netw
    \<Rightarrow> ((unit, error_kind) result \<times> 'c udp_assoc \<times> 'w netw) option" where
  "flush_replies ac client_writable st dw =
     (if \<not> client_writable then Some (Ok (), st, dw)
      else map_option (\<lambda>(sent_any, q, w).
             (Ok (), (if sent_any then st\<lparr>ua_pending := q, ua_last_activity := ac_now ac w\<rparr>
                      else st\<lparr>ua_pending := q\<rparr>), fst dw, w))
             (flush_pending_client_replies ac False (ua_pending st) (snd dw)))"

definition update_interest ::
  "('c, 'w) assoc_ctx \<Rightarrow> 'c udp_assoc \<Rightarrow> 'w netw \<Rightarrow> (unit, error_kind) result \<times> 'c udp_assoc \<times> 'w netw" where
  "update_interest ac st dw =
     (let wants = (ua_pending st \<noteq> [])
      in if wants = ua_writable st then (Ok (), st, dw)
         else (case mio_reregister (de_tls (ac_env ac)) (ac_relay ac) UDP_CLIENT_TOKEN (True, wants) (snd dw) of
                 (Err k, w) \<Rightarrow> (Err k, st, fst dw, w)
               | (Ok _, w) \<Rightarrow> (Ok (), st\<lparr>ua_writable := wants\<rparr>, fst dw, w)))"

definition serve_events ::
  "('c, 'w) assoc_ctx \<Rightarrow> mio_event list \<Rightarrow> 'c udp_assoc \<Rightarrow> 'w netw
    \<Rightarrow> ((unit, error_kind) result \<times> 'c udp_assoc \<times> 'w netw) option" where
  \<comment> \<open>what a turn does after the control events of the batch\<close>
  "serve_events ac evs st dw =
     (let client_readable = list_ex (\<lambda>ev. ev_token ev = UDP_CLIENT_TOKEN \<and> ev_readable ev) evs;
          client_writable = list_ex (\<lambda>ev. ev_token ev = UDP_CLIENT_TOKEN \<and> ev_writable ev) evs;
          outbound_ready = map ev_token (filter (\<lambda>ev. owns_token (ua_routes st) (ev_token ev)) evs)
      in thenO (if client_readable then client_burst MAX_UDP_EVENT_BURST ac st dw else Some (Ok (), st, dw)) (\<lambda>st dw.
         thenO (outbound_bursts ac outbound_ready st dw) (\<lambda>st dw.
         thenO (flush_replies ac client_writable st dw) (\<lambda>st dw.
         Some (update_interest ac st dw)))))"

text \<open>One turn: either the loop returns, with a result, or it goes on.\<close>

datatype loop_exit = GoOn | Return "(unit, error_kind) result"

definition assoc_turn ::
  "('c, 'w) assoc_ctx \<Rightarrow> 'c udp_assoc \<Rightarrow> 'w netw \<Rightarrow> (loop_exit \<times> 'c udp_assoc \<times> 'w netw) option" where
  "assoc_turn ac st dw =
     (let remaining = UDP_IDLE_TIMEOUT - (ac_now ac (snd dw) - ua_last_activity st)
      in if remaining = 0 then Some (Return (Ok ()), st, dw)
         else (case de_poll (ac_env ac) (Some remaining) (snd dw) of
           (Err k, w) \<Rightarrow> Some (if k = Interrupted then GoOn else Return (Err k), st, fst dw, w)
         | (Ok evs, w) \<Rightarrow>
             if evs = [] then Some (Return (Ok ()), st, fst dw, w)
             else (case control_closed ac evs w of
               (Err k, w) \<Rightarrow> Some (Return (Err k), st, fst dw, w)
             | (Ok True, w) \<Rightarrow> Some (Return (Ok ()), st, fst dw, w)
             | (Ok False, w) \<Rightarrow>
                 map_option (\<lambda>(r, st, dw). (case r of Ok _ \<Rightarrow> GoOn | Err k \<Rightarrow> Return (Err k), st, dw))
                   (serve_events ac evs st (fst dw, w)))))"

partial_function (option) assoc_loop ::
  "('c, 'w) assoc_ctx \<Rightarrow> 'c udp_assoc \<Rightarrow> 'w netw
    \<Rightarrow> ((unit, error_kind) result \<times> 'c udp_assoc \<times> 'w netw) option" where
  "assoc_loop ac st dw =
     (case assoc_turn ac st dw of
        None \<Rightarrow> None
      | Some (GoOn, st, dw) \<Rightarrow> assoc_loop ac st dw
      | Some (Return r, st, dw) \<Rightarrow> Some (r, st, dw))"

declare assoc_loop.simps [code]

definition assoc_start ::
  "ip_addr \<Rightarrow> udp_client_hint \<Rightarrow> u64 \<Rightarrow> instant \<Rightarrow> 'c udp_assoc" where
  "assoc_start peer_ip hint fid now =
     \<lparr>ua_routes = route_set_new, ua_tokens = allocator_new UDP_OUTBOUND_FIRST_TOKEN,
      ua_client = map_option (\<lambda>port. socket_addr_new peer_ip port) (hint_port hint),
      ua_pending = [], ua_writable = False, ua_last_activity = now, ua_next_flow_id = fid\<rparr>"

definition assoc_loop_from ::
  "('c, 'w) assoc_ctx \<Rightarrow> udp_client_hint \<Rightarrow> stream \<Rightarrow> u64 \<Rightarrow> 'w netw
    \<Rightarrow> ((unit, error_kind) result \<times> stream \<times> u64 \<times> 'w netw) option" where
  "assoc_loop_from ac hint client fid dw =
     map_option (\<lambda>(r, st, dw). (r, client, ua_next_flow_id st, dw))
       (assoc_loop ac (assoc_start (ac_control_ip ac) hint fid (ac_now ac (snd dw))) dw)"

definition control_options :: "nat \<Rightarrow> (nat \<times> socket_option) list" where
  "control_options control =
     [(control, SetReadTimeout None), (control, SetWriteTimeout None), (control, SetNonblocking True)]"

definition handle_udp_associate ::
  "('c, 'w) datagram_env \<Rightarrow> runtime \<Rightarrow> trojan_provider outbound_registry \<Rightarrow> nat \<Rightarrow> udp_client_hint
    \<Rightarrow> stream \<Rightarrow> u64 \<Rightarrow> 'w netw \<Rightarrow> ((unit, error_kind) result \<times> stream \<times> u64 \<times> 'w netw) option" where
  "handle_udp_associate de rt reg control hint client fid dw =
     (case dw of (dns, w) \<Rightarrow>
      case de_peer_addr de control w of
        Err k \<Rightarrow> Some (Err k, client, fid, dns, w)
      | Ok control_peer \<Rightarrow>
        if hint_ip hint \<noteq> None \<and> hint_ip hint \<noteq> Some (sock_ip control_peer) then
          (case write_reply 0x02 None client of
             (Err k, client) \<Rightarrow> Some (Err k, client, fid, dns, w)
           | (Ok _, client) \<Rightarrow> Some (Err PermissionDenied, client, fid, dns, w))
        else
      (case de_local_addr de control w of
        Err k \<Rightarrow> Some (Err k, client, fid, dns, w)
      | Ok local \<Rightarrow>
      (case uo_bind (de_udp de) (socket_addr_new (sock_ip local) 0) w of
        (Err k, w) \<Rightarrow> Some (Err k, client, fid, dns, w)
      | (Ok relay, w) \<Rightarrow>
      (case de_local_addr de relay w of
        Err k \<Rightarrow> Some (Err k, client, fid, dns, w)
      | Ok relay_address \<Rightarrow>
      (case write_reply 0x00 (Some relay_address) client of
        (Err k, client) \<Rightarrow> Some (Err k, client, fid, dns, w)
      | (Ok _, client) \<Rightarrow>
      (case set_options (de_option de) (control_options control) w of
        (Err k, w) \<Rightarrow> Some (Err k, client, fid, dns, w)
      | (Ok _, w) \<Rightarrow>
      (case uo_set_nonblocking (de_udp de) relay w of
        (Err k, w) \<Rightarrow> Some (Err k, client, fid, dns, w)
      | (Ok _, w) \<Rightarrow>
      (case de_poll_new de w of
        (Err k, w) \<Rightarrow> Some (Err k, client, fid, dns, w)
      | (Ok _, w) \<Rightarrow>
      (case mio_register (de_tls de) control UDP_CONTROL_TOKEN (True, False) w of
        (Err k, w) \<Rightarrow> Some (Err k, client, fid, dns, w)
      | (Ok _, w) \<Rightarrow>
      (case mio_register (de_tls de) relay UDP_CLIENT_TOKEN (True, False) w of
        (Err k, w) \<Rightarrow> Some (Err k, client, fid, dns, w)
      | (Ok _, w) \<Rightarrow>
          assoc_loop_from
            \<lparr>ac_env = de, ac_runtime = rt, ac_outbounds = reg, ac_control = control, ac_relay = relay,
             ac_control_ip = sock_ip control_peer\<rparr>
            hint client fid (dns, w)))))))))))"

text \<open>The entry point of the inbound: negotiation, one request, and its handler.\<close>

definition socks_handle ::
  "('w, trojan_provider) services \<Rightarrow> ('c, 'w) datagram_env \<Rightarrow> nat \<Rightarrow> stream \<Rightarrow> 'w shared \<Rightarrow> 'w
    \<Rightarrow> ((unit, error_kind) result \<times> outcome \<times> stream \<times> 'w shared \<times> 'w) option" where
  "socks_handle sv de control client sh w =
     (case client_timeouts sv (Some HANDSHAKE_TIMEOUT) w of
        (Err k, w) \<Rightarrow> Some (Err k, Refused, client, sh, w)
      | (Ok _, w) \<Rightarrow>
     (case negotiate_method client of
        (Err k, client) \<Rightarrow> Some (Err k, Refused, client, sh, w)
      | (Ok _, client) \<Rightarrow>
          (case read_request client of
             (Err k, client) \<Rightarrow> Some (Err k, Refused, client, sh, w)
           | (Ok (Connect t), client) \<Rightarrow> Some (handle_connect sv t client sh w)
           | (Ok (UdpAssociate hint), client) \<Rightarrow>
               map_option (\<lambda>(r, client, fid, dns, w). (r, Refused, client, \<lparr>sh_dns = dns, sh_next_flow_id = fid\<rparr>, w))
                 (handle_udp_associate de (sv_runtime sv) (sv_outbounds sv) control hint client
                   (sh_next_flow_id sh) (sh_dns sh, w)))))"

section \<open>The inbound contract\<close>

definition socks_requested :: "stream \<Rightarrow> 'w \<Rightarrow> target option" where
  "socks_requested client w =
     (case bindIO negotiate_method (\<lambda>_. read_request) client of (Ok (Connect t), _) \<Rightarrow> Some t | _ \<Rightarrow> None)"

interpretation socks_in: tcp_inbound sv "socks_handle sv de control" socks_requested for sv de control
proof unfold_locales
  fix client sh w r e s client' sh' w'
  assume "socks_handle sv de control client sh w = Some (r, Opened e s, client', sh', w')"
  then obtain t client1 client2 w1 where h: "handle_connect sv t client2 sh w1 = (r, Opened e s, client', sh', w')"
    "negotiate_method client = (Ok (), client1)" "read_request client1 = (Ok (Connect t), client2)"
    by (auto simp: socks_handle_def split: prod.splits result.splits socks_request.splits)
  then have "socks_requested client w = Some t" by (simp add: socks_requested_def bindIO_def)
  with socks_session_planned [OF h(1)]
  show "\<exists>t. socks_requested client w = Some t \<and> session_planned sv t e" by blast
qed

section \<open>CONNECT on the wire\<close>

text \<open>A client that sends a well-formed CONNECT request gets to the handler with the rest unread.\<close>

lemma socks_handle_connect:
  assumes "nameable (t_host t)" "t_port t \<noteq> 0" "24 \<le> out_budget client"
    and "pending client = request_of Socks5Protocol t @ rest"
    and "client_timeouts sv (Some HANDSHAKE_TIMEOUT) w = (Ok (), w0)"
  shows "\<exists>c. socks_handle sv de control client sh w = Some (handle_connect sv t c sh w0) \<and>
    pending c = rest \<and> out_bytes c = out_bytes client @ [5, 0] \<and> 22 \<le> out_budget c"
proof -
  have p: "pending client = [0x05, 0x01, 0x00] @ [0x05, 0x01, 0x00] @ wire_host (t_host t) @
      u16_to_be (t_port t) @ rest"
    using assms(4) by simp
  obtain s1 where 1: "negotiate_method client = (Ok (), s1)"
    "pending s1 = [0x05, 0x01, 0x00] @ wire_host (t_host t) @ u16_to_be (t_port t) @ rest"
    "out_bytes s1 = out_bytes client @ [0x05, 0x00]" "out_budget s1 = out_budget client - 2"
    using negotiate_no_auth [OF p] assms(3) by auto
  obtain s2 where "read_request s1 = (Ok (Connect t), s2)" "pending s2 = rest" "out_bytes s2 = out_bytes s1"
    "out_budget s2 = out_budget s1"
    using read_request_connect [OF assms(1,2) 1(2)] by auto
  with 1 assms(3,5) show ?thesis by (auto simp: socks_handle_def)
qed

text \<open>
  Property C25: a SOCKS5 CONNECT obeys policy, from the bytes of the request to the bytes of the reply.
  A client that asks for a target gets the method selection and then one reply. If the policy rejects
  the target, the code is 2, and neither DNS nor the network was touched. If connecting to the planned
  endpoint fails, the error is returned and its code is the one RFC 1928 has for it: 5 refused, 4
  unreachable for timeouts and unknown hosts, 2 not allowed, 7 unsupported, else 1, and never success.
  Code 0 and the local address are sent exactly when the session was opened on the planned endpoint,
  and its relay starts with the timeouts cleared and the bytes after the request unread.
\<close>

theorem socks_connect_obeys_policy:
  assumes "nameable (t_host t)" "t_port t \<noteq> 0" "24 \<le> out_budget client"
    and "pending client = request_of Socks5Protocol t @ rest"
    and "client_timeouts sv (Some HANDSHAKE_TIMEOUT) w = (Ok (), w0)"
    and "socks_handle sv de control client sh w = Some (r, out, client', sh', w')"
  shows "\<exists>reply bound. out_bytes client' = out_bytes client @ [5, 0] @ [5, reply, 0] @ bound \<and>
    pending client' = rest \<and>
    (case fst (plan_action (sv_runtime sv) t Tcp (sh_next_flow_id sh)) of
       EReject _ \<Rightarrow> reply = 2 \<and> bound = [1, 0, 0, 0, 0, 0, 0] \<and> out = Refused \<and> r = Ok () \<and>
         w' = w0 \<and> sh_dns sh' = sh_dns sh
     | ERoute e \<Rightarrow>
         (case connect_tcp (sv_os sv) (sv_connect sv) (sv_outbounds sv) e t (sh_dns sh) w0 of
            (Err k, dns, w1) \<Rightarrow>
              reply = (if k = ConnectionRefused then 5
                      else if k \<in> {TimedOut, NotFound, AddrNotAvailable} then 4
                      else if k = PermissionDenied then 2
                      else if k = UnsupportedKind then 7 else 1) \<and>
              bound = [1, 0, 0, 0, 0, 0, 0] \<and> out = Refused \<and> r = Err k \<and> w' = w1 \<and> sh_dns sh' = dns
          | (Ok s, dns, w1) \<Rightarrow>
              reply = 0 \<and> bound = bound_field (sv_local_addr sv s) \<and> out = Opened e s \<and> sh_dns sh' = dns \<and>
              (case set_options (\<lambda>_. sv_option sv) [((), SetReadTimeout None), ((), SetWriteTimeout None)] w1 of
                 (Err k, w2) \<Rightarrow> r = Err k \<and> w' = w2
               | (Ok _, w2) \<Rightarrow> (r, w') = sv_relay sv s client' w2)))"
proof -
  obtain c where c: "handle_connect sv t c sh w0 = (r, out, client', sh', w')" "pending c = rest"
    "out_bytes c = out_bytes client @ [5, 0]" "22 \<le> out_budget c"
    using socks_handle_connect [OF assms(1-5), of de control sh] assms(6) by auto
  obtain action fid where a: "plan_action (sv_runtime sv) t Tcp (sh_next_flow_id sh) = (action, fid)"
    by fastforce
  show ?thesis
  proof (cases action)
    case (EReject reason)
    obtain c' where "write_reply 2 None c = (Ok (), c')" "pending c' = rest"
      "out_bytes c' = out_bytes client @ [5, 0] @ [5, 2, 0] @ bound_field None"
      using write_reply_enough [OF c(4), of 2 None] c(2,3) by auto
    with c(1) a EReject show ?thesis by (auto simp: handle_connect_def)
  next
    case (ERoute e)
    obtain q dns w1 where q: "connect_tcp (sv_os sv) (sv_connect sv) (sv_outbounds sv) e t (sh_dns sh) w0 = (q, dns, w1)"
      by (cases "connect_tcp (sv_os sv) (sv_connect sv) (sv_outbounds sv) e t (sh_dns sh) w0") auto
    show ?thesis
    proof (cases q)
      case (Err k)
      obtain c' where "write_reply (connect_error_code k) None c = (Ok (), c')" "pending c' = rest"
        "out_bytes c' = out_bytes client @ [5, 0] @ [5, connect_error_code k, 0] @ bound_field None"
        using write_reply_enough [OF c(4), of "connect_error_code k" None] c(2,3) by auto
      with c(1) a ERoute q Err show ?thesis
        by (auto simp: handle_connect_def connect_error_code_table)
    next
      case (Ok s)
      obtain c' where "write_reply 0 (sv_local_addr sv s) c = (Ok (), c')" "pending c' = rest"
        "out_bytes c' = out_bytes client @ [5, 0] @ [5, 0, 0] @ bound_field (sv_local_addr sv s)"
        using write_reply_enough [OF c(4), of 0 "sv_local_addr sv s"] c(2,3) by auto
      with c(1) a ERoute q Ok show ?thesis
        by (auto simp: handle_connect_def client_timeouts_def split: prod.splits result.splits)
    qed
  qed
qed

section \<open>What a turn keeps\<close>

definition assoc_inv :: "('c, 'w) assoc_ctx \<Rightarrow> 'c udp_assoc \<Rightarrow> bool" where
  "assoc_inv ac st \<longleftrightarrow>
     route_inv (daemon_ops (ac_env ac)) UDP_OUTBOUND_FIRST_TOKEN (ua_routes st) (ua_tokens st) \<and>
     kinds_inv (ua_routes st) \<and>
     length (ua_pending st) \<le> MAX_PENDING_CLIENT_REPLIES \<and>
     (\<forall>(packet, c) \<in> set (ua_pending st). ua_client st = Some c) \<and>
     (\<forall>c. ua_client st = Some c \<longrightarrow> sock_ip c = ac_control_ip ac)"

text \<open>A turn never exchanges the client once it is known.\<close>

definition same_client :: "'c udp_assoc \<Rightarrow> 'c udp_assoc \<Rightarrow> bool" where
  "same_client st st' \<longleftrightarrow> (\<forall>c. ua_client st = Some c \<longrightarrow> ua_client st' = Some c)"

definition keeps :: "('c, 'w) assoc_ctx \<Rightarrow> 'c udp_assoc \<Rightarrow> 'c udp_assoc \<Rightarrow> bool" where
  "keeps ac st st' \<longleftrightarrow> assoc_inv ac st \<longrightarrow> assoc_inv ac st' \<and> same_client st st'"

lemma keeps_refl [simp]: "keeps ac st st"
  by (simp add: keeps_def same_client_def)

lemma keeps_trans: "keeps ac a b \<Longrightarrow> keeps ac b c \<Longrightarrow> keeps ac a c"
  by (simp add: keeps_def same_client_def)

lemma keeps_times [simp]:
  "keeps ac st (st'\<lparr>ua_last_activity := i\<rparr>) = keeps ac st st'"
  "keeps ac st (st'\<lparr>ua_writable := b\<rparr>) = keeps ac st st'"
  "keeps ac st (st'\<lparr>ua_next_flow_id := f\<rparr>) = keeps ac st st'"
  by (auto simp: keeps_def assoc_inv_def same_client_def)

lemma keeps_routes:
  assumes "route_inv (daemon_ops (ac_env ac)) UDP_OUTBOUND_FIRST_TOKEN (ua_routes st) (ua_tokens st) \<Longrightarrow>
      route_inv (daemon_ops (ac_env ac)) UDP_OUTBOUND_FIRST_TOKEN (ua_routes st') (ua_tokens st')"
    and "kinds_inv (ua_routes st) \<Longrightarrow> kinds_inv (ua_routes st')"
    and "ua_client st' = ua_client st" "ua_pending st' = ua_pending st"
  shows "keeps ac st st'"
  using assms by (auto simp: keeps_def assoc_inv_def same_client_def)

lemma keeps_receive:
  assumes "receive_ready (daemon_ops (ac_env ac)) tok len (ua_routes st) dw = Some (q, rs, dw')"
  shows "keeps ac st (st\<lparr>ua_routes := rs\<rparr>)"
  by (rule keeps_routes) (use paths.route_inv_receive [OF _ assms] kinds_receive [OF assms] in simp_all)

lemma keeps_packet:
  assumes "handle_udp_client_packet ac packet st dw = Some (handled, st', dw')"
  shows "keeps ac st st' \<and> ua_client st' = ua_client st"
proof (cases "parse_udp_request packet")
  case (Ok p)
  obtain t payload where p: "p = (t, payload)" by (cases p)
  obtain eo fid where e: "udp_endpoint (ac_runtime ac) (ac_outbounds ac) t (ua_next_flow_id st) = (eo, fid)"
    by (cases "udp_endpoint (ac_runtime ac) (ac_outbounds ac) t (ua_next_flow_id st)")
  show ?thesis
  proof (cases eo)
    case None
    with assms Ok p e have "st' = st\<lparr>ua_next_flow_id := fid\<rparr>" by (simp add: handle_udp_client_packet_def)
    then show ?thesis by simp
  next
    case (Some en)
    then obtain r rs ta where s: "send_with (daemon_ops (ac_env ac)) (daemon_open (ac_env ac) (ac_outbounds ac))
        en t payload (ua_routes st) (ua_tokens st) dw = Some (r, rs, ta, dw')"
      "st' = st\<lparr>ua_next_flow_id := fid, ua_routes := rs, ua_tokens := ta\<rparr>"
      using assms Ok p e by (auto simp: handle_udp_client_packet_def)
    have "keeps ac st st'"
      by (rule keeps_routes) (use paths.route_inv_send [OF _ s(1)] kinds_send [OF s(1)] s(2) in simp_all)
    with s(2) show ?thesis by simp
  qed
qed (use assms in \<open>simp add: handle_udp_client_packet_def\<close>)

lemma keeps_known_client:
  assumes "is_client_packet source (ac_control_ip ac) (ua_client st)" "keeps ac st0 st"
  shows "keeps ac st0 (st\<lparr>ua_client := (case ua_client st of None \<Rightarrow> Some source | Some c \<Rightarrow> Some c)\<rparr>)"
proof (cases "ua_client st")
  case None
  have "keeps ac st (st\<lparr>ua_client := Some source\<rparr>)"
    using assms(1) None
    by (auto simp: keeps_def assoc_inv_def same_client_def is_client_packet_def)
  with keeps_trans [OF assms(2)] None show ?thesis by simp
next
  case (Some c)
  then have "st\<lparr>ua_client := (case ua_client st of None \<Rightarrow> Some source | Some c \<Rightarrow> Some c)\<rparr> = st"
    by (cases st) simp
  with assms(2) show ?thesis by (simp only:)
qed

lemma keeps_client_burst:
  assumes "client_burst n ac st dw = Some (r, st', dw')"
  shows "keeps ac st st'"
  using assms
proof (induction n arbitrary: st dw)
  case (Suc n)
  obtain q w where q: "uo_recv_from (de_udp (ac_env ac)) (ac_relay ac) MAX_UDP_PACKET (snd dw) = (q, w)"
    by (cases "uo_recv_from (de_udp (ac_env ac)) (ac_relay ac) MAX_UDP_PACKET (snd dw)")
  show ?case
  proof (cases q)
    case (Err k)
    with Suc.prems q Suc.IH [of st "(fst dw, w)"] show ?thesis by (simp split: if_splits)
  next
    case (Ok p)
    obtain packet source where p: "p = (packet, source)" by (cases p)
    show ?thesis
    proof (cases "is_client_packet source (ac_control_ip ac) (ua_client st)")
      case False
      with Suc.prems q Ok p Suc.IH [of st "(fst dw, w)"] show ?thesis by simp
    next
      case True
      then have "client_burst (Suc n) ac st dw = (case handle_udp_client_packet ac packet st (fst dw, w) of
          None \<Rightarrow> None
        | Some (handled, st1, dw1) \<Rightarrow> client_burst n ac (packet_handled ac handled source st1 dw1) dw1)"
        by (simp add: q Ok p)
      with Suc.prems obtain handled st1 dw1 where h:
        "handle_udp_client_packet ac packet st (fst dw, w) = Some (handled, st1, dw1)"
        "client_burst n ac (packet_handled ac handled source st1 dw1) dw1 = Some (r, st', dw')"
        by (auto split: option.splits)
      have "keeps ac st (packet_handled ac handled source st1 dw1)"
        using keeps_packet [OF h(1)] keeps_known_client [of source ac st1 st] True
        by (simp add: packet_handled_def)
      moreover note Suc.IH [OF h(2)]
      ultimately show ?thesis by (rule keeps_trans)
    qed
  qed
qed simp

lemma keeps_pending:
  assumes "length q \<le> MAX_PENDING_CLIENT_REPLIES \<or> length q \<le> length (ua_pending st)"
    and "\<And>p c. (p, c) \<in> set q \<Longrightarrow> (p, c) \<in> set (ua_pending st) \<or> ua_client st = Some c"
  shows "keeps ac st (st\<lparr>ua_pending := q\<rparr>)"
  using assms by (fastforce simp: keeps_def assoc_inv_def same_client_def)

lemma send_or_queue_cases:
  assumes "send_or_queue_client_reply ac packet client q w = (ok, q', w')"
  shows "q' = q \<or> q' = q @ [(packet, client)] \<and> length q' \<le> MAX_PENDING_CLIENT_REPLIES"
  using assms by (auto simp: send_or_queue_client_reply_def split: prod.splits result.splits if_splits)

lemma keeps_reply:
  assumes "reply_to_client ac response client st dw = (st', dw')" "ua_client st = Some client"
  shows "keeps ac st st' \<and> ua_client st' = ua_client st"
proof -
  obtain ok q w where s: "send_or_queue_client_reply ac response client (ua_pending st) (snd dw) = (ok, q, w)"
    by (metis prod_cases3)
  have "keeps ac st (st\<lparr>ua_pending := q\<rparr>)"
    using send_or_queue_cases [OF s] assms(2) by (intro keeps_pending) auto
  then show ?thesis
    using assms(1) s by (auto simp: reply_to_client_def Let_def split: if_splits)
qed

lemma keeps_outbound_burst:
  assumes "outbound_burst n ac tok st dw = Some (r, st', dw')"
  shows "keeps ac st st'"
  using assms
proof (induction n arbitrary: st dw)
  case (Suc n)
  obtain q rs dw1 where q: "receive_ready (daemon_ops (ac_env ac)) tok MAX_UDP_PACKET (ua_routes st) dw = Some (q, rs, dw1)"
    using Suc.prems by (auto split: option.splits)
  let ?st1 = "st\<lparr>ua_routes := rs\<rparr>"
  have k1: "keeps ac st ?st1" by (rule keeps_receive [OF q])
  have "keeps ac ?st1 st'"
  proof (cases "\<exists>rd c response. q = Ok (Some rd) \<and> ua_client st = Some c \<and>
      encode_udp_response (rd_source rd) (rd_payload rd) = Ok response")
    case True
    then obtain rd c response where rd: "q = Ok (Some rd)" "ua_client st = Some c"
      "encode_udp_response (rd_source rd) (rd_payload rd) = Ok response" by blast
    obtain st2 dw2 where re: "reply_to_client ac response c ?st1 dw1 = (st2, dw2)"
      by (cases "reply_to_client ac response c ?st1 dw1") auto
    have "outbound_burst n ac tok st2 dw2 = Some (r, st', dw')"
      using Suc.prems q rd re by simp
    from Suc.IH [OF this] keeps_reply [OF re] rd(2) show ?thesis
      using keeps_trans by (metis udp_assoc.select_convs(3) udp_assoc.update_convs(1) udp_assoc.surjective)
  next
    case False
    with Suc.prems q show ?thesis
      by (auto simp: Let_def split: result.splits option.splits dest: Suc.IH)
  qed
  with k1 show ?case by (rule keeps_trans)
qed simp

lemma keeps_outbound_bursts:
  assumes "outbound_bursts ac toks st dw = Some (r, st', dw')"
  shows "keeps ac st st'"
  using assms
proof (induction ac toks st dw rule: outbound_bursts.induct)
  case (2 ac tok toks st dw)
  then obtain r1 st1 dw1 where 1: "outbound_burst MAX_UDP_EVENT_BURST ac tok st dw = Some (r1, st1, dw1)"
    by (auto simp: thenO_def split: option.splits)
  note k = keeps_outbound_burst [OF 1]
  show ?case
  proof (cases r1)
    case (Ok u)
    with 2(2) 1 have "outbound_bursts ac toks st1 dw1 = Some (r, st', dw')" by (simp add: thenO_def)
    from keeps_trans [OF k 2(1) [OF this]] show ?thesis .
  next
    case (Err e)
    with 2(2) 1 k show ?thesis by (simp add: thenO_def)
  qed
qed simp

text \<open>Flushing removes replies from the front of the queue only.\<close>

lemma flush_suffix:
  assumes "flush_pending_client_replies ac sent_any q w = Some res"
  shows "\<exists>taken. q = taken @ fst (snd res)"
proof (rule flush_pending_client_replies.raw_induct
    [where P = "\<lambda>_ _ q _ res. \<exists>taken. q = taken @ fst (snd res)", OF _ assms], goal_cases)
  case (1 loop ac sent q w res)
  note IH = 1(1)
  show ?case
  proof (cases q)
    case Nil
    with 1(2) show ?thesis by auto
  next
    case (Cons p rest)
    obtain packet client where p: "p = (packet, client)" by (cases p)
    obtain s w2 where s: "uo_send_to (de_udp (ac_env ac)) (ac_relay ac) packet client w = (s, w2)"
      by (cases "uo_send_to (de_udp (ac_env ac)) (ac_relay ac) packet client w")
    have "(\<exists>b. loop ac b rest w2 = Some res) \<or> (\<exists>b. loop ac b q w2 = Some res) \<or> fst (snd res) = q"
      using 1(2) Cons p s by (cases s) (auto split: if_splits)
    then show ?thesis
    proof (elim disjE exE)
      fix b assume "loop ac b rest w2 = Some res"
      from IH [OF this] show ?thesis using Cons by (metis append_Cons)
    next
      fix b assume "loop ac b q w2 = Some res"
      from IH [OF this] show ?thesis .
    qed simp
  qed
qed

lemma keeps_flush:
  assumes "flush_replies ac client_writable st dw = Some (r, st', dw')"
  shows "keeps ac st st'"
proof (cases client_writable)
  case True
  then obtain sent q w where f: "flush_pending_client_replies ac False (ua_pending st) (snd dw) = Some (sent, q, w)"
    and st': "st' = (if sent then st\<lparr>ua_pending := q, ua_last_activity := ac_now ac w\<rparr> else st\<lparr>ua_pending := q\<rparr>)"
    using assms by (auto simp: flush_replies_def)
  obtain taken where "ua_pending st = taken @ q" using flush_suffix [OF f] by auto
  then have "keeps ac st (st\<lparr>ua_pending := q\<rparr>)" by (intro keeps_pending) auto
  with st' show ?thesis by simp
qed (use assms in \<open>simp add: flush_replies_def\<close>)

lemma keeps_update_interest:
  assumes "update_interest ac st dw = (r, st', dw')"
  shows "keeps ac st st' \<and> (r = Ok () \<longrightarrow> ua_writable st' = (ua_pending st' \<noteq> []))"
  using assms by (auto simp: update_interest_def Let_def split: if_splits prod.splits result.splits)

lemma thenO_Some:
  "thenO m f = Some (r, x', w') \<longleftrightarrow>
     (\<exists>k. m = Some (Err k, x', w') \<and> r = Err k) \<or> (\<exists>x w. m = Some (Ok (), x, w) \<and> f x w = Some (r, x', w'))"
  by (auto simp: thenO_def split: option.splits result.splits)

lemma keeps_thenO:
  assumes "thenO m f = Some (r, st', dw')"
    and "\<And>q x y. m = Some (q, x, y) \<Longrightarrow> keeps ac st x"
    and "\<And>x y. f x y = Some (r, st', dw') \<Longrightarrow> keeps ac x st' \<and> (r = Ok () \<longrightarrow> P st')"
  shows "keeps ac st st' \<and> (r = Ok () \<longrightarrow> P st')"
  using assms(1) unfolding thenO_Some
proof (elim disjE exE conjE)
  fix x w
  assume "m = Some (Ok (), x, w)" "f x w = Some (r, st', dw')"
  with assms(2,3) keeps_trans show ?thesis by metis
qed (use assms(2) in auto)

lemma keeps_serve_events:
  assumes "serve_events ac evs st dw = Some (r, st', dw')"
  shows "keeps ac st st' \<and> (r = Ok () \<longrightarrow> ua_writable st' = (ua_pending st' \<noteq> []))"
  using assms unfolding serve_events_def Let_def
proof (rule keeps_thenO, goal_cases)
  case (1 q x y)
  then show ?case by (auto split: if_splits elim!: keeps_client_burst)
next
  case (2 st1 dw1)
  then show ?case
  proof (rule keeps_thenO, goal_cases)
    case (1 q x y)
    then show ?case by (rule keeps_outbound_bursts)
  next
    case (2 st2 dw2)
    then show ?case
    proof (rule keeps_thenO, goal_cases)
      case (1 q x y)
      then show ?case by (rule keeps_flush)
    next
      case (2 st3 dw3)
      then show ?case by (intro keeps_update_interest) simp
    qed
  qed
qed

lemma turn_cases:
  assumes "assoc_turn ac st dw = Some (ex, st', dw')"
  shows "st' = st \<or> (\<exists>evs w r. serve_events ac evs st (fst dw, w) = Some (r, st', dw') \<and> (ex = GoOn \<longrightarrow> r = Ok ()))"
proof -
  have "st' = st \<or> (\<exists>evs w. map_option (\<lambda>(r, st, dw). (case r of Ok _ \<Rightarrow> GoOn | Err k \<Rightarrow> Return (Err k), st, dw))
      (serve_events ac evs st (fst dw, w)) = Some (ex, st', dw'))"
    using assms unfolding assoc_turn_def Let_def
    by (simp split: if_splits prod.splits result.splits bool.splits) (metis | blast)
  then show ?thesis
  proof (elim disjE exE)
    fix evs w
    assume "map_option (\<lambda>(r, st, dw). (case r of Ok _ \<Rightarrow> GoOn | Err k \<Rightarrow> Return (Err k), st, dw))
      (serve_events ac evs st (fst dw, w)) = Some (ex, st', dw')"
    then obtain r where "serve_events ac evs st (fst dw, w) = Some (r, st', dw')"
      "ex = (case r of Ok _ \<Rightarrow> GoOn | Err k \<Rightarrow> Return (Err k))" by auto
    then show ?thesis by (cases r) auto
  qed simp
qed

lemma keeps_turn:
  assumes "assoc_turn ac st dw = Some (ex, st', dw')"
  shows "keeps ac st st' \<and> (ua_writable st = (ua_pending st \<noteq> []) \<and> ex = GoOn \<longrightarrow> ua_writable st' = (ua_pending st' \<noteq> []))"
  using turn_cases [OF assms]
proof (elim disjE exE conjE)
  fix evs w r
  assume "serve_events ac evs st (fst dw, w) = Some (r, st', dw')" "ex = GoOn \<longrightarrow> r = Ok ()"
  with keeps_serve_events show ?thesis by metis
qed simp

section \<open>Properties\<close>

text \<open>
  The states an association's loop goes through. Flow ids come from a counter that other
  connections advance too, so a turn may find any value there.
\<close>

inductive assoc_run :: "('c, 'w) assoc_ctx \<Rightarrow> udp_client_hint \<Rightarrow> 'c udp_assoc \<Rightarrow> bool"
  for ac :: "('c, 'w) assoc_ctx" and hint :: udp_client_hint where
  start: "assoc_run ac hint (assoc_start (ac_control_ip ac) hint fid now)"
| turn: "assoc_run ac hint st \<Longrightarrow> assoc_turn ac (st\<lparr>ua_next_flow_id := fid\<rparr>) dw = Some (GoOn, st', dw') \<Longrightarrow>
    assoc_run ac hint st'"

lemma assoc_run_inv:
  assumes "assoc_run ac hint st"
  shows "assoc_inv ac st \<and> ua_writable st = (ua_pending st \<noteq> [])"
  using assms
proof induction
  case (start fid now)
  then show ?case
    by (auto simp: assoc_inv_def assoc_start_def route_inv_def route_set_new_def allocator_new_def
        owned_tokens_def kinds_inv_def)
next
  case (turn st fid dw st' dw')
  have "assoc_inv ac (st\<lparr>ua_next_flow_id := fid\<rparr>)"
    using turn.IH by (simp add: assoc_inv_def)
  with keeps_turn [OF turn.hyps(2)] turn.IH show ?case by (simp add: keeps_def)
qed

text \<open>
  Property C35: a UDP association stays bounded and bound to its client. In every turn of every
  association there are at most 32 routes with readiness tokens of their own above those of the
  control connection and the client, and at most 64 queued replies; replies are queued only for
  the one client address, which lies on the host of the control connection; the relay socket waits
  to become writable exactly while replies are queued; and a route of a proxy endpoint is never
  served by the DIRECT association.
\<close>

theorem socks_udp_association_bounded:
  assumes "assoc_run ac hint st"
  shows "length (routes (ua_routes st)) \<le> 32 \<and> distinct (owned_tokens (ua_routes st)) \<and>
    (\<forall>tok \<in> set (owned_tokens (ua_routes st)). tok \<noteq> UDP_CONTROL_TOKEN \<and> tok \<noteq> UDP_CLIENT_TOKEN) \<and>
    length (ua_pending st) \<le> 64 \<and> (ua_writable st \<longleftrightarrow> ua_pending st \<noteq> []) \<and>
    (\<forall>(packet, c) \<in> set (ua_pending st). ua_client st = Some c) \<and>
    (\<forall>c. ua_client st = Some c \<longrightarrow> sock_ip c = ac_control_ip ac) \<and>
    (\<forall>(e, route) \<in> set (routes (ua_routes st)).
      case e of Direct \<Rightarrow> \<exists>d. dr_execution route = DirectExec d | Proxy _ \<Rightarrow> \<exists>y. dr_execution route = TrojanExec y)"
proof -
  have inv: "assoc_inv ac st" "ua_writable st = (ua_pending st \<noteq> [])"
    using assoc_run_inv [OF assms] by simp_all
  then have r: "route_inv (daemon_ops (ac_env ac)) 2 (ua_routes st) (ua_tokens st)"
    by (simp add: assoc_inv_def UDP_OUTBOUND_FIRST_TOKEN_def)
  have "tok \<noteq> UDP_CONTROL_TOKEN \<and> tok \<noteq> UDP_CLIENT_TOKEN" if "tok \<in> set (owned_tokens (ua_routes st))" for tok
  proof -
    have "2 \<le> tok" using r that unfolding route_inv_def by blast
    then show ?thesis by (simp add: UDP_CONTROL_TOKEN_def UDP_CLIENT_TOKEN_def)
  qed
  moreover have "length (routes (ua_routes st)) \<le> 32" "distinct (owned_tokens (ua_routes st))"
    using r by (simp_all add: route_inv_def MAX_DATAGRAM_ROUTES_def)
  moreover have "length (ua_pending st) \<le> 64" "\<forall>(packet, c) \<in> set (ua_pending st). ua_client st = Some c"
    "\<forall>c. ua_client st = Some c \<longrightarrow> sock_ip c = ac_control_ip ac"
    using inv(1) by (simp_all add: assoc_inv_def MAX_PENDING_CLIENT_REPLIES_def)
  moreover have "\<forall>(e, route) \<in> set (routes (ua_routes st)). own_kind e (dr_execution route)"
    using inv(1) by (simp add: assoc_inv_def kinds_inv_def)
  ultimately show ?thesis using inv(2) unfolding own_kind_def by blast
qed

text \<open>
  The policy decides every datagram of the client. A packet that does not parse or
  whose target the policy rejects changes no route, token or socket; otherwise only the route of
  the planned endpoint is opened or used, and a packet counts as handled only if that endpoint
  supports datagrams and has a route.
\<close>

theorem socks_udp_obeys_policy:
  assumes "handle_udp_client_packet ac packet st dw = Some (handled, st', dw')"
  shows "case parse_udp_request packet of
      Err _ \<Rightarrow> \<not> handled \<and> st' = st \<and> dw' = dw
    | Ok (t, payload) \<Rightarrow>
        (case fst (plan_action (ac_runtime ac) t Udp (ua_next_flow_id st)) of
           EReject _ \<Rightarrow> \<not> handled \<and> ua_routes st' = ua_routes st \<and> ua_tokens st' = ua_tokens st \<and> dw' = dw
         | ERoute e \<Rightarrow>
             (\<forall>e'. e' \<noteq> e \<longrightarrow> hm_get (routes (ua_routes st')) e' = hm_get (routes (ua_routes st)) e') \<and>
             (handled \<longrightarrow> hm_contains (routes (ua_routes st')) e \<and>
                (\<exists>c. endpoint_caps (ac_outbounds ac) e = Some c \<and> cap_udp c)))"
proof (cases "parse_udp_request packet")
  case (Ok p)
  obtain t payload where p: "p = (t, payload)" by (cases p)
  obtain eo fid where e: "udp_endpoint (ac_runtime ac) (ac_outbounds ac) t (ua_next_flow_id st) = (eo, fid)"
    by (cases "udp_endpoint (ac_runtime ac) (ac_outbounds ac) t (ua_next_flow_id st)")
  show ?thesis
  proof (cases eo)
    case None
    with assms Ok p e show ?thesis
      by (auto simp: handle_udp_client_packet_def split: execution_action.splits)
  next
    case (Some en)
    then obtain r rs ta where s: "send_with (daemon_ops (ac_env ac)) (daemon_open (ac_env ac) (ac_outbounds ac))
        en t payload (ua_routes st) (ua_tokens st) dw = Some (r, rs, ta, dw')"
      "ua_routes st' = rs" "handled = is_ok r"
      using assms Ok p e by (auto simp: handle_udp_client_packet_def)
    have "fst (plan_action (ac_runtime ac) t Udp (ua_next_flow_id st)) = ERoute en \<and>
        (\<exists>c. endpoint_caps (ac_outbounds ac) en = Some c \<and> cap_udp c)"
      using udp_endpoint_Some e Some by metis
    with send_with_routes [OF s(1)] s(2,3) Ok p show ?thesis by simp
  qed
qed (use assms in \<open>simp add: handle_udp_client_packet_def\<close>)

text \<open>
  The control connection hangs up: reading it comes, within so many reads that bring bytes or are
  interrupted, to the end of the stream or to an error of a lost connection.
\<close>

inductive hangs_up :: "('c, 'w) assoc_ctx \<Rightarrow> nat \<Rightarrow> 'w \<Rightarrow> 'w \<Rightarrow> bool" for ac :: "('c, 'w) assoc_ctx" where
  end_of_stream: "sock_read (de_tls (ac_env ac)) (ac_control ac) 256 w = (Ok [], w') \<Longrightarrow> hangs_up ac (Suc n) w w'"
| lost: "sock_read (de_tls (ac_env ac)) (ac_control ac) 256 w = (Err k, w') \<Longrightarrow>
    k \<in> {ConnectionReset, BrokenPipe, NotConnected} \<Longrightarrow> hangs_up ac (Suc n) w w'"
| more: "sock_read (de_tls (ac_env ac)) (ac_control ac) 256 w = (Ok bs, w1) \<Longrightarrow> bs \<noteq> [] \<Longrightarrow>
    hangs_up ac n w1 w' \<Longrightarrow> hangs_up ac (Suc n) w w'"
| again: "sock_read (de_tls (ac_env ac)) (ac_control ac) 256 w = (Err Interrupted, w1) \<Longrightarrow>
    hangs_up ac n w1 w' \<Longrightarrow> hangs_up ac (Suc n) w w'"

lemma hangs_up_iff: "hangs_up ac n w w' \<longleftrightarrow> control_reads n ac w = (Ok True, w')"
proof
  show "hangs_up ac n w w' \<Longrightarrow> control_reads n ac w = (Ok True, w')"
    by (induction rule: hangs_up.induct) auto
  show "control_reads n ac w = (Ok True, w') \<Longrightarrow> hangs_up ac n w w'"
    by (induction n arbitrary: w) (auto split: prod.splits result.splits if_splits intro: hangs_up.intros)
qed

text \<open>A control event that ends the association, and one that says nothing about reading.\<close>

definition ending_event :: "('c, 'w) assoc_ctx \<Rightarrow> mio_event \<Rightarrow> 'w \<Rightarrow> 'w \<Rightarrow> bool" where
  "ending_event ac ev w w' \<longleftrightarrow>
     (ev_read_closed ev \<or> ev_error ev) \<and> w' = w \<or>
     \<not> ev_read_closed ev \<and> \<not> ev_error ev \<and> ev_readable ev \<and> hangs_up ac 4 w w'"

definition quiet_event :: "mio_event \<Rightarrow> bool" where
  "quiet_event ev \<longleftrightarrow> \<not> ev_read_closed ev \<and> \<not> ev_error ev \<and> \<not> ev_readable ev"

lemma control_closed_ending:
  assumes "filter (\<lambda>ev. ev_token ev = 0) evs = quiet @ ev # rest" "list_all quiet_event quiet" "ending_event ac ev w w'"
  shows "control_closed ac evs w = (Ok True, w')"
  using assms
proof (induction evs arbitrary: quiet)
  case (Cons x evs)
  show ?case
  proof (cases "ev_token x = 0")
    case False
    with Cons show ?thesis by (auto simp: UDP_CONTROL_TOKEN_def)
  next
    case True
    show ?thesis
    proof (cases quiet)
      case Nil
      with Cons.prems True show ?thesis
        by (auto simp: UDP_CONTROL_TOKEN_def control_event_is_closed_def ending_event_def hangs_up_iff)
    next
      case (Cons q qs)
      with Cons.prems True Cons.IH [of qs] show ?thesis
        by (auto simp: UDP_CONTROL_TOKEN_def control_event_is_closed_def quiet_event_def)
    qed
  qed
qed simp

text \<open>
  Property C37: an association ends with its control connection or when idle. If nothing was handled
  for 120 seconds, or the poll, which waits for exactly the rest of them, reports nothing, or a control
  event says that the peer closed or failed, or reading the control connection comes within four reads
  to its end or to a lost connection, the loop returns successfully, and no datagram of that batch is
  handled: the association and the DNS engine are left as they were.
\<close>

theorem socks_udp_association_ends:
  assumes "120000000000 \<le> ac_now ac (snd dw) - ua_last_activity st \<or>
    (\<exists>evs w w'. de_poll (ac_env ac) (Some (120000000000 - (ac_now ac (snd dw) - ua_last_activity st))) (snd dw)
        = (Ok evs, w) \<and>
      (evs = [] \<or> (\<exists>quiet ev rest. filter (\<lambda>ev. ev_token ev = 0) evs = quiet @ ev # rest \<and>
        list_all quiet_event quiet \<and> ending_event ac ev w w')))"
  shows "\<exists>w. assoc_loop ac st dw = Some (Ok (), st, fst dw, w)"
proof -
  let ?t = "UDP_IDLE_TIMEOUT - (ac_now ac (snd dw) - ua_last_activity st)"
  have t: "UDP_IDLE_TIMEOUT = 120000000000" by (simp add: UDP_IDLE_TIMEOUT_def from_secs_def)
  consider (idle) "?t = 0"
    | (none) w where "?t \<noteq> 0" "de_poll (ac_env ac) (Some ?t) (snd dw) = (Ok [], w)"
    | (closed) evs w w' quiet ev rest where "?t \<noteq> 0" "de_poll (ac_env ac) (Some ?t) (snd dw) = (Ok evs, w)"
        "filter (\<lambda>ev. ev_token ev = 0) evs = quiet @ ev # rest" "list_all quiet_event quiet" "ending_event ac ev w w'"
    using assms unfolding t [symmetric] by (cases "?t = 0") auto
  then have "\<exists>w. assoc_turn ac st dw = Some (Return (Ok ()), st, fst dw, w)"
  proof cases
    case idle
    then show ?thesis by (cases dw) (simp add: assoc_turn_def)
  next
    case none
    then show ?thesis by (simp add: assoc_turn_def Let_def)
  next
    case closed
    then have "evs \<noteq> []" "control_closed ac evs w = (Ok True, w')" by (auto intro: control_closed_ending)
    with closed show ?thesis by (simp add: assoc_turn_def Let_def)
  qed
  then show ?thesis by (auto simp: assoc_loop.simps)
qed

section \<open>Witnesses\<close>

text \<open>
  A sample environment: the world holds the packets waiting on the relay socket and on every other
  socket, all from one address; sends on the relay socket block. Each poll reports the relay socket
  and the first outbound token.
\<close>

type_synonym sample_packets = "bytes list \<times> bytes list"

definition sample_idle_tls :: "(unit, 'w) tls_env" where
  "sample_idle_tls =
     \<lparr>tls_write = (\<lambda>bs c. (Ok (length bs), c)), tls_read = (\<lambda>_ c. (Err WouldBlock, c)),
      wants_read = (\<lambda>_. True), wants_write = (\<lambda>_. False), read_tls = (\<lambda>_ c w. (Err WouldBlock, c, w)),
      process_new_packets = (\<lambda>c. (True, c)), write_tls = (\<lambda>_ c w. (Err WouldBlock, c, w)),
      send_close_notify = (\<lambda>c. c), sock_read = (\<lambda>_ _ w. (Err WouldBlock, w)),
      sock_write = (\<lambda>_ bs w. (Ok (length bs), w)), sock_shutdown_write = (\<lambda>_ w. (Ok (), w)),
      mio_register = (\<lambda>_ _ _ w. (Ok (), w)), mio_reregister = (\<lambda>_ _ _ w. (Ok (), w)),
      mio_deregister = (\<lambda>_ w. (Ok (), w)), mio_poll = (\<lambda>w. (Ok [], w))\<rparr>"

definition sample_denv :: "mio_event list \<Rightarrow> (unit, sample_packets) datagram_env" where
  "sample_denv evs =
     \<lparr>de_os = \<lparr>os_now = (\<lambda>_. 0), os_connect = (\<lambda>_ _ w. (Err ConnectionRefused, w)), os_set_nodelay = (\<lambda>_ _. Ok ())\<rparr>,
      de_udp =
        \<lparr>uo_bind = (\<lambda>_ w. (Ok 7, w)), uo_set_nonblocking = (\<lambda>_ w. (Ok (), w)),
         uo_send_to = (\<lambda>fd p _ w. (if fd = 1 then Err WouldBlock else Ok (length p), w)),
         uo_recv_from = (\<lambda>fd _ (r, d). case (if fd = 1 then r else d) of
             [] \<Rightarrow> (Err WouldBlock, r, d)
           | p # ps \<Rightarrow> (Ok (p, SockV4 9 53), if fd = 1 then (ps, d) else (r, ps))),
         uo_register = (\<lambda>_ _ w. (Ok (), w))\<rparr>,
      de_tls = sample_idle_tls,
      de_try_clone = (\<lambda>w. (Ok (), w)),
      de_connect_framed = (\<lambda>_ w. (Err ConnectionRefused, w)),
      de_option = (\<lambda>_ _ w. (Ok (), w)), de_poll_new = (\<lambda>w. (Ok (), w)), de_poll = (\<lambda>_ w. (Ok evs, w)),
      de_peer_addr = (\<lambda>_ _. Ok (SockV4 9 1000)), de_local_addr = (\<lambda>_ _. Ok (SockV4 1 1080))\<rparr>"

definition sample_assoc :: "policy_action \<Rightarrow> (unit, sample_packets) assoc_ctx" where
  "sample_assoc default_action =
     \<lparr>ac_env = sample_denv [sample_event 1, sample_event 2],
      ac_runtime = runtime_new (policy_engine_new [] default_action), ac_outbounds = \<lparr>endpoints = []\<rparr>,
      ac_control = 0, ac_relay = 1, ac_control_ip = V4 9\<rparr>"

definition sample_dns :: "sample_packets dns_engine" where
  "sample_dns = \<lparr>e_hosts = hosts_default, e_cache = cache_defaults, e_resolvers = [], e_stats = stats_default\<rparr>"

definition sample_hint :: udp_client_hint where
  "sample_hint = \<lparr>hint_ip = None, hint_port = None\<rparr>"

definition sample_packet :: bytes where
  "sample_packet = [0, 0, 0, 1, 0, 0, 0, 9, 0, 53, 42]"

theorem socks_udp_association_bounded_witness:
  "\<exists>st. assoc_run (sample_assoc (PRoute Direct)) sample_hint st \<and> length (ua_pending st) = 1 \<and>
    length (routes (ua_routes st)) = 1 \<and> ua_writable st \<and> ua_client st = Some (SockV4 9 53)"
proof -
  let ?ac = "sample_assoc (PRoute Direct)"
  let ?s0 = "assoc_start (V4 9) sample_hint 1 0"
  have "case assoc_turn ?ac (?s0\<lparr>ua_next_flow_id := 1\<rparr>) (sample_dns, [sample_packet], []) of
      Some (ex, st, _) \<Rightarrow> ex = GoOn \<and>
        (case assoc_turn ?ac (st\<lparr>ua_next_flow_id := 1\<rparr>) (sample_dns, [], [[7]]) of
           Some (ex, st, _) \<Rightarrow> ex = GoOn \<and> length (ua_pending st) = 1 \<and> length (routes (ua_routes st)) = 1 \<and>
             ua_client st = Some (SockV4 9 53)
         | _ \<Rightarrow> False)
    | _ \<Rightarrow> False" by code_simp
  then obtain st1 dw1 st2 dw2 where
    "assoc_turn ?ac (?s0\<lparr>ua_next_flow_id := 1\<rparr>) (sample_dns, [sample_packet], []) = Some (GoOn, st1, dw1)"
    "assoc_turn ?ac (st1\<lparr>ua_next_flow_id := 1\<rparr>) (sample_dns, [], [[7]]) = Some (GoOn, st2, dw2)"
    "length (ua_pending st2) = 1" "length (routes (ua_routes st2)) = 1" "ua_client st2 = Some (SockV4 9 53)"
    by (auto split: option.splits)
  moreover have "assoc_run ?ac sample_hint ?s0"
    using assoc_run.start [of ?ac sample_hint 1 0] by (simp add: sample_assoc_def)
  ultimately have run: "assoc_run ?ac sample_hint st2" "length (ua_pending st2) = 1"
    "length (routes (ua_routes st2)) = 1" "ua_client st2 = Some (SockV4 9 53)"
    by (auto intro: assoc_run.turn)
  have "ua_writable st2 = (ua_pending st2 \<noteq> [])" using socks_udp_association_bounded [OF run(1)] by (elim conjE)
  with run show ?thesis by auto
qed

theorem socks_udp_obeys_policy_witness:
  "\<exists>handled st'. handle_udp_client_packet (sample_assoc (PReject RPolicy)) sample_packet
      (assoc_start (V4 9) sample_hint 1 0) (sample_dns, [], []) = Some (handled, st', sample_dns, [], []) \<and>
    \<not> handled \<and> ua_routes st' = route_set_new"
proof -
  let ?ac = "sample_assoc (PReject RPolicy)" and ?t = "\<lparr>t_host = HIp (V4 9), t_port = 53\<rparr>"
  let ?s0 = "assoc_start (V4 9) sample_hint 1 0 :: unit udp_assoc"
  have p: "parse_udp_request sample_packet = Ok (?t, [42])" by code_simp
  have r: "fst (plan_action (ac_runtime ?ac) ?t Udp 1) = EReject RPolicy" by code_simp
  have "fst (the (handle_udp_client_packet ?ac sample_packet ?s0 (sample_dns, [], []))) = False \<and>
      handle_udp_client_packet ?ac sample_packet ?s0 (sample_dns, [], []) \<noteq> None"
    by code_simp
  then obtain st' dw' where h: "handle_udp_client_packet ?ac sample_packet ?s0 (sample_dns, [], []) = Some (False, st', dw')"
    by auto
  have "ua_next_flow_id ?s0 = 1" "ua_routes ?s0 = route_set_new" by (simp_all add: assoc_start_def)
  with socks_udp_obeys_policy [OF h] p r have "ua_routes st' = route_set_new" "dw' = (sample_dns, [], [])" by simp_all
  with h show ?thesis by auto
qed

definition eof_env :: "(unit, sample_packets) datagram_env" where
  "eof_env = (sample_denv [sample_event 0])\<lparr>de_tls := sample_idle_tls\<lparr>sock_read := (\<lambda>_ _ w. (Ok [], w))\<rparr>\<rparr>"

theorem socks_udp_association_ends_witness:
  "\<exists>w. assoc_loop ((sample_assoc (PRoute Direct))\<lparr>ac_env := eof_env\<rparr>)
      (assoc_start (V4 9) sample_hint 1 0) (sample_dns, [sample_packet], [])
    = Some (Ok (), assoc_start (V4 9) sample_hint 1 0, sample_dns, w)"
proof -
  let ?ac = "(sample_assoc (PRoute Direct))\<lparr>ac_env := eof_env\<rparr>"
  have poll: "de_poll (ac_env ?ac) t w = (Ok [sample_event 0], w)" for t w
    by (simp add: eof_env_def sample_denv_def)
  have "hangs_up ?ac (Suc 3) w w" for w by (rule hangs_up.end_of_stream) (simp add: eof_env_def)
  then have "ending_event ?ac (sample_event 0) w w" for w
    by (simp add: ending_event_def sample_event_def eval_nat_numeral)
  moreover have "filter (\<lambda>ev. ev_token ev = 0) [sample_event 0] = [] @ sample_event 0 # []"
    by (simp add: sample_event_def)
  moreover have "list_all quiet_event []" by simp
  ultimately show ?thesis
    using socks_udp_association_ends [of ?ac "(sample_dns, [sample_packet], [])" "assoc_start (V4 9) sample_hint 1 0"] poll
    by (metis fst_conv)
qed

text \<open>A client that asks for a target whose connection is refused.\<close>

definition sample_direct :: "(sample_packets, trojan_provider) services" where
  "sample_direct =
     \<lparr>sv_os = de_os (sample_denv []), sv_connect = (\<lambda>_ w. (Err ConnectionRefused, w)), sv_local_addr = (\<lambda>_. None),
      sv_option = (\<lambda>_ w. (Ok (), w)), sv_relay = (\<lambda>_ _ w. (Ok (), w)),
      sv_runtime = runtime_new (policy_engine_new [] (PRoute Direct)), sv_outbounds = \<lparr>endpoints = []\<rparr>\<rparr>"

theorem socks_connect_obeys_policy_witness:
  "\<exists>r out client' sh' w' bound.
    socks_handle sample_direct (sample_denv []) 0 (sample_stream [[5, 1, 0, 5, 1], [0, 1, 0, 0, 0, 9, 0, 80, 42]])
      \<lparr>sh_dns = sample_dns, sh_next_flow_id = 1\<rparr> ([], []) = Some (r, out, client', sh', w') \<and>
    out = Refused \<and> r = Err ConnectionRefused \<and> out_bytes client' = [5, 0, 5, 5, 0] @ bound \<and> pending client' = [42]"
proof -
  let ?c = "sample_stream [[5, 1, 0, 5, 1], [0, 1, 0, 0, 0, 9, 0, 80, 42]]" and ?t = "\<lparr>t_host = HIp (V4 9), t_port = 80\<rparr>"
    and ?sh = "\<lparr>sh_dns = sample_dns, sh_next_flow_id = 1\<rparr>"
  have h: "nameable (t_host ?t)" "t_port ?t \<noteq> 0" "24 \<le> out_budget ?c"
    "pending ?c = request_of Socks5Protocol ?t @ [42]"
    "client_timeouts sample_direct (Some HANDSHAKE_TIMEOUT) ([], []) = (Ok (), [], [])" by code_simp+
  have "case socks_handle sample_direct (sample_denv []) 0 ?c ?sh ([], []) of
      Some (r, out, _) \<Rightarrow> out = Refused \<and> r = Err ConnectionRefused | None \<Rightarrow> False" by code_simp
  then obtain client' sh' w' where s: "socks_handle sample_direct (sample_denv []) 0 ?c ?sh ([], [])
      = Some (Err ConnectionRefused, Refused, client', sh', w')"
    by (auto split: option.splits)
  have "case connect_tcp (sv_os sample_direct) (sv_connect sample_direct) (sv_outbounds sample_direct) Direct ?t
      (sh_dns ?sh) ([], []) of (Err k, _) \<Rightarrow> k = ConnectionRefused | (Ok _, _) \<Rightarrow> False" by code_simp
  moreover have "fst (plan_action (sv_runtime sample_direct) ?t Tcp (sh_next_flow_id ?sh)) = ERoute Direct" by code_simp
  moreover have "out_bytes ?c = []" by (simp add: sample_stream_def)
  ultimately show ?thesis
    using socks_connect_obeys_policy [OF h s] s by (auto split: prod.splits result.splits)
qed

end
