(* ===== verification/Transparent_Udp.thy ===== *)
theory Transparent_Udp
  imports Socks5_Udp
begin

text \<open>
  \<open>crates/daemon/src/transparent_udp.rs\<close>: the TPROXY datagram listener with its table of
  clients, the readiness tokens of their routes, and the cache of reply sockets bound to the
  original destinations. Sockets of \<open>socket2\<close>, \<open>recvmsg\<close> and the poll instance are
  parameters; a received datagram carries its bytes. An error of the operating system is its
  \<open>ErrorKind\<close>.
\<close>

section \<open>Definitions\<close>

definition INBOUND_TOKEN :: token where "INBOUND_TOKEN = 0"
definition OUTBOUND_FIRST_TOKEN :: token where "OUTBOUND_FIRST_TOKEN = 1"
definition MAX_PACKET :: nat where "MAX_PACKET = 65535"
definition MAX_EVENT_BURST :: nat where "MAX_EVENT_BURST = 32"
definition MAX_CLIENTS :: nat where "MAX_CLIENTS = 512"
definition MAX_REPLY_SOCKETS :: nat where "MAX_REPLY_SOCKETS = 256"
definition CLIENT_IDLE_TIMEOUT :: duration where "CLIENT_IDLE_TIMEOUT = from_secs 120"
definition REPLY_SOCKET_IDLE_TIMEOUT :: duration where "REPLY_SOCKET_IDLE_TIMEOUT = from_secs 120"

subsection \<open>Sockets\<close>

text \<open>The calls of \<open>socket2\<close> and \<open>nix\<close>: a socket of an address family, its options, and its use.\<close>

record 'w socket2_os =
  so_new :: "bool \<Rightarrow> bool \<Rightarrow> 'w \<Rightarrow> (nat, error_kind) result \<times> 'w"  \<comment> \<open>IPv4, datagram\<close>
  so_reuse_address :: "nat \<Rightarrow> 'w \<Rightarrow> (unit, error_kind) result \<times> 'w"
  so_only_v6 :: "nat \<Rightarrow> 'w \<Rightarrow> (unit, error_kind) result \<times> 'w"
  so_transparent :: "bool \<Rightarrow> nat \<Rightarrow> 'w \<Rightarrow> (unit, error_kind) result \<times> 'w"
  so_orig_dst :: "bool \<Rightarrow> nat \<Rightarrow> 'w \<Rightarrow> (unit, error_kind) result \<times> 'w"
  so_bind :: "nat \<Rightarrow> socket_addr \<Rightarrow> 'w \<Rightarrow> (unit, error_kind) result \<times> 'w"
  so_listen :: "nat \<Rightarrow> nat \<Rightarrow> 'w \<Rightarrow> (unit, error_kind) result \<times> 'w"
  so_nonblocking :: "nat \<Rightarrow> 'w \<Rightarrow> (unit, error_kind) result \<times> 'w"

text \<open>\<open>?\<close> on an operation of the operating system.\<close>

definition bindOs ::
  "('w \<Rightarrow> ('a, error_kind) result \<times> 'w) \<Rightarrow> ('a \<Rightarrow> 'w \<Rightarrow> ('b, error_kind) result \<times> 'w)
    \<Rightarrow> 'w \<Rightarrow> ('b, error_kind) result \<times> 'w" where
  "bindOs m f w = (case m w of (Err k, w) \<Rightarrow> (Err k, w) | (Ok a, w) \<Rightarrow> f a w)"

definition transparent_options :: "'w socket2_os \<Rightarrow> socket_addr \<Rightarrow> nat \<Rightarrow> 'w \<Rightarrow> (unit, error_kind) result \<times> 'w" where
  "transparent_options so address fd =
     (if sock_is_ipv4 address then so_transparent so True fd
      else bindOs (so_only_v6 so fd) (\<lambda>_. so_transparent so False fd))"

definition bind_udp_listener :: "'w socket2_os \<Rightarrow> socket_addr \<Rightarrow> 'w \<Rightarrow> (nat, error_kind) result \<times> 'w" where
  "bind_udp_listener so address =
     bindOs (so_new so (sock_is_ipv4 address) True) (\<lambda>fd.
     bindOs (so_reuse_address so fd) (\<lambda>_.
     bindOs (transparent_options so address fd) (\<lambda>_.
     bindOs (so_orig_dst so (sock_is_ipv4 address) fd) (\<lambda>_.
     bindOs (so_bind so fd address) (\<lambda>_.
     bindOs (so_nonblocking so fd) (\<lambda>_ w. (Ok fd, w)))))))"

definition bind_transparent_reply_socket ::
  "'w socket2_os \<Rightarrow> socket_addr \<Rightarrow> 'w \<Rightarrow> (nat, error_kind) result \<times> 'w" where
  "bind_transparent_reply_socket so source =
     bindOs (so_new so (sock_is_ipv4 source) True) (\<lambda>fd.
     bindOs (transparent_options so source fd) (\<lambda>_.
     bindOs (so_bind so fd source) (\<lambda>_ w. (Ok fd, w))))"

datatype sockaddr_storage = SaIn u32 u16 | SaIn6 u128 u16 u32 u32 | SaOther

fun storage_to_socket_addr :: "sockaddr_storage \<Rightarrow> socket_addr option" where
  "storage_to_socket_addr (SaIn ip port) = Some (SockV4 ip port)"
| "storage_to_socket_addr (SaIn6 ip port flow scope) = Some (SockV6 ip port flow scope)"
| "storage_to_socket_addr SaOther = None"

datatype control_message = Ipv4OrigDstAddr u32 u16 | Ipv6OrigDstAddr u128 u16 u32 u32 | OtherMessage

record udp_message =
  um_payload :: bytes
  um_truncated :: bool
  um_address :: "sockaddr_storage option"
  um_cmsgs :: "(control_message list, error_kind) result"

record transparent_datagram =
  td_client :: socket_addr
  td_target :: target
  td_payload :: bytes

fun original_destination :: "control_message list \<Rightarrow> socket_addr option \<Rightarrow> socket_addr option" where
  "original_destination [] original = original"
| "original_destination (Ipv4OrigDstAddr ip port # ms) original = original_destination ms (Some (SockV4 ip port))"
| "original_destination (Ipv6OrigDstAddr ip port flow scope # ms) original =
     original_destination ms (Some (SockV6 ip port flow scope))"
| "original_destination (OtherMessage # ms) original = original_destination ms original"

definition accept_message :: "udp_message \<Rightarrow> (transparent_datagram, error_kind) result" where
  "accept_message m =
     (if um_truncated m then Err InvalidData
      else
        bindR (ok_or InvalidData (Option.bind (um_address m) storage_to_socket_addr)) (\<lambda>client.
        bindR (um_cmsgs m) (\<lambda>cmsgs.
        bindR (ok_or InvalidData (original_destination cmsgs None)) (\<lambda>original.
        bindR (target_new (HIp (sock_ip original)) (sock_port original)) (\<lambda>t.
        Ok \<lparr>td_client = client, td_target = t, td_payload = um_payload m\<rparr>)))))"

definition recv_original_datagram ::
  "('w \<Rightarrow> (udp_message, error_kind) result \<times> 'w) \<Rightarrow> 'w
    \<Rightarrow> (transparent_datagram option, error_kind) result \<times> 'w" where
  "recv_original_datagram recvmsg w =
     (case recvmsg w of
        (Err k, w) \<Rightarrow> (if k = WouldBlock \<or> k = Interrupted then Ok None else Err k, w)
      | (Ok m, w) \<Rightarrow> (bindR (accept_message m) (\<lambda>d. Ok (Some d)), w))"

definition target_socket_addr :: "target \<Rightarrow> (socket_addr, error_kind) result" where
  "target_socket_addr t =
     (case t_host t of
        HIp ip \<Rightarrow> Ok (socket_addr_new ip (t_port t))
      | HDomain _ \<Rightarrow> Err AddrNotAvailable)"

subsection \<open>Reply sockets\<close>

record reply_socket =
  rp_socket :: nat
  rp_last_used :: instant

type_synonym reply_cache = "(socket_addr, reply_socket) hashmap"

text \<open>The environment of the listener: the datagram paths, the sockets and the received messages.\<close>

record ('c, 'w) tproxy_env =
  tx_env :: "('c, 'w) datagram_env"
  tx_sockets :: "'w socket2_os"
  tx_recvmsg :: "nat \<Rightarrow> 'w \<Rightarrow> (udp_message, error_kind) result \<times> 'w"
  tx_runtime :: runtime
  tx_outbounds :: "trojan_provider outbound_registry"

definition tx_now :: "('c, 'w) tproxy_env \<Rightarrow> 'w \<Rightarrow> instant" where
  "tx_now tx w = os_now (de_os (tx_env tx)) w"

definition cleanup_expired :: "instant \<Rightarrow> reply_cache \<Rightarrow> reply_cache" where
  "cleanup_expired now cache = hm_retain (\<lambda>_ reply. now - rp_last_used reply < REPLY_SOCKET_IDLE_TIMEOUT) cache"

definition evict_oldest :: "reply_cache \<Rightarrow> reply_cache" where
  "evict_oldest cache =
     (if MAX_REPLY_SOCKETS \<le> length cache then
        (case hm_min_by_key rp_last_used cache of
           None \<Rightarrow> cache
         | Some (oldest, _) \<Rightarrow> hm_remove oldest cache)
      else cache)"

definition ensure_reply_socket ::
  "('c, 'w) tproxy_env \<Rightarrow> socket_addr \<Rightarrow> reply_cache \<Rightarrow> 'w \<Rightarrow> (unit, error_kind) result \<times> reply_cache \<times> 'w" where
  "ensure_reply_socket tx source cache w =
     (if hm_contains cache source then (Ok (), cache, w)
      else
        (let cache = evict_oldest (cleanup_expired (tx_now tx w) cache)
         in case bind_transparent_reply_socket (tx_sockets tx) source w of
              (Err k, w) \<Rightarrow> (Err k, cache, w)
            | (Ok fd, w) \<Rightarrow> (Ok (), hm_insert source \<lparr>rp_socket = fd, rp_last_used = tx_now tx w\<rparr> cache, w)))"

definition reply_send ::
  "('c, 'w) tproxy_env \<Rightarrow> target \<Rightarrow> socket_addr \<Rightarrow> bytes \<Rightarrow> reply_cache \<Rightarrow> 'w
    \<Rightarrow> (unit, error_kind) result \<times> reply_cache \<times> 'w" where
  "reply_send tx source client payload cache w =
     (case target_socket_addr source of
        Err k \<Rightarrow> (Err k, cache, w)
      | Ok source \<Rightarrow>
          if sock_is_ipv4 source \<noteq> sock_is_ipv4 client then (Err InvalidInput, cache, w)
          else (case ensure_reply_socket tx source cache w of
            (Err k, cache, w) \<Rightarrow> (Err k, cache, w)
          | (Ok _, cache, w) \<Rightarrow>
              (case hm_get cache source of
                 None \<Rightarrow> (Err OtherKind, cache, w)
               | Some reply \<Rightarrow>
                   (case uo_send_to (de_udp (tx_env tx)) (rp_socket reply) payload client w of
                      (Err k, w) \<Rightarrow> (Err k, cache, w)
                    | (Ok sent, w) \<Rightarrow>
                        if sent \<noteq> length payload then (Err WriteZero, cache, w)
                        else (Ok (), hm_insert source (reply\<lparr>rp_last_used := tx_now tx w\<rparr>) cache, w)))))"

subsection \<open>Clients\<close>

record 'c client_state =
  cl_routes :: "'c daemon_execution route_set"
  cl_last_activity :: instant

record 'c tproxy_state =
  tp_clients :: "(socket_addr, 'c client_state) hashmap"
  tp_token_clients :: "(token, socket_addr) hashmap"
  tp_tokens :: token_allocator
  tp_replies :: reply_cache
  tp_next_flow_id :: u64

definition next_client_timeout :: "(socket_addr, 'c client_state) hashmap \<Rightarrow> instant \<Rightarrow> duration option" where
  "next_client_timeout clients now =
     (case map (\<lambda>(_, cs). CLIENT_IDLE_TIMEOUT - (now - cl_last_activity cs)) clients of
        [] \<Rightarrow> None
      | t # ts \<Rightarrow> Some (fold min ts t))"

definition forget_client ::
  "socket_addr \<Rightarrow> (socket_addr, 'c client_state) hashmap \<times> (token, socket_addr) hashmap
    \<Rightarrow> (socket_addr, 'c client_state) hashmap \<times> (token, socket_addr) hashmap" where
  "forget_client client tables =
     (case tables of (clients, token_clients) \<Rightarrow>
        case hm_get clients client of
          None \<Rightarrow> (clients, token_clients)
        | Some cs \<Rightarrow> (hm_remove client clients, fold hm_remove (owned_tokens (cl_routes cs)) token_clients))"

definition cleanup_idle_clients :: "instant \<Rightarrow> 'c tproxy_state \<Rightarrow> 'c tproxy_state" where
  "cleanup_idle_clients now st =
     (let expired = map fst (filter (\<lambda>(_, cs). CLIENT_IDLE_TIMEOUT \<le> now - cl_last_activity cs) (tp_clients st));
          (clients, token_clients) = fold forget_client expired (tp_clients st, tp_token_clients st)
      in st\<lparr>tp_clients := clients, tp_token_clients := token_clients\<rparr>)"

definition touch_client :: "socket_addr \<Rightarrow> instant \<Rightarrow> 'c tproxy_state \<Rightarrow> 'c tproxy_state" where
  "touch_client client now st =
     (case hm_get (tp_clients st) client of
        None \<Rightarrow> st
      | Some cs \<Rightarrow> st\<lparr>tp_clients := hm_insert client (cs\<lparr>cl_last_activity := now\<rparr>) (tp_clients st)\<rparr>)"

definition client_entry :: "('c, 'w) tproxy_env \<Rightarrow> socket_addr \<Rightarrow> 'w \<Rightarrow> 'c tproxy_state \<Rightarrow> bool option \<times> 'c tproxy_state" where
  \<comment> \<open>the entry of a client, \<open>Some True\<close> when it was inserted and \<open>None\<close> when the table is full\<close>
  "client_entry tx client w st =
     (if hm_contains (tp_clients st) client then (Some False, st)
      else
        (let st = cleanup_idle_clients (tx_now tx w) st
         in if MAX_CLIENTS \<le> length (tp_clients st) then (None, st)
            else (Some True, st\<lparr>tp_clients := hm_insert client
                    \<lparr>cl_routes = route_set_new, cl_last_activity = tx_now tx w\<rparr> (tp_clients st)\<rparr>)))"

definition handle_inbound ::
  "('c, 'w) tproxy_env \<Rightarrow> socket_addr \<Rightarrow> target \<Rightarrow> bytes \<Rightarrow> 'c tproxy_state \<Rightarrow> 'w netw
    \<Rightarrow> (bool \<times> 'c tproxy_state \<times> 'w netw) option" where
  "handle_inbound tx client t payload st dw =
     (let (e, fid) = udp_endpoint (tx_runtime tx) (tx_outbounds tx) t (tp_next_flow_id st);
          st = st\<lparr>tp_next_flow_id := fid\<rparr>
      in case e of
           None \<Rightarrow> Some (False, st, dw)
         | Some e \<Rightarrow>
             (case client_entry tx client (snd dw) st of
                (None, st) \<Rightarrow> Some (False, st, dw)
              | (Some inserted, st) \<Rightarrow>
                  (case hm_get (tp_clients st) client of
                     None \<Rightarrow> Some (False, st, dw)
                   | Some cs \<Rightarrow>
                       map_option (\<lambda>(r, rs, ta, dw).
                         let cs = cs\<lparr>cl_routes := rs\<rparr>;
                             st = st\<lparr>tp_clients := hm_insert client cs (tp_clients st), tp_tokens := ta\<rparr>
                         in if \<not> is_ok r then
                              (False, if inserted then st\<lparr>tp_clients := hm_remove client (tp_clients st)\<rparr> else st, dw)
                            else (True, st\<lparr>tp_token_clients :=
                                   fold (\<lambda>tok. hm_insert tok client) (owned_tokens rs) (tp_token_clients st)\<rparr>, dw))
                         (send_with (daemon_ops (tx_env tx)) (daemon_open (tx_env tx) (tx_outbounds tx))
                           e t payload (cl_routes cs) (tp_tokens st) dw))))"

subsection \<open>The loop\<close>

primrec inbound_burst ::
  "nat \<Rightarrow> ('c, 'w) tproxy_env \<Rightarrow> nat \<Rightarrow> 'c tproxy_state \<Rightarrow> 'w netw
    \<Rightarrow> ((unit, error_kind) result \<times> 'c tproxy_state \<times> 'w netw) option" where
  "inbound_burst 0 tx listener st dw = Some (Ok (), st, dw)"
| "inbound_burst (Suc n) tx listener st dw =
     (case recv_original_datagram (tx_recvmsg tx listener) (snd dw) of
        (Err k, w) \<Rightarrow> Some (Err k, st, fst dw, w)
      | (Ok None, w) \<Rightarrow> Some (Ok (), st, fst dw, w)
      | (Ok (Some d), w) \<Rightarrow>
          (case handle_inbound tx (td_client d) (td_target d) (td_payload d) st (fst dw, w) of
             None \<Rightarrow> None
           | Some (handled, st, dw) \<Rightarrow>
               inbound_burst n tx listener
                 (if handled then touch_client (td_client d) (tx_now tx (snd dw)) st else st) dw))"

primrec route_burst ::
  "nat \<Rightarrow> ('c, 'w) tproxy_env \<Rightarrow> token \<Rightarrow> socket_addr \<Rightarrow> 'c tproxy_state \<Rightarrow> 'w netw
    \<Rightarrow> ((unit, error_kind) result \<times> 'c tproxy_state \<times> 'w netw) option" where
  "route_burst 0 tx tok client st dw = Some (Ok (), st, dw)"
| "route_burst (Suc n) tx tok client st dw =
     (case hm_get (tp_clients st) client of
        None \<Rightarrow> Some (Ok (), st\<lparr>tp_token_clients := hm_remove tok (tp_token_clients st)\<rparr>, dw)
      | Some cs \<Rightarrow>
          (case receive_ready (daemon_ops (tx_env tx)) tok MAX_PACKET (cl_routes cs) dw of
             None \<Rightarrow> None
           | Some (r, rs, dw) \<Rightarrow>
               (let st = st\<lparr>tp_clients := hm_insert client (cs\<lparr>cl_routes := rs\<rparr>) (tp_clients st)\<rparr>
                in case r of
                     Err k \<Rightarrow> Some (Err k, st, dw)
                   | Ok None \<Rightarrow> Some (Ok (), st, dw)
                   | Ok (Some rd) \<Rightarrow>
                       (let (q, cache, w) = reply_send tx (rd_source rd) client (rd_payload rd) (tp_replies st) (snd dw);
                            st = st\<lparr>tp_replies := cache\<rparr>
                        in route_burst n tx tok client
                             (if is_ok q then touch_client client (tx_now tx w) st else st) (fst dw, w)))))"

fun route_bursts ::
  "('c, 'w) tproxy_env \<Rightarrow> (token \<times> socket_addr) list \<Rightarrow> 'c tproxy_state \<Rightarrow> 'w netw
    \<Rightarrow> ((unit, error_kind) result \<times> 'c tproxy_state \<times> 'w netw) option" where
  "route_bursts tx [] st dw = Some (Ok (), st, dw)"
| "route_bursts tx ((tok, client) # ready) st dw =
     thenO (route_burst MAX_EVENT_BURST tx tok client st dw) (\<lambda>st dw. route_bursts tx ready st dw)"

definition tproxy_events ::
  "('c, 'w) tproxy_env \<Rightarrow> nat \<Rightarrow> mio_event list \<Rightarrow> 'c tproxy_state \<Rightarrow> 'w netw
    \<Rightarrow> ((unit, error_kind) result \<times> 'c tproxy_state \<times> 'w netw) option" where
  "tproxy_events tx listener evs st dw =
     (let now = tx_now tx (snd dw);
          st = cleanup_idle_clients now st;
          st = st\<lparr>tp_replies := cleanup_expired now (tp_replies st)\<rparr>;
          inbound_ready = list_ex (\<lambda>ev. ev_token ev = INBOUND_TOKEN \<and> ev_readable ev) evs
      in thenO (if inbound_ready then inbound_burst MAX_EVENT_BURST tx listener st dw else Some (Ok (), st, dw))
           (\<lambda>st dw. route_bursts tx
             (List.map_filter (\<lambda>ev. map_option (\<lambda>c. (ev_token ev, c)) (hm_get (tp_token_clients st) (ev_token ev))) evs)
             st dw))"

definition tproxy_turn ::
  "('c, 'w) tproxy_env \<Rightarrow> nat \<Rightarrow> 'c tproxy_state \<Rightarrow> 'w netw
    \<Rightarrow> (loop_exit \<times> 'c tproxy_state \<times> 'w netw) option" where
  "tproxy_turn tx listener st dw =
     (case de_poll (tx_env tx) (next_client_timeout (tp_clients st) (tx_now tx (snd dw))) (snd dw) of
        (Err k, w) \<Rightarrow> Some (if k = Interrupted then GoOn else Return (Err k), st, fst dw, w)
      | (Ok evs, w) \<Rightarrow>
          map_option (\<lambda>(r, st, dw). (case r of Ok _ \<Rightarrow> GoOn | Err k \<Rightarrow> Return (Err k), st, dw))
            (tproxy_events tx listener evs st (fst dw, w)))"

partial_function (option) tproxy_loop ::
  "('c, 'w) tproxy_env \<Rightarrow> nat \<Rightarrow> 'c tproxy_state \<Rightarrow> 'w netw
    \<Rightarrow> ((unit, error_kind) result \<times> 'c tproxy_state \<times> 'w netw) option" where
  "tproxy_loop tx listener st dw =
     (case tproxy_turn tx listener st dw of
        None \<Rightarrow> None
      | Some (GoOn, st, dw) \<Rightarrow> tproxy_loop tx listener st dw
      | Some (Return r, st, dw) \<Rightarrow> Some (r, st, dw))"

declare tproxy_loop.simps [code]

definition tproxy_start :: "u64 \<Rightarrow> 'c tproxy_state" where
  "tproxy_start fid =
     \<lparr>tp_clients = [], tp_token_clients = [], tp_tokens = allocator_new OUTBOUND_FIRST_TOKEN, tp_replies = [],
      tp_next_flow_id = fid\<rparr>"

definition serve_transparent_udp ::
  "('c, 'w) tproxy_env \<Rightarrow> nat \<Rightarrow> u64 \<Rightarrow> 'w netw \<Rightarrow> ((unit, error_kind) result \<times> u64 \<times> 'w netw) option" where
  "serve_transparent_udp tx listener fid dw =
     (case de_poll_new (tx_env tx) (snd dw) of
        (Err k, w) \<Rightarrow> Some (Err k, fid, fst dw, w)
      | (Ok _, w) \<Rightarrow>
     (case mio_register (de_tls (tx_env tx)) listener INBOUND_TOKEN (True, False) w of
        (Err k, w) \<Rightarrow> Some (Err k, fid, fst dw, w)
      | (Ok _, w) \<Rightarrow>
          map_option (\<lambda>(r, st, dw). (r, tp_next_flow_id st, dw))
            (tproxy_loop tx listener (tproxy_start fid) (fst dw, w))))"

section \<open>The tables of the listener\<close>

text \<open>
  Every client's routes satisfy the invariants of a route set, no token belongs to two clients, and
  a token is recorded for a client only while that client owns it.
\<close>

definition clients_inv ::
  "('c, 'w) tproxy_env \<Rightarrow> (socket_addr, 'c client_state) hashmap \<Rightarrow> (token, socket_addr) hashmap
    \<Rightarrow> token_allocator \<Rightarrow> bool" where
  "clients_inv tx clients token_clients ta \<longleftrightarrow>
     wf_map clients \<and> length clients \<le> MAX_CLIENTS \<and> OUTBOUND_FIRST_TOKEN \<le> next_token ta \<and>
     (\<forall>c cs. hm_get clients c = Some cs \<longrightarrow>
        route_inv (daemon_ops (tx_env tx)) OUTBOUND_FIRST_TOKEN (cl_routes cs) ta \<and> kinds_inv (cl_routes cs)) \<and>
     (\<forall>c c' cs cs'. hm_get clients c = Some cs \<longrightarrow> hm_get clients c' = Some cs' \<longrightarrow> c \<noteq> c' \<longrightarrow>
        set (owned_tokens (cl_routes cs)) \<inter> set (owned_tokens (cl_routes cs')) = {}) \<and>
     (\<forall>tok c. hm_get token_clients tok = Some c \<longrightarrow>
        (\<exists>cs. hm_get clients c = Some cs \<and> tok \<in> set (owned_tokens (cl_routes cs))))"

definition replies_inv :: "('c, 'w) tproxy_env \<Rightarrow> reply_cache \<Rightarrow> bool" where
  "replies_inv tx cache \<longleftrightarrow>
     wf_map cache \<and> length cache \<le> MAX_REPLY_SOCKETS \<and>
     (\<forall>a reply. hm_get cache a = Some reply \<longrightarrow>
        (\<exists>w w'. bind_transparent_reply_socket (tx_sockets tx) a w = (Ok (rp_socket reply), w')))"

definition tproxy_inv :: "('c, 'w) tproxy_env \<Rightarrow> 'c tproxy_state \<Rightarrow> bool" where
  "tproxy_inv tx st \<longleftrightarrow>
     clients_inv tx (tp_clients st) (tp_token_clients st) (tp_tokens st) \<and> replies_inv tx (tp_replies st)"

lemma length_hm_remove_less: "hm_get m k = Some v \<Longrightarrow> length (hm_remove k m) < length m"
  unfolding hm_get_def hm_remove_def AList.delete_eq
  by (metis (mono_tags, lifting) case_prod_conv length_filter_less map_of_SomeD)

lemma hm_get_fold_remove: "hm_get (fold hm_remove ks m) k = (if k \<in> set ks then None else hm_get m k)"
  by (induction ks arbitrary: m) auto

lemma hm_get_fold_insert:
  "hm_get (fold (\<lambda>k'. hm_insert k' v) ks m) k = (if k \<in> set ks then Some v else hm_get m k)"
  by (induction ks arbitrary: m) auto

lemma clients_fewer_tokens:
  assumes "clients_inv tx clients tc ta" "\<And>tok c. hm_get tc' tok = Some c \<Longrightarrow> hm_get tc tok = Some c"
  shows "clients_inv tx clients tc' ta"
  using assms unfolding clients_inv_def by blast

lemma clients_remove:
  assumes "clients_inv tx clients tc ta" "\<And>tok. hm_get tc' tok \<noteq> Some c"
    and "\<And>tok c'. hm_get tc' tok = Some c' \<Longrightarrow> hm_get tc tok = Some c'"
  shows "clients_inv tx (hm_remove c clients) tc' ta"
  using assms length_hm_remove_le [of c clients]
  unfolding clients_inv_def by (auto split: if_splits)

lemma clients_forget:
  assumes "clients_inv tx clients tc ta"
  shows "(case forget_client c (clients, tc) of (clients', tc') \<Rightarrow> clients_inv tx clients' tc' ta)"
proof (cases "hm_get clients c")
  case (Some cs)
  have "hm_get (fold hm_remove (owned_tokens (cl_routes cs)) tc) tok \<noteq> Some c" for tok
  proof
    assume a: "hm_get (fold hm_remove (owned_tokens (cl_routes cs)) tc) tok = Some c"
    then have "tok \<notin> set (owned_tokens (cl_routes cs))" "hm_get tc tok = Some c"
      by (auto simp: hm_get_fold_remove split: if_splits)
    with assms Some show False unfolding clients_inv_def by fastforce
  qed
  with Some show ?thesis
    by (auto simp: forget_client_def hm_get_fold_remove split: if_splits intro!: clients_remove [OF assms])
qed (use assms in \<open>simp add: forget_client_def\<close>)

lemma clients_forget_fold:
  assumes "clients_inv tx clients tc ta"
  shows "(case fold forget_client cs (clients, tc) of (clients', tc') \<Rightarrow> clients_inv tx clients' tc' ta)"
  using assms
proof (induction cs arbitrary: clients tc)
  case (Cons c cs)
  obtain clients1 tc1 where f: "forget_client c (clients, tc) = (clients1, tc1)"
    by (cases "forget_client c (clients, tc)")
  with clients_forget [OF Cons.prems, of c] have "clients_inv tx clients1 tc1 ta" by simp
  from Cons.IH [OF this] f show ?case by simp
qed simp

lemma clients_cleanup:
  assumes "clients_inv tx (tp_clients st) (tp_token_clients st) (tp_tokens st)"
  shows "clients_inv tx (tp_clients (cleanup_idle_clients now st)) (tp_token_clients (cleanup_idle_clients now st))
      (tp_tokens st) \<and> tp_tokens (cleanup_idle_clients now st) = tp_tokens st \<and>
    tp_replies (cleanup_idle_clients now st) = tp_replies st"
proof -
  let ?expired = "map fst (filter (\<lambda>(_, cs). CLIENT_IDLE_TIMEOUT \<le> now - cl_last_activity cs) (tp_clients st))"
  obtain clients tc where "fold forget_client ?expired (tp_clients st, tp_token_clients st) = (clients, tc)"
    by (cases "fold forget_client ?expired (tp_clients st, tp_token_clients st)")
  with clients_forget_fold [OF assms, of ?expired] show ?thesis by (simp add: cleanup_idle_clients_def Let_def)
qed

lemma route_set_new_simps [simp]: "owned_tokens route_set_new = []" "kinds_inv route_set_new"
  by (simp_all add: owned_tokens_def route_set_new_def kinds_inv_def)

lemma clients_new:
  assumes "clients_inv tx clients tc ta" "hm_get clients c = None" "length clients < MAX_CLIENTS"
  shows "clients_inv tx (hm_insert c \<lparr>cl_routes = route_set_new, cl_last_activity = now\<rparr> clients) tc ta \<and>
    (\<forall>tok. hm_get tc tok \<noteq> Some c)"
proof -
  have "length (hm_insert c \<lparr>cl_routes = route_set_new, cl_last_activity = now\<rparr> clients) \<le> MAX_CLIENTS"
    using assms(2,3) by (simp add: hm_insert_new)
  moreover have none: "hm_get tc tok \<noteq> Some c" for tok
    using assms(1,2) unfolding clients_inv_def by fastforce
  ultimately show ?thesis
    using assms(1) unfolding clients_inv_def by (auto intro: route_inv_new)
qed

text \<open>A client that gets new tokens gets fresh ones, which no other client has.\<close>

lemma clients_update_disjoint:
  assumes "clients_inv tx clients tc ta" "hm_get clients c = Some cs"
    and "owned_tokens (cl_routes cs') = owned_tokens (cl_routes cs) \<or>
      owned_tokens (cl_routes cs') = owned_tokens (cl_routes cs) @ [next_token ta..<next_token ta']"
    and "hm_get clients i = Some s" "i \<noteq> c"
  shows "set (owned_tokens (cl_routes cs')) \<inter> set (owned_tokens (cl_routes s)) = {}"
proof -
  have "\<forall>tok \<in> set (owned_tokens (cl_routes s)). tok < next_token ta"
    using assms(1,4) unfolding clients_inv_def route_inv_def by blast
  then have "{next_token ta..<next_token ta'} \<inter> set (owned_tokens (cl_routes s)) = {}" by fastforce
  moreover have "set (owned_tokens (cl_routes cs)) \<inter> set (owned_tokens (cl_routes s)) = {}"
    using assms(1,2,4,5) unfolding clients_inv_def by blast
  moreover have "set (owned_tokens (cl_routes cs')) \<subseteq> set (owned_tokens (cl_routes cs)) \<union> {next_token ta..<next_token ta'}"
    using assms(3) by auto
  ultimately show ?thesis by blast
qed

lemma clients_update:
  assumes "clients_inv tx clients tc ta" "hm_get clients c = Some cs"
    and "route_inv (daemon_ops (tx_env tx)) OUTBOUND_FIRST_TOKEN (cl_routes cs') ta'" "kinds_inv (cl_routes cs')"
    and "next_token ta \<le> next_token ta'"
    and "owned_tokens (cl_routes cs') = owned_tokens (cl_routes cs) \<or>
      owned_tokens (cl_routes cs') = owned_tokens (cl_routes cs) @ [next_token ta..<next_token ta']"
  shows "clients_inv tx (hm_insert c cs' clients) tc ta'"
  unfolding clients_inv_def
proof (intro conjI allI impI)
  note disj = clients_update_disjoint [OF assms(1,2,6)]
  show "wf_map (hm_insert c cs' clients)" "length (hm_insert c cs' clients) \<le> MAX_CLIENTS"
    "OUTBOUND_FIRST_TOKEN \<le> next_token ta'"
    using assms(1,5) by (simp_all add: clients_inv_def length_hm_update [OF assms(2)])
  fix i s
  assume s: "hm_get (hm_insert c cs' clients) i = Some s"
  have "route_inv (daemon_ops (tx_env tx)) OUTBOUND_FIRST_TOKEN (cl_routes u) ta'" if "hm_get clients i = Some u" for u
    using assms(1,5) that route_inv_mono unfolding clients_inv_def by blast
  with s assms(3) show "route_inv (daemon_ops (tx_env tx)) OUTBOUND_FIRST_TOKEN (cl_routes s) ta'"
    by (auto split: if_splits)
  show "kinds_inv (cl_routes s)"
    using s assms(1,4) unfolding clients_inv_def by (auto split: if_splits)
  fix j s'
  assume s': "hm_get (hm_insert c cs' clients) j = Some s'" "i \<noteq> j"
  show "set (owned_tokens (cl_routes s)) \<inter> set (owned_tokens (cl_routes s')) = {}"
  proof (cases "i = c \<or> j = c")
    case True
    with s s' disj [of j s'] disj [of i s] show ?thesis by (auto simp: Int_commute)
  next
    case False
    with s s' have "hm_get clients i = Some s" "hm_get clients j = Some s'" by simp_all
    with assms(1) s'(2) show ?thesis unfolding clients_inv_def by blast
  qed
next
  fix tok i
  assume "hm_get tc tok = Some i"
  then obtain s where "hm_get clients i = Some s" "tok \<in> set (owned_tokens (cl_routes s))"
    using assms(1) unfolding clients_inv_def by blast
  then show "\<exists>s. hm_get (hm_insert c cs' clients) i = Some s \<and> tok \<in> set (owned_tokens (cl_routes s))"
    using assms(2,6) by (cases "i = c") auto
qed

section \<open>What a turn keeps\<close>

lemma tproxy_inv_cleanup:
  assumes "tproxy_inv tx st"
  shows "tproxy_inv tx (cleanup_idle_clients now st)"
  using assms clients_cleanup [of tx st now] by (simp add: tproxy_inv_def)

lemma tproxy_inv_touch:
  assumes "tproxy_inv tx st"
  shows "tproxy_inv tx (touch_client c now st)"
proof (cases "hm_get (tp_clients st) c")
  case (Some cs)
  have cl: "clients_inv tx (tp_clients st) (tp_token_clients st) (tp_tokens st)" using assms by (simp add: tproxy_inv_def)
  with Some have "route_inv (daemon_ops (tx_env tx)) OUTBOUND_FIRST_TOKEN (cl_routes cs) (tp_tokens st)"
    "kinds_inv (cl_routes cs)" unfolding clients_inv_def by blast+
  with clients_update [OF cl Some, of "cs\<lparr>cl_last_activity := now\<rparr>" "tp_tokens st"]
  have "clients_inv tx (hm_insert c (cs\<lparr>cl_last_activity := now\<rparr>) (tp_clients st)) (tp_token_clients st) (tp_tokens st)"
    by simp
  with assms Some show ?thesis by (simp add: tproxy_inv_def touch_client_def)
qed (use assms in \<open>simp add: touch_client_def\<close>)

text \<open>Cleaning up takes clients away and changes none.\<close>

lemma forget_keeps:
  "fold forget_client cs (clients, tc) = (clients', tc') \<Longrightarrow> hm_get clients' c = Some x \<Longrightarrow> hm_get clients c = Some x"
proof (induction cs arbitrary: clients tc)
  case (Cons a cs)
  obtain clients1 tc1 where f: "forget_client a (clients, tc) = (clients1, tc1)"
    by (cases "forget_client a (clients, tc)")
  then have "hm_get clients1 c = Some x" using Cons.IH [of clients1 tc1] Cons.prems by simp
  with f show ?case by (auto simp: forget_client_def split: option.splits if_splits)
qed simp

lemma cleanup_keeps:
  "hm_get (tp_clients (cleanup_idle_clients now st)) c = Some x \<Longrightarrow> hm_get (tp_clients st) c = Some x"
  using forget_keeps by (auto simp: cleanup_idle_clients_def Let_def split: prod.splits)

lemma cleanup_no_client:
  "hm_get (tp_clients st) c = None \<Longrightarrow> hm_get (tp_clients (cleanup_idle_clients now st)) c = None"
  using cleanup_keeps by (metis option.exhaust option.distinct(1))

lemma tproxy_inv_entry:
  assumes "client_entry tx c w st = (inserted, st')" "tproxy_inv tx st"
  shows "tproxy_inv tx st' \<and> (inserted = Some True \<longrightarrow> (\<forall>tok. hm_get (tp_token_clients st') tok \<noteq> Some c))"
proof (cases "hm_contains (tp_clients st) c \<or> inserted = None")
  case True
  with assms tproxy_inv_cleanup [of tx st] show ?thesis
    by (auto simp: client_entry_def Let_def split: if_splits)
next
  case False
  let ?st = "cleanup_idle_clients (tx_now tx w) st"
  have inv: "tproxy_inv tx ?st" by (rule tproxy_inv_cleanup [OF assms(2)])
  have "\<not> hm_contains (tp_clients ?st) c"
    using False by (auto simp: hm_contains_def intro!: cleanup_no_client)
  moreover have "length (tp_clients ?st) < MAX_CLIENTS" "inserted = Some True"
    "st' = ?st\<lparr>tp_clients := hm_insert c \<lparr>cl_routes = route_set_new, cl_last_activity = tx_now tx w\<rparr> (tp_clients ?st)\<rparr>"
    using assms(1) False by (auto simp: client_entry_def Let_def not_le split: if_splits)
  ultimately show ?thesis
    using inv clients_new [of tx "tp_clients ?st" "tp_token_clients ?st" "tp_tokens ?st" c "tx_now tx w"]
    by (simp add: tproxy_inv_def hm_contains_def)
qed

lemma tproxy_inv_inbound:
  assumes "handle_inbound tx c t payload st dw = Some (handled, st', dw')" "tproxy_inv tx st"
  shows "tproxy_inv tx st'"
proof -
  obtain eo fid where e: "udp_endpoint (tx_runtime tx) (tx_outbounds tx) t (tp_next_flow_id st) = (eo, fid)"
    by (cases "udp_endpoint (tx_runtime tx) (tx_outbounds tx) t (tp_next_flow_id st)")
  let ?st0 = "st\<lparr>tp_next_flow_id := fid\<rparr>"
  have inv0: "tproxy_inv tx ?st0" using assms(2) by (simp add: tproxy_inv_def)
  obtain io st1 where en: "client_entry tx c (snd dw) ?st0 = (io, st1)" by (cases "client_entry tx c (snd dw) ?st0")
  note inv1 = tproxy_inv_entry [OF en inv0]
  show ?thesis
  proof (cases "\<exists>en inserted cs. eo = Some en \<and> io = Some inserted \<and> hm_get (tp_clients st1) c = Some cs")
    case False
    with assms(1) e en inv0 inv1 show ?thesis
      by (auto simp: handle_inbound_def Let_def split: option.splits)
  next
    case True
    then obtain en inserted cs where c: "eo = Some en" "io = Some inserted" "hm_get (tp_clients st1) c = Some cs"
      by blast
    obtain r rs ta where s: "send_with (daemon_ops (tx_env tx)) (daemon_open (tx_env tx) (tx_outbounds tx))
        en t payload (cl_routes cs) (tp_tokens st1) dw = Some (r, rs, ta, dw')"
      and st': "st' = (let st2 = st1\<lparr>tp_clients := hm_insert c (cs\<lparr>cl_routes := rs\<rparr>) (tp_clients st1), tp_tokens := ta\<rparr>
        in if \<not> is_ok r then if inserted then st2\<lparr>tp_clients := hm_remove c (tp_clients st2)\<rparr> else st2
           else st2\<lparr>tp_token_clients := fold (\<lambda>tok. hm_insert tok c) (owned_tokens rs) (tp_token_clients st2)\<rparr>)"
      using assms(1) e en c by (auto simp: handle_inbound_def Let_def split: if_splits)
    have cl: "clients_inv tx (tp_clients st1) (tp_token_clients st1) (tp_tokens st1)"
      using inv1 by (simp add: tproxy_inv_def)
    then have r1: "route_inv (daemon_ops (tx_env tx)) OUTBOUND_FIRST_TOKEN (cl_routes cs) (tp_tokens st1)"
      "kinds_inv (cl_routes cs)" using c(3) unfolding clients_inv_def by blast+
    let ?cl = "hm_insert c (cs\<lparr>cl_routes := rs\<rparr>) (tp_clients st1)"
    have up: "clients_inv tx ?cl (tp_token_clients st1) ta"
      using clients_update [OF cl c(3), of "cs\<lparr>cl_routes := rs\<rparr>" ta] paths.route_inv_send [OF r1(1) s]
        kinds_send [OF s r1(2)] send_with_owned [OF s] by simp
    have "clients_inv tx ?cl (fold (\<lambda>tok. hm_insert tok c) (owned_tokens rs) (tp_token_clients st1)) ta"
      using up unfolding clients_inv_def by (auto simp: hm_get_fold_insert split: if_splits)
    moreover have "clients_inv tx (hm_remove c ?cl) (tp_token_clients st1) ta" if inserted
      using clients_remove [OF up] inv1 c(2) that by blast
    ultimately show ?thesis
      using up inv1 st' by (auto simp: tproxy_inv_def Let_def)
  qed
qed

text \<open>
  Handling a datagram opens or changes at most the route of the planned endpoint for its own client;
  every other route is as it was.
\<close>

lemma inbound_routes_planned:
  assumes "handle_inbound tx client t payload st dw = Some (handled, st', dw')"
    and "hm_get (tp_clients st') c = Some cs'" "hm_get (routes (cl_routes cs')) e = Some route"
  shows "(c = client \<and> fst (plan_action (tx_runtime tx) t Udp (tp_next_flow_id st)) = ERoute e) \<or>
    (\<exists>cs. hm_get (tp_clients st) c = Some cs \<and> hm_get (routes (cl_routes cs)) e = Some route)"
proof -
  let ?old = "\<lambda>s. \<exists>cs. hm_get (tp_clients s) c = Some cs \<and> hm_get (routes (cl_routes cs)) e = Some route"
  obtain eo fid where u: "udp_endpoint (tx_runtime tx) (tx_outbounds tx) t (tp_next_flow_id st) = (eo, fid)"
    by (cases "udp_endpoint (tx_runtime tx) (tx_outbounds tx) t (tp_next_flow_id st)")
  obtain inserted st1 where entry: "client_entry tx client (snd dw) (st\<lparr>tp_next_flow_id := fid\<rparr>) = (inserted, st1)"
    by fastforce
  have old: "?old st" if "?old st1"
    using that entry cleanup_keeps [of "tx_now tx (snd dw)" "st\<lparr>tp_next_flow_id := fid\<rparr>"]
    by (fastforce simp: client_entry_def Let_def route_set_new_def split: if_splits)
  show ?thesis
  proof (cases "\<exists>en cs. eo = Some en \<and> inserted \<noteq> None \<and> hm_get (tp_clients st1) client = Some cs")
    case False
    then have "st' = (if eo = None then st\<lparr>tp_next_flow_id := fid\<rparr> else st1)"
      using assms(1) u entry by (cases eo; cases inserted) (auto simp: handle_inbound_def Let_def)
    then have "?old st1 \<or> ?old st" using assms(2,3) by (auto split: if_splits)
    with old show ?thesis by blast
  next
    case True
    then obtain en cs b where en: "eo = Some en" "inserted = Some b" "hm_get (tp_clients st1) client = Some cs" by auto
    then obtain r rs ta where send: "send_with (daemon_ops (tx_env tx)) (daemon_open (tx_env tx) (tx_outbounds tx))
        en t payload (cl_routes cs) (tp_tokens st1) dw = Some (r, rs, ta, dw')"
      and st': "tp_clients st' = hm_insert client (cs\<lparr>cl_routes := rs\<rparr>) (tp_clients st1) \<or>
        tp_clients st' = hm_remove client (hm_insert client (cs\<lparr>cl_routes := rs\<rparr>) (tp_clients st1))"
      using assms(1) u entry by (auto simp: handle_inbound_def Let_def split: if_splits)
    have planned: "fst (plan_action (tx_runtime tx) t Udp (tp_next_flow_id st)) = ERoute en"
      using udp_endpoint_Some u en(1) by metis
    show ?thesis
    proof (cases "c = client \<and> e = en")
      case True
      with planned show ?thesis by simp
    next
      case False
      with st' assms(2,3) en(3) send_with_routes [OF send, of e] have "?old st1"
        by (auto split: if_splits)
      with old show ?thesis by blast
    qed
  qed
qed

lemma inbound_handled:
  assumes "handle_inbound tx client t payload st dw = Some (True, st', dw')"
  shows "\<exists>e cs'. fst (plan_action (tx_runtime tx) t Udp (tp_next_flow_id st)) = ERoute e \<and>
    hm_get (tp_clients st') client = Some cs' \<and> hm_contains (routes (cl_routes cs')) e"
proof -
  obtain eo fid where u: "udp_endpoint (tx_runtime tx) (tx_outbounds tx) t (tp_next_flow_id st) = (eo, fid)"
    by (cases "udp_endpoint (tx_runtime tx) (tx_outbounds tx) t (tp_next_flow_id st)")
  obtain inserted st1 where entry: "client_entry tx client (snd dw) (st\<lparr>tp_next_flow_id := fid\<rparr>) = (inserted, st1)"
    by fastforce
  obtain en b cs where en: "eo = Some en" "inserted = Some b" "hm_get (tp_clients st1) client = Some cs"
    using assms u entry by (cases eo; cases inserted) (auto simp: handle_inbound_def Let_def split: option.splits)
  then obtain r rs ta where send: "send_with (daemon_ops (tx_env tx)) (daemon_open (tx_env tx) (tx_outbounds tx))
      en t payload (cl_routes cs) (tp_tokens st1) dw = Some (r, rs, ta, dw')" "is_ok r"
    and st': "tp_clients st' = hm_insert client (cs\<lparr>cl_routes := rs\<rparr>) (tp_clients st1)"
    using assms u entry by (auto simp: handle_inbound_def Let_def split: if_splits)
  have "fst (plan_action (tx_runtime tx) t Udp (tp_next_flow_id st)) = ERoute en"
    using udp_endpoint_Some u en(1) by metis
  with st' send_with_routes [OF send(1)] send(2) show ?thesis by simp
qed

lemma tproxy_inv_inbound_burst:
  assumes "inbound_burst n tx listener st dw = Some (r, st', dw')" "tproxy_inv tx st"
  shows "tproxy_inv tx st'"
  using assms
proof (induction n arbitrary: st dw)
  case (Suc n)
  obtain q w where q: "recv_original_datagram (tx_recvmsg tx listener) (snd dw) = (q, w)"
    by (cases "recv_original_datagram (tx_recvmsg tx listener) (snd dw)")
  show ?case
  proof (cases "\<exists>d. q = Ok (Some d)")
    case False
    with Suc.prems q show ?thesis by (auto split: result.splits option.splits)
  next
    case True
    then obtain d where d: "q = Ok (Some d)" ..
    obtain handled st1 dw1 where h: "handle_inbound tx (td_client d) (td_target d) (td_payload d) st (fst dw, w)
        = Some (handled, st1, dw1)"
      using Suc.prems(1) q d by (simp split: option.splits) auto
    have i: "tproxy_inv tx st1" by (rule tproxy_inv_inbound [OF h Suc.prems(2)])
    from Suc.prems(1) q d h
    have "inbound_burst n tx listener
        (if handled then touch_client (td_client d) (tx_now tx (snd dw1)) st1 else st1) dw1 = Some (r, st', dw')"
      by simp
    from Suc.IH [OF this] i tproxy_inv_touch [OF i] show ?thesis by simp
  qed
qed simp

lemma replies_retain:
  assumes "replies_inv tx cache"
  shows "replies_inv tx (cleanup_expired now cache)"
  using assms length_filter_le [of "\<lambda>(k, v). now - rp_last_used v < REPLY_SOCKET_IDLE_TIMEOUT" cache]
  by (auto simp: replies_inv_def cleanup_expired_def hm_get_retain hm_retain_def [symmetric] split: option.splits if_splits)

lemma hm_min_by_key_mem: "hm_min_by_key f m = Some p \<Longrightarrow> p \<in> set m"
  by (induction m arbitrary: p) (auto split: option.splits if_splits)

lemma hm_min_by_key_None: "hm_min_by_key f m = None \<longleftrightarrow> m = []"
  by (cases m) (auto split: option.splits)

lemma replies_evict:
  assumes "replies_inv tx cache"
  shows "replies_inv tx (evict_oldest cache) \<and> length (evict_oldest cache) < MAX_REPLY_SOCKETS"
proof (cases "MAX_REPLY_SOCKETS \<le> length cache")
  case True
  then have "cache \<noteq> []" by (auto simp: MAX_REPLY_SOCKETS_def)
  then obtain k v where p: "hm_min_by_key rp_last_used cache = Some (k, v)"
    by (metis hm_min_by_key_None not_None_eq surj_pair)
  have "hm_get cache k = Some v"
    using hm_min_by_key_mem [OF p] assms by (simp add: replies_inv_def hm_get_Some_mem)
  from length_hm_remove_less [OF this] assms True p show ?thesis
    by (simp add: replies_inv_def evict_oldest_def)
qed (use assms in \<open>simp add: evict_oldest_def\<close>)

lemma replies_insert:
  assumes "replies_inv tx cache" "length cache < MAX_REPLY_SOCKETS \<or> hm_contains cache a"
    and "\<exists>w w'. bind_transparent_reply_socket (tx_sockets tx) a w = (Ok (rp_socket reply), w')"
  shows "replies_inv tx (hm_insert a reply cache)"
proof -
  have "length (hm_insert a reply cache) \<le> MAX_REPLY_SOCKETS"
    using assms(1,2) hm_insert_new [of cache a reply] length_hm_update [of cache a _ reply]
    by (cases "hm_get cache a") (auto simp: replies_inv_def hm_contains_def)
  with assms show ?thesis by (auto simp: replies_inv_def)
qed

lemma replies_ensure:
  assumes "ensure_reply_socket tx source cache w = (q, cache', w')" "replies_inv tx cache"
  shows "replies_inv tx cache' \<and> (is_ok q \<longrightarrow> hm_contains cache' source)"
proof (cases "hm_contains cache source")
  case True
  with assms show ?thesis by (simp add: ensure_reply_socket_def)
next
  case False
  let ?cache = "evict_oldest (cleanup_expired (tx_now tx w) cache)"
  have e: "replies_inv tx ?cache" "length ?cache < MAX_REPLY_SOCKETS"
    using replies_evict [OF replies_retain [OF assms(2)]] by blast+
  obtain b w1 where b: "bind_transparent_reply_socket (tx_sockets tx) source w = (b, w1)"
    by (cases "bind_transparent_reply_socket (tx_sockets tx) source w")
  show ?thesis
  proof (cases b)
    case (Ok fd)
    with assms(1) False b have c: "cache' = hm_insert source \<lparr>rp_socket = fd, rp_last_used = tx_now tx w1\<rparr> ?cache"
      by (auto simp: ensure_reply_socket_def Let_def)
    have "replies_inv tx cache'"
      unfolding c by (rule replies_insert [OF e(1)]) (use e(2) b Ok in auto)
    then show ?thesis by (simp add: c hm_contains_def)
  next
    case (Err k)
    with assms(1) False b e show ?thesis by (auto simp: ensure_reply_socket_def Let_def is_ok_def)
  qed
qed

text \<open>A reply leaves from a socket bound to its source, and the cache stays well formed.\<close>

lemma reply_send_spec:
  assumes "reply_send tx source client payload cache w = (q, cache', w')" "replies_inv tx cache"
  shows "replies_inv tx cache' \<and>
    (is_ok q \<longrightarrow> (\<exists>ip fd wb wb' ws ws'. t_host source = HIp ip \<and>
      bind_transparent_reply_socket (tx_sockets tx) (socket_addr_new ip (t_port source)) wb = (Ok fd, wb') \<and>
      uo_send_to (de_udp (tx_env tx)) fd payload client ws = (Ok (length payload), ws')))"
proof (cases "\<exists>ip. t_host source = HIp ip \<and> sock_is_ipv4 (socket_addr_new ip (t_port source)) = sock_is_ipv4 client")
  case False
  with assms show ?thesis
    by (auto simp: reply_send_def target_socket_addr_def is_ok_def split: destination_host.splits if_splits)
next
  case True
  then obtain ip where ip: "t_host source = HIp ip" "sock_is_ipv4 (socket_addr_new ip (t_port source)) = sock_is_ipv4 client"
    by blast
  let ?a = "socket_addr_new ip (t_port source)"
  obtain q1 cache1 w1 where en: "ensure_reply_socket tx ?a cache w = (q1, cache1, w1)" by (metis prod_cases3)
  note inv = replies_ensure [OF en assms(2)]
  show ?thesis
  proof (cases "\<exists>reply. is_ok q1 \<and> hm_get cache1 ?a = Some reply")
    case False
    with assms(1) ip en inv show ?thesis
      by (auto simp: reply_send_def target_socket_addr_def is_ok_def split: result.splits option.splits)
  next
    case True
    then obtain reply where reply: "is_ok q1" "hm_get cache1 ?a = Some reply" by blast
    obtain b b' where b: "bind_transparent_reply_socket (tx_sockets tx) ?a b = (Ok (rp_socket reply), b')"
      using inv reply(2) unfolding replies_inv_def by blast
    obtain s w2 where s: "uo_send_to (de_udp (tx_env tx)) (rp_socket reply) payload client w1 = (s, w2)"
      by (cases "uo_send_to (de_udp (tx_env tx)) (rp_socket reply) payload client w1")
    have "replies_inv tx (hm_insert ?a (reply\<lparr>rp_last_used := tx_now tx w2\<rparr>) cache1)"
      by (rule replies_insert) (use inv reply b in \<open>auto simp: hm_contains_def\<close>)
    moreover have "(q, cache') = (case s of Err k \<Rightarrow> (Err k, cache1)
        | Ok sent \<Rightarrow> if sent \<noteq> length payload then (Err WriteZero, cache1)
            else (Ok (), hm_insert ?a (reply\<lparr>rp_last_used := tx_now tx w2\<rparr>) cache1))"
      using assms(1) ip en reply s
      by (auto simp: reply_send_def target_socket_addr_def is_ok_def split: result.splits if_splits)
    ultimately show ?thesis
      using inv ip b s by (cases s) (auto simp: is_ok_def split: if_splits)
  qed
qed

lemma tproxy_inv_receive:
  assumes "tproxy_inv tx st" "hm_get (tp_clients st) c = Some cs"
    and "receive_ready (daemon_ops (tx_env tx)) tok len (cl_routes cs) dw = Some (q, rs, dw')"
  shows "tproxy_inv tx (st\<lparr>tp_clients := hm_insert c (cs\<lparr>cl_routes := rs\<rparr>) (tp_clients st)\<rparr>)"
proof -
  have cl: "clients_inv tx (tp_clients st) (tp_token_clients st) (tp_tokens st)" using assms(1) by (simp add: tproxy_inv_def)
  then have r: "route_inv (daemon_ops (tx_env tx)) OUTBOUND_FIRST_TOKEN (cl_routes cs) (tp_tokens st)"
    "kinds_inv (cl_routes cs)" using assms(2) unfolding clients_inv_def by blast+
  have "wf_map (routes (cl_routes cs))" using r(1) by (simp add: route_inv_def)
  with clients_update [OF cl assms(2), of "cs\<lparr>cl_routes := rs\<rparr>" "tp_tokens st"] paths.route_inv_receive [OF r(1) assms(3)]
    kinds_receive [OF assms(3) r(2)] receive_ready_owned [OF assms(3)] assms(1)
  show ?thesis by (simp add: tproxy_inv_def)
qed

lemma tproxy_inv_route_burst:
  assumes "route_burst n tx tok c st dw = Some (r, st', dw')" "tproxy_inv tx st"
  shows "tproxy_inv tx st'"
  using assms
proof (induction n arbitrary: st dw)
  case (Suc n)
  show ?case
  proof (cases "hm_get (tp_clients st) c")
    case None
    have "clients_inv tx (tp_clients st) (hm_remove tok (tp_token_clients st)) (tp_tokens st)"
      by (rule clients_fewer_tokens [of _ _ "tp_token_clients st"])
        (use Suc.prems(2) in \<open>simp_all add: tproxy_inv_def split: if_splits\<close>)
    with Suc.prems None show ?thesis by (auto simp: tproxy_inv_def)
  next
    case (Some cs)
    then obtain q rs dw1 where q: "receive_ready (daemon_ops (tx_env tx)) tok MAX_PACKET (cl_routes cs) dw = Some (q, rs, dw1)"
      using Suc.prems(1) by (auto split: option.splits)
    let ?st1 = "st\<lparr>tp_clients := hm_insert c (cs\<lparr>cl_routes := rs\<rparr>) (tp_clients st)\<rparr>"
    have inv: "tproxy_inv tx ?st1" by (rule tproxy_inv_receive [OF Suc.prems(2) Some q])
    show ?thesis
    proof (cases "\<exists>rd. q = Ok (Some rd)")
      case False
      with Suc.prems(1) Some q inv show ?thesis by (auto simp: Let_def split: result.splits option.splits)
    next
      case True
      then obtain rd where rd: "q = Ok (Some rd)" ..
      obtain z cache w where s: "reply_send tx (rd_source rd) c (rd_payload rd) (tp_replies st) (snd dw1) = (z, cache, w)"
        by (metis prod_cases3)
      have "replies_inv tx cache" using reply_send_spec [OF s] Suc.prems(2) by (simp add: tproxy_inv_def)
      with inv have i: "tproxy_inv tx (?st1\<lparr>tp_replies := cache\<rparr>)" by (simp add: tproxy_inv_def)
      from Suc.prems(1) Some q rd s
      have "route_burst n tx tok c (if is_ok z then touch_client c (tx_now tx w) (?st1\<lparr>tp_replies := cache\<rparr>)
          else ?st1\<lparr>tp_replies := cache\<rparr>) (fst dw1, w) = Some (r, st', dw')" by (simp add: Let_def)
      from Suc.IH [OF this] i tproxy_inv_touch [OF i] show ?thesis by simp
    qed
  qed
qed simp

lemma tproxy_inv_route_bursts:
  assumes "route_bursts tx ready st dw = Some (r, st', dw')" "tproxy_inv tx st"
  shows "tproxy_inv tx st'"
  using assms
proof (induction tx ready st dw rule: route_bursts.induct)
  case (2 tx tok client ready st dw)
  from 2(2) consider (Err) k where "route_burst MAX_EVENT_BURST tx tok client st dw = Some (Err k, st', dw')"
    | (Ok) st1 dw1 where "route_burst MAX_EVENT_BURST tx tok client st dw = Some (Ok (), st1, dw1)"
        "route_bursts tx ready st1 dw1 = Some (r, st', dw')"
    unfolding route_bursts.simps thenO_Some by blast
  then show ?case
  proof cases
    case (Err k)
    from tproxy_inv_route_burst [OF this 2(3)] show ?thesis .
  next
    case Ok
    from 2(1) [OF Ok(2) tproxy_inv_route_burst [OF Ok(1) 2(3)]] show ?thesis .
  qed
qed simp

lemma tproxy_inv_events:
  assumes "tproxy_events tx listener evs st dw = Some (r, st', dw')" "tproxy_inv tx st"
  shows "tproxy_inv tx st'"
proof -
  let ?now = "tx_now tx (snd dw)"
  let ?st = "(cleanup_idle_clients ?now st)\<lparr>tp_replies := cleanup_expired ?now (tp_replies (cleanup_idle_clients ?now st))\<rparr>"
  let ?b = "if list_ex (\<lambda>ev. ev_token ev = INBOUND_TOKEN \<and> ev_readable ev) evs
    then inbound_burst MAX_EVENT_BURST tx listener ?st dw else Some (Ok (), ?st, dw)"
  have inv: "tproxy_inv tx ?st"
    using tproxy_inv_cleanup [OF assms(2), of ?now] by (simp add: tproxy_inv_def replies_retain)
  have first: "tproxy_inv tx x" if "?b = Some (q, x, y)" for q x y
    using that inv by (auto split: if_splits elim!: tproxy_inv_inbound_burst)
  from assms(1) consider (Err) k where "?b = Some (Err k, st', dw')"
    | (Ok) st1 dw1 ready where "?b = Some (Ok (), st1, dw1)" "route_bursts tx ready st1 dw1 = Some (r, st', dw')"
    unfolding tproxy_events_def Let_def thenO_Some by blast
  then show ?thesis
  proof cases
    case (Err k)
    from first [OF this] show ?thesis .
  next
    case Ok
    from tproxy_inv_route_bursts [OF Ok(2) first [OF Ok(1)]] show ?thesis .
  qed
qed

lemma tproxy_inv_turn:
  assumes "tproxy_turn tx listener st dw = Some (ex, st', dw')" "tproxy_inv tx st"
  shows "tproxy_inv tx st'"
proof -
  obtain q w where q: "de_poll (tx_env tx) (next_client_timeout (tp_clients st) (tx_now tx (snd dw))) (snd dw) = (q, w)"
    by (cases "de_poll (tx_env tx) (next_client_timeout (tp_clients st) (tx_now tx (snd dw))) (snd dw)")
  show ?thesis
  proof (cases q)
    case (Err k)
    with assms q show ?thesis by (auto simp: tproxy_turn_def)
  next
    case (Ok evs)
    with assms(1) q obtain r where "tproxy_events tx listener evs st (fst dw, w) = Some (r, st', dw')"
      by (auto simp: tproxy_turn_def)
    from tproxy_inv_events [OF this assms(2)] show ?thesis .
  qed
qed

section \<open>Properties\<close>

inductive tproxy_run :: "('c, 'w) tproxy_env \<Rightarrow> nat \<Rightarrow> 'c tproxy_state \<Rightarrow> bool"
  for tx :: "('c, 'w) tproxy_env" and listener :: nat where
  start: "tproxy_run tx listener (tproxy_start fid)"
| turn: "tproxy_run tx listener st \<Longrightarrow>
    tproxy_turn tx listener (st\<lparr>tp_next_flow_id := fid\<rparr>) dw = Some (GoOn, st', dw') \<Longrightarrow>
    tproxy_run tx listener st'"

lemma tproxy_run_inv:
  assumes "tproxy_run tx listener st"
  shows "tproxy_inv tx st"
  using assms
proof induction
  case (start fid)
  then show ?case
    by (simp add: tproxy_inv_def tproxy_start_def clients_inv_def replies_inv_def allocator_new_def)
next
  case (turn st fid dw st' dw')
  have "tproxy_inv tx (st\<lparr>tp_next_flow_id := fid\<rparr>)" using turn.IH by (simp add: tproxy_inv_def)
  from tproxy_inv_turn [OF turn.hyps(2) this] show ?case .
qed

lemma owns_token_owned: "owns_token rs tok \<longleftrightarrow> tok \<in> set (owned_tokens rs)"
  by (auto simp: owns_token_def owned_tokens_def list_ex_iff)

text \<open>
  Property C38: the transparent listener never confuses its clients. In every turn it has at most 512
  clients and 256 reply sockets; a readiness token that is recorded for a client belongs to a route
  of that client and of no other, so a datagram received on it is answered to the client that opened
  the route; and no proxy route is served by the DIRECT association.
\<close>

theorem tproxy_clients_separated:
  assumes "tproxy_run tx listener st"
  shows "length (tp_clients st) \<le> 512 \<and> length (tp_replies st) \<le> 256 \<and>
    (\<forall>tok c. hm_get (tp_token_clients st) tok = Some c \<longrightarrow>
      (\<exists>cs. hm_get (tp_clients st) c = Some cs \<and> owns_token (cl_routes cs) tok) \<and>
      (\<forall>c' cs'. hm_get (tp_clients st) c' = Some cs' \<and> owns_token (cl_routes cs') tok \<longrightarrow> c' = c)) \<and>
    (\<forall>c cs. hm_get (tp_clients st) c = Some cs \<longrightarrow> length (routes (cl_routes cs)) \<le> 32 \<and>
      (\<forall>(e, route) \<in> set (routes (cl_routes cs)). own_kind e (dr_execution route)))"
proof -
  have cl: "clients_inv tx (tp_clients st) (tp_token_clients st) (tp_tokens st)" and re: "replies_inv tx (tp_replies st)"
    using tproxy_run_inv [OF assms] by (simp_all add: tproxy_inv_def)
  have "\<exists>cs. hm_get (tp_clients st) c = Some cs \<and> owns_token (cl_routes cs) tok"
    if "hm_get (tp_token_clients st) tok = Some c" for tok c
    using cl that unfolding clients_inv_def owns_token_owned by blast
  moreover have "c' = c"
    if "hm_get (tp_clients st) c = Some cs" "owns_token (cl_routes cs) tok"
      "hm_get (tp_clients st) c' = Some cs'" "owns_token (cl_routes cs') tok" for c c' cs cs' tok
    using cl that unfolding clients_inv_def owns_token_owned by blast
  moreover have "length (routes (cl_routes cs)) \<le> 32 \<and>
      (\<forall>(e, route) \<in> set (routes (cl_routes cs)). own_kind e (dr_execution route))"
    if "hm_get (tp_clients st) c = Some cs" for c cs
    using cl that unfolding clients_inv_def route_inv_def kinds_inv_def MAX_DATAGRAM_ROUTES_def by blast
  moreover have "length (tp_clients st) \<le> 512" "length (tp_replies st) \<le> 256"
    using cl re by (simp_all add: clients_inv_def MAX_CLIENTS_def replies_inv_def MAX_REPLY_SOCKETS_def)
  ultimately show ?thesis by blast
qed

text \<open>
  A transparent reply comes from the address the client talked to. Whatever the state
  of the cache, a reply that is reported as sent left, whole and to the client, through a transparent
  socket bound to exactly the source address of the datagram.
\<close>

theorem tproxy_reply_preserves_source:
  assumes "tproxy_run tx listener st"
    and "reply_send tx source client payload (tp_replies st) w = (Ok (), cache, w')"
  shows "\<exists>ip fd wb wb' ws ws'. t_host source = HIp ip \<and>
    bind_transparent_reply_socket (tx_sockets tx) (socket_addr_new ip (t_port source)) wb = (Ok fd, wb') \<and>
    uo_send_to (de_udp (tx_env tx)) fd payload client ws = (Ok (length payload), ws')"
  using reply_send_spec [OF assms(2)] tproxy_run_inv [OF assms(1)] by (simp add: tproxy_inv_def is_ok_def)

text \<open>
  An error of one route ends the listener: a receive that fails on the first ready token of a batch
  without inbound datagrams makes the loop return that error, for every client.
\<close>

theorem route_error_ends_listener:
  assumes "de_poll (tx_env tx) (next_client_timeout (tp_clients st) (tx_now tx (snd dw))) (snd dw) = (Ok evs, w)"
    and "\<not> list_ex (\<lambda>ev. ev_token ev = INBOUND_TOKEN \<and> ev_readable ev) evs"
    and "cleanup_idle_clients (tx_now tx w) st = st"
    and "List.map_filter (\<lambda>ev. map_option (\<lambda>c. (ev_token ev, c)) (hm_get (tp_token_clients st) (ev_token ev))) evs
      = (tok, c) # rest"
    and "hm_get (tp_clients st) c = Some cs"
    and "receive_ready (daemon_ops (tx_env tx)) tok MAX_PACKET (cl_routes cs) (fst dw, w) = Some (Err k, rs, dw')"
  shows "\<exists>st'. tproxy_loop tx listener st dw = Some (Err k, st', dw')"
proof -
  have "\<exists>st'. tproxy_turn tx listener st dw = Some (Return (Err k), st', dw')"
    using assms by (simp add: tproxy_turn_def tproxy_events_def Let_def thenO_def MAX_EVENT_BURST_def numeral_eq_Suc)
  then show ?thesis by (auto simp: tproxy_loop.simps)
qed

text \<open>
  So does one bad datagram: a message that is truncated, has no original destination or was sent to
  port 0 is refused by \<open>recv_original_datagram\<close>, and the loop returns the error.
\<close>

theorem bad_datagram_ends_listener:
  assumes "de_poll (tx_env tx) (next_client_timeout (tp_clients st) (tx_now tx (snd dw))) (snd dw) = (Ok evs, w)"
    and "list_ex (\<lambda>ev. ev_token ev = INBOUND_TOKEN \<and> ev_readable ev) evs"
    and "tx_recvmsg tx listener w = (Ok m, w')" "accept_message m = Err k"
  shows "\<exists>st'. tproxy_loop tx listener st dw = Some (Err k, st', fst dw, w')"
proof -
  have "\<exists>st'. tproxy_turn tx listener st dw = Some (Return (Err k), st', fst dw, w')"
    using assms
    by (simp add: tproxy_turn_def tproxy_events_def Let_def thenO_def MAX_EVENT_BURST_def numeral_eq_Suc
        recv_original_datagram_def)
  then show ?thesis by (auto simp: tproxy_loop.simps)
qed

lemma accept_message_refuses:
  "um_truncated m \<Longrightarrow> accept_message m = Err InvalidData"
  "um_cmsgs m = Ok [Ipv4OrigDstAddr ip 0] \<Longrightarrow> \<exists>k. accept_message m = Err k"
  by (auto simp: accept_message_def ok_or_def target_new_def split: option.splits)

section \<open>Witnesses\<close>

definition sample_sockets :: "'w socket2_os" where
  "sample_sockets =
     \<lparr>so_new = (\<lambda>_ _ w. (Ok 8, w)), so_reuse_address = (\<lambda>_ w. (Ok (), w)), so_only_v6 = (\<lambda>_ w. (Ok (), w)),
      so_transparent = (\<lambda>_ _ w. (Ok (), w)), so_orig_dst = (\<lambda>_ _ w. (Ok (), w)), so_bind = (\<lambda>_ _ w. (Ok (), w)),
      so_listen = (\<lambda>_ _ w. (Ok (), w)), so_nonblocking = (\<lambda>_ w. (Ok (), w))\<rparr>"

definition sample_tproxy :: "(unit, sample_packets) tproxy_env" where
  "sample_tproxy =
     \<lparr>tx_env = sample_denv [sample_event 0, sample_event 1], tx_sockets = sample_sockets,
      tx_recvmsg = (\<lambda>_ (r, d). case r of
          [] \<Rightarrow> (Err WouldBlock, r, d)
        | p # ps \<Rightarrow> (Ok \<lparr>um_payload = p, um_truncated = False, um_address = Some (SaIn 9 1000),
                       um_cmsgs = Ok [Ipv4OrigDstAddr 9 53]\<rparr>, ps, d)),
      tx_runtime = runtime_new (policy_engine_new [] (PRoute Direct)), tx_outbounds = \<lparr>endpoints = []\<rparr>\<rparr>"

lemma sample_tproxy_run:
  "\<exists>st. tproxy_run sample_tproxy 3 st \<and> hm_get (tp_token_clients st) 1 = Some (SockV4 9 1000) \<and>
    length (tp_replies st) = 1"
proof -
  let ?s0 = "tproxy_start 1"
  have "case tproxy_turn sample_tproxy 3 (?s0\<lparr>tp_next_flow_id := 1\<rparr>) (sample_dns, [[1, 2]], []) of
      Some (ex, st, _) \<Rightarrow> ex = GoOn \<and>
        (case tproxy_turn sample_tproxy 3 (st\<lparr>tp_next_flow_id := 1\<rparr>) (sample_dns, [], [[7]]) of
           Some (ex, st, _) \<Rightarrow> ex = GoOn \<and> hm_get (tp_token_clients st) 1 = Some (SockV4 9 1000) \<and>
             length (tp_replies st) = 1
         | _ \<Rightarrow> False)
    | _ \<Rightarrow> False" by code_simp
  then obtain st1 dw1 st2 dw2 where
    "tproxy_turn sample_tproxy 3 (?s0\<lparr>tp_next_flow_id := 1\<rparr>) (sample_dns, [[1, 2]], []) = Some (GoOn, st1, dw1)"
    "tproxy_turn sample_tproxy 3 (st1\<lparr>tp_next_flow_id := 1\<rparr>) (sample_dns, [], [[7]]) = Some (GoOn, st2, dw2)"
    "hm_get (tp_token_clients st2) 1 = Some (SockV4 9 1000)" "length (tp_replies st2) = 1"
    by (auto split: option.splits)
  with tproxy_run.start [of sample_tproxy 3 1] show ?thesis by (blast intro: tproxy_run.turn)
qed

theorem tproxy_clients_separated_witness:
  "\<exists>st cs. tproxy_run sample_tproxy 3 st \<and> hm_get (tp_clients st) (SockV4 9 1000) = Some cs \<and>
    owns_token (cl_routes cs) 1 \<and> length (tp_clients st) \<le> 512"
proof -
  obtain st where st: "tproxy_run sample_tproxy 3 st" "hm_get (tp_token_clients st) 1 = Some (SockV4 9 1000)"
    using sample_tproxy_run by blast
  from tproxy_clients_separated [OF st(1)] st show ?thesis by blast
qed

theorem tproxy_reply_preserves_source_witness:
  "\<exists>st cache w' fd wb wb'. tproxy_run sample_tproxy 3 st \<and>
    reply_send sample_tproxy \<lparr>t_host = HIp (V4 9), t_port = 53\<rparr> (SockV4 9 1000) [7] (tp_replies st) ([], [])
      = (Ok (), cache, w') \<and>
    bind_transparent_reply_socket sample_sockets (SockV4 9 53) wb = (Ok fd, wb' :: sample_packets)"
proof -
  let ?t = "\<lparr>t_host = HIp (V4 9), t_port = 53\<rparr>"
  have run: "tproxy_run sample_tproxy 3 (tproxy_start 1)" by (rule tproxy_run.start)
  have "fst (reply_send sample_tproxy ?t (SockV4 9 1000) [7] (tp_replies (tproxy_start 1 :: unit tproxy_state)) ([], [])) = Ok ()"
    by code_simp
  then obtain cache w' where r: "reply_send sample_tproxy ?t (SockV4 9 1000) [7]
      (tp_replies (tproxy_start 1 :: unit tproxy_state)) ([], []) = (Ok (), cache, w')"
    by (metis prod.collapse)
  have "tx_sockets sample_tproxy = sample_sockets" "socket_addr_new (V4 9) 53 = SockV4 9 53"
    by (simp_all add: sample_tproxy_def socket_addr_new_def)
  with tproxy_reply_preserves_source [OF run r] run r show ?thesis by fastforce
qed

end
