(* ===== verification/Transparent_Tcp.thy ===== *)
theory Transparent_Tcp
  imports Transparent_Udp
begin

text \<open>
  \<open>crates/daemon/src/transparent_tcp.rs\<close> on Linux and Android: binding the TPROXY listener and
  handling one intercepted connection, whose local address is the original destination.
\<close>

section \<open>Definitions\<close>

definition LISTEN_BACKLOG :: nat where "LISTEN_BACKLOG = 128"

definition bind_tcp_listener :: "'w socket2_os \<Rightarrow> socket_addr \<Rightarrow> 'w \<Rightarrow> (nat, error_kind) result \<times> 'w" where
  "bind_tcp_listener so address =
     bindOs (so_new so (sock_is_ipv4 address) False) (\<lambda>fd.
     bindOs (so_reuse_address so fd) (\<lambda>_.
     bindOs (transparent_options so address fd) (\<lambda>_.
     bindOs (so_bind so fd address) (\<lambda>_.
     bindOs (so_listen so fd LISTEN_BACKLOG) (\<lambda>_ w. (Ok fd, w))))))"

definition target_from_stream :: "(socket_addr, error_kind) result \<Rightarrow> (target, error_kind) result" where
  "target_from_stream local_addr =
     bindR local_addr (\<lambda>original. target_new (HIp (sock_ip original)) (sock_port original))"

definition tproxy_tcp_handle ::
  "('w, 'd) services \<Rightarrow> (socket_addr, error_kind) result \<Rightarrow> stream \<Rightarrow> 'w shared \<Rightarrow> 'w
    \<Rightarrow> (unit, error_kind) result \<times> outcome \<times> stream \<times> 'w shared \<times> 'w" where
  "tproxy_tcp_handle sv local_addr client sh w =
     (case target_from_stream local_addr of
        Err k \<Rightarrow> (Err k, Refused, client, sh, w)
      | Ok t \<Rightarrow>
          (let (action, next_id) = plan_action (sv_runtime sv) t Tcp (sh_next_flow_id sh);
               sh = sh\<lparr>sh_next_flow_id := next_id\<rparr>
           in case action of
                EReject _ \<Rightarrow> (Err PermissionDenied, Refused, client, sh, w)
              | ERoute e \<Rightarrow>
                  (case connect_tcp (sv_os sv) (sv_connect sv) (sv_outbounds sv) e t (sh_dns sh) w of
                     (Err k, dns, w) \<Rightarrow> (Err k, Refused, client, sh\<lparr>sh_dns := dns\<rparr>, w)
                   | (Ok remote, dns, w) \<Rightarrow>
                       (let (r, w) = sv_relay sv remote client w
                        in (r, Opened e remote, client, sh\<lparr>sh_dns := dns\<rparr>, w)))))"

section \<open>Lemmas\<close>

lemma tproxy_session_planned:
  assumes "tproxy_tcp_handle sv local_addr client sh w = (r, Opened e s, client', sh', w')"
  shows "\<exists>t. target_from_stream local_addr = Ok t \<and> session_planned sv t e"
  using assms unfolding tproxy_tcp_handle_def Let_def session_planned_def
  by (auto split: prod.splits execution_action.splits result.splits) (metis fst_conv)+

definition tproxy_requested :: "('w \<Rightarrow> (socket_addr, error_kind) result) \<Rightarrow> stream \<Rightarrow> 'w \<Rightarrow> target option" where
  "tproxy_requested local_addr client w = (case target_from_stream (local_addr w) of Ok t \<Rightarrow> Some t | _ \<Rightarrow> None)"

interpretation tproxy_in: tcp_inbound sv "\<lambda>client sh w. Some (tproxy_tcp_handle sv (local_addr w) client sh w)"
    "tproxy_requested local_addr" for sv local_addr
  by unfold_locales (auto simp: tproxy_requested_def dest!: tproxy_session_planned)

text \<open>A transparent socket is marked transparent before it is bound, so no bind can take a foreign address unmarked.\<close>

lemma bindOs_Ok: "bindOs m f w = (Ok b, w') \<longleftrightarrow> (\<exists>a w1. m w = (Ok a, w1) \<and> f a w1 = (Ok b, w'))"
  by (auto simp: bindOs_def split: prod.splits result.splits)

lemma reply_socket_transparent:
  assumes "bind_transparent_reply_socket so source w = (Ok fd, w')"
  shows "\<exists>w1 w2 w3. so_transparent so (sock_is_ipv4 source) fd w1 = (Ok (), w2) \<and>
    so_bind so fd source w2 = (Ok (), w3)"
  using assms unfolding bind_transparent_reply_socket_def transparent_options_def bindOs_Ok
  by (cases "sock_is_ipv4 source") (simp_all add: bindOs_Ok, metis+)

end
