(* ===== verification/Config.thy ===== *)
theory Config
  imports Trojan_Datagram Blocklist Dot
begin

text \<open>
  \<open>crates/daemon/src/config.rs\<close>: the line-oriented configuration, one definition per
  directive, the checks after the last line, and the store that swaps in accepted candidates. The
  environment gives file sizes and contents, the validity of TLS server names, SHA-224, the
  operating system lookup and DNS-over-TLS resolvers. An error is the line it names, if any, and a
  constructor for its message. Paths are those of Unix.
\<close>

section \<open>Definitions\<close>

definition MAX_CONFIG_BYTES :: nat where "MAX_CONFIG_BYTES = 1024 * 1024"
definition MAX_RULES :: nat where "MAX_RULES = 4096"
definition MAX_LISTENERS :: nat where "MAX_LISTENERS = 16"
definition MAX_BLOCKLISTS :: nat where "MAX_BLOCKLISTS = 8"
definition MAX_HOSTS_FILES :: nat where "MAX_HOSTS_FILES = 4"
definition MAX_PROXY_ENDPOINTS :: nat where "MAX_PROXY_ENDPOINTS = 64"
definition MAX_DNS_RESOLVERS :: nat where "MAX_DNS_RESOLVERS = 8"

datatype listener_protocol = LSocks5 | LHttpConnect | LTproxyTcp | LTproxyUdp

definition is_udp :: "listener_protocol \<Rightarrow> bool" where
  "is_udp p = (p = LTproxyUdp)"

record listener_config =
  l_protocol :: listener_protocol
  l_address :: socket_addr

record blocklist_summary =
  bs_path :: str
  bs_stats :: blocklist_stats

record hosts_summary =
  hs_path :: str
  hs_records :: nat

datatype dns_resolver_summary = SystemSummary | DotSummary socket_addr str

type_synonym config_registry = "trojan_provider outbound_registry"

record 'w compiled_config =
  cc_listeners :: "listener_config list"
  cc_blocklists :: "blocklist_summary list"
  cc_hosts :: "hosts_summary list"
  cc_dns_resolvers :: "dns_resolver_summary list"
  cc_runtime :: runtime
  cc_dns :: "'w dns_engine"
  cc_outbounds :: config_registry

datatype config_message =
    ConfigTooLarge
  | DirectiveSyntax
  | BadVersion | DuplicateVersion
  | DuplicateAllowPublic | BadAllowPublic
  | TooManyListeners | BadListenerProtocol | BadListenerAddress | ListenerPortZero | DuplicateListener
  | TooManyResolvers | DuplicateSystemResolver | BadDotAddress | DotPortZero | DuplicateDot | BadDotTransport
  | ResolverSyntax
  | TooManyEndpoints | EndpointNeedsId | BadEndpointId | DuplicateEndpoint | BadTrojanPassword
  | BadProxyAddress | ProxyPortZero | BadServerName | TrojanSyntax | EndpointSyntax
  | DuplicateDefault | BadAction
  | TooManyBlocklists | TooManyRules | DuplicateBlocklist | BadBlocklist
  | TooManyHostsFiles | DuplicateHosts | BadHosts
  | AssetStat | AssetTooLarge | AssetRead
  | RuleSyntax | BadDomainMatcher | BadIpMatcher | BadCidrMatcher | BadPortMatcher | PortMatcherZero
  | BadTransportMatcher | UnknownMatcher
  | UnknownDirective
  | MissingVersion | NoListeners | PublicListener | MissingDefault | BadRegistry | UndefinedEndpoint | BadDns

record config_error =
  cfg_line :: "nat option"
  cfg_message :: config_message

definition config_error_global :: "config_message \<Rightarrow> config_error" where
  "config_error_global m = \<lparr>cfg_line = None, cfg_message = m\<rparr>"

definition config_error_at :: "nat \<Rightarrow> config_message \<Rightarrow> config_error" where
  "config_error_at ln m = \<lparr>cfg_line = Some ln, cfg_message = m\<rparr>"

record 'w config_env =
  ce_stat :: "str \<Rightarrow> nat option"
  ce_read :: "str \<Rightarrow> str option"
  ce_server_name :: "str \<Rightarrow> bool"
  ce_sha224 :: "bytes \<Rightarrow> bytes"
  ce_lookup :: "str \<Rightarrow> 'w \<Rightarrow> socket_addr list option \<times> 'w"
  ce_dot :: "socket_addr \<Rightarrow> str \<Rightarrow> 'w resolver"

subsection \<open>Assets\<close>

definition path_is_absolute :: "str \<Rightarrow> bool" where
  "path_is_absolute p = starts_with ''/'' p"

definition path_join :: "str \<Rightarrow> str \<Rightarrow> str" where
  "path_join root p =
     (if path_is_absolute p then p
      else if root = [] \<or> last root = CHR ''/'' then root @ p
      else root @ ''/'' @ p)"

text \<open>Two paths are equal when their components are: repeated separators and inner dots do not count.\<close>

definition path_components :: "str \<Rightarrow> bool \<times> str list" where
  "path_components p =
     (let parts = filter (\<lambda>c. c \<noteq> []) (split_on (CHR ''/'') p)
      in (path_is_absolute p,
          if \<not> path_is_absolute p \<and> parts \<noteq> [] \<and> hd parts = ''.''
          then ''.'' # filter (\<lambda>c. c \<noteq> ''.'') parts
          else filter (\<lambda>c. c \<noteq> ''.'') parts))"

definition resolve_asset_path :: "str \<Rightarrow> str \<Rightarrow> str" where
  "resolve_asset_path root value = (if path_is_absolute value then value else path_join root value)"

definition read_bounded_asset ::
  "'w config_env \<Rightarrow> str \<Rightarrow> nat \<Rightarrow> nat \<Rightarrow> (str, config_error) result" where
  "read_bounded_asset env path max_bytes ln =
     bindR (ok_or (config_error_at ln AssetStat) (ce_stat env path)) (\<lambda>len.
     if max_bytes < len then Err (config_error_at ln AssetTooLarge)
     else ok_or (config_error_at ln AssetRead) (ce_read env path))"

definition load_blocklist ::
  "'w config_env \<Rightarrow> str \<Rightarrow> nat \<Rightarrow> (domain_filter \<times> blocklist_stats, config_error) result" where
  "load_blocklist env path ln =
     bindR (read_bounded_asset env path MAX_BLOCKLIST_BYTES ln) (\<lambda>txt.
     bindR (map_err (\<lambda>_. config_error_at ln BadBlocklist) (compile_blocklist txt)) (\<lambda>compiled.
     Ok (cb_filter compiled, cb_stats compiled)))"

definition load_hosts :: "'w config_env \<Rightarrow> str \<Rightarrow> nat \<Rightarrow> (hosts_table, config_error) result" where
  "load_hosts env path ln =
     bindR (read_bounded_asset env path MAX_HOSTS_BYTES ln) (\<lambda>txt.
     map_err (\<lambda>_. config_error_at ln BadHosts) (hosts_parse txt))"

subsection \<open>Fields\<close>

definition expect_fields :: "str list \<Rightarrow> nat \<Rightarrow> nat \<Rightarrow> (unit, config_error) result" where
  "expect_fields fs expected ln =
     (if length fs = expected then Ok () else Err (config_error_at ln DirectiveSyntax))"

definition ensure_rule_capacity :: "nat \<Rightarrow> nat \<Rightarrow> (unit, config_error) result" where
  "ensure_rule_capacity current ln =
     (if current < MAX_RULES then Ok () else Err (config_error_at ln TooManyRules))"

record parsed_action =
  pa_action :: policy_action
  pa_proxy_ref :: "endpoint_id option"

definition parse_action :: "str \<Rightarrow> nat \<Rightarrow> (parsed_action, config_error) result" where
  "parse_action value ln =
     (if value = ''direct'' then Ok \<lparr>pa_action = PRoute Direct, pa_proxy_ref = None\<rparr>
      else if value = ''reject'' then Ok \<lparr>pa_action = PReject RPolicy, pa_proxy_ref = None\<rparr>
      else
        bindR (ok_or (config_error_at ln BadAction) (strip_prefix ''proxy:'' value)) (\<lambda>value.
        bindR (map_err (\<lambda>_. config_error_at ln BadEndpointId) (endpoint_id_new value)) (\<lambda>i.
        Ok \<lparr>pa_action = PRoute (Proxy i), pa_proxy_ref = Some i\<rparr>)))"

definition normalize_matcher_domain :: "str \<Rightarrow> nat \<Rightarrow> (str, config_error) result" where
  "normalize_matcher_domain value ln =
     (let normalized = to_ascii_lowercase (trim_matches (CHR ''.'') value)
      in if normalized = [] \<or> 253 < length normalized then Err (config_error_at ln BadDomainMatcher)
         else Ok normalized)"

definition parse_matcher :: "str list \<Rightarrow> nat \<Rightarrow> (matcher, config_error) result" where
  "parse_matcher fs ln =
     (if fs ! 2 = ''any'' \<and> length fs = 3 then Ok MAny
      else if fs ! 2 = ''domain-exact'' \<and> length fs = 4 then
        bindR (normalize_matcher_domain (fs ! 3) ln) (\<lambda>d. Ok (MDomainExact d))
      else if fs ! 2 = ''domain-suffix'' \<and> length fs = 4 then
        bindR (normalize_matcher_domain (fs ! 3) ln) (\<lambda>d. Ok (MDomainSuffix d))
      else if fs ! 2 = ''ip'' \<and> length fs = 4 then
        bindR (ok_or (config_error_at ln BadIpMatcher) (parse_ip_addr (fs ! 3))) (\<lambda>a. Ok (MIp a))
      else if fs ! 2 = ''cidr'' \<and> length fs = 4 then
        bindR (map_err (\<lambda>_. config_error_at ln BadCidrMatcher) (cidr_from_str (fs ! 3))) (\<lambda>c. Ok (MCidr c))
      else if fs ! 2 = ''port'' \<and> length fs = 4 then
        bindR (ok_or (config_error_at ln BadPortMatcher) (parse_u16 (fs ! 3))) (\<lambda>port.
        if port = 0 then Err (config_error_at ln PortMatcherZero) else Ok (MPort port))
      else if fs ! 2 = ''transport'' \<and> length fs = 4 then
        (if fs ! 3 = ''tcp'' then Ok (MTransport Tcp)
         else if fs ! 3 = ''udp'' then Ok (MTransport Udp)
         else Err (config_error_at ln BadTransportMatcher))
      else Err (config_error_at ln UnknownMatcher))"

record parsed_rule =
  pr_rule :: policy_rule
  pr_proxy_ref :: "endpoint_id option"

definition parse_rule :: "str list \<Rightarrow> nat \<Rightarrow> u64 \<Rightarrow> (parsed_rule, config_error) result" where
  "parse_rule fs ln i =
     (if length fs < 3 then Err (config_error_at ln RuleSyntax)
      else
        bindR (parse_action (fs ! 1) ln) (\<lambda>parsed.
        bindR (parse_matcher fs ln) (\<lambda>m.
        Ok \<lparr>pr_rule = \<lparr>r_id = rule_id_new i, r_tier = UserHard, r_matcher = m, r_action = pa_action parsed\<rparr>,
            pr_proxy_ref = pa_proxy_ref parsed\<rparr>)))"

definition parse_proxy_address :: "str \<Rightarrow> nat \<Rightarrow> (socket_addr, config_error) result" where
  "parse_proxy_address value ln =
     bindR (ok_or (config_error_at ln BadProxyAddress) (parse_socket_addr value)) (\<lambda>address.
     if sock_port address = 0 then Err (config_error_at ln ProxyPortZero) else Ok address)"

definition parse_tls_transport_raw ::
  "'w config_env \<Rightarrow> str \<Rightarrow> str \<Rightarrow> nat \<Rightarrow> (tls_transport, config_error) result" where
  "parse_tls_transport_raw env address server_name ln =
     bindR (parse_proxy_address address ln) (\<lambda>address.
     if ce_server_name env server_name
     then Ok \<lparr>tls_tcp = tcp_transport_new address, tls_server_name = server_name\<rparr>
     else Err (config_error_at ln BadServerName))"

definition parse_tls_transport ::
  "'w config_env \<Rightarrow> str \<Rightarrow> str \<Rightarrow> nat \<Rightarrow> (transport_config, config_error) result" where
  "parse_tls_transport env address server_name ln =
     bindR (parse_tls_transport_raw env address server_name ln) (\<lambda>tls. Ok (TlsConfig tls))"

subsection \<open>Directives\<close>

record 'w config_state =
  st_version_seen :: bool
  st_default_action :: "policy_action option"
  st_allow_public :: "bool option"
  st_listeners :: "listener_config list"
  st_listener_addresses :: "(bool \<times> socket_addr) list"
  st_blocklists :: "blocklist_summary list"
  st_blocklist_paths :: "(bool \<times> str list) list"
  st_hosts :: "hosts_summary list"
  st_hosts_paths :: "(bool \<times> str list) list"
  st_hosts_table :: hosts_table
  st_resolver_summaries :: "dns_resolver_summary list"
  st_resolvers :: "'w resolver list"
  st_resolver_keys :: "str list"
  st_endpoints :: "trojan_provider proxy_endpoint_config list"
  st_endpoint_ids :: "endpoint_id list"
  st_referenced :: "endpoint_id list"
  st_rules :: "policy_rule list"
  st_next_rule_id :: u64

definition config_init :: "'w config_state" where
  "config_init =
     \<lparr>st_version_seen = False, st_default_action = None, st_allow_public = None, st_listeners = [],
      st_listener_addresses = [], st_blocklists = [], st_blocklist_paths = [], st_hosts = [],
      st_hosts_paths = [], st_hosts_table = hosts_default, st_resolver_summaries = [], st_resolvers = [],
      st_resolver_keys = [], st_endpoints = [], st_endpoint_ids = [], st_referenced = [], st_rules = [],
      st_next_rule_id = 1\<rparr>"

definition reference :: "endpoint_id option \<Rightarrow> endpoint_id list \<Rightarrow> endpoint_id list" where
  "reference r ids = (case r of None \<Rightarrow> ids | Some i \<Rightarrow> push_new i ids)"

definition dir_version :: "str list \<Rightarrow> nat \<Rightarrow> 'w config_state \<Rightarrow> ('w config_state, config_error) result" where
  "dir_version fs ln st =
     bindR (expect_fields fs 2 ln) (\<lambda>_.
     if fs ! 1 \<noteq> ''1'' then Err (config_error_at ln BadVersion)
     else if st_version_seen st then Err (config_error_at ln DuplicateVersion)
     else Ok (st\<lparr>st_version_seen := True\<rparr>))"

definition dir_allow_public :: "str list \<Rightarrow> nat \<Rightarrow> 'w config_state \<Rightarrow> ('w config_state, config_error) result" where
  "dir_allow_public fs ln st =
     bindR (expect_fields fs 2 ln) (\<lambda>_.
     if st_allow_public st \<noteq> None then Err (config_error_at ln DuplicateAllowPublic)
     else if fs ! 1 = ''true'' then Ok (st\<lparr>st_allow_public := Some True\<rparr>)
     else if fs ! 1 = ''false'' then Ok (st\<lparr>st_allow_public := Some False\<rparr>)
     else Err (config_error_at ln BadAllowPublic))"

definition parse_listener_protocol :: "str \<Rightarrow> nat \<Rightarrow> (listener_protocol, config_error) result" where
  "parse_listener_protocol s ln =
     (if s = ''socks5'' then Ok LSocks5
      else if s = ''http'' then Ok LHttpConnect
      else if s = ''tproxy-tcp'' then Ok LTproxyTcp
      else if s = ''tproxy-udp'' then Ok LTproxyUdp
      else Err (config_error_at ln BadListenerProtocol))"

definition dir_listen :: "str list \<Rightarrow> nat \<Rightarrow> 'w config_state \<Rightarrow> ('w config_state, config_error) result" where
  "dir_listen fs ln st =
     bindR (expect_fields fs 3 ln) (\<lambda>_.
     if MAX_LISTENERS \<le> length (st_listeners st) then Err (config_error_at ln TooManyListeners)
     else
       bindR (parse_listener_protocol (fs ! 1) ln) (\<lambda>protocol.
       bindR (ok_or (config_error_at ln BadListenerAddress) (parse_socket_addr (fs ! 2))) (\<lambda>address.
       if sock_port address = 0 then Err (config_error_at ln ListenerPortZero)
       else if (is_udp protocol, address) \<in> set (st_listener_addresses st)
       then Err (config_error_at ln DuplicateListener)
       else Ok (st\<lparr>st_listener_addresses := (is_udp protocol, address) # st_listener_addresses st,
                   st_listeners := st_listeners st @ [\<lparr>l_protocol = protocol, l_address = address\<rparr>]\<rparr>))))"

definition show_socket_addr :: "socket_addr \<Rightarrow> str" where
  "show_socket_addr a =
     (case a of
        SockV4 ip port \<Rightarrow> show_ipv4 ip @ '':'' @ show_nat (unat port)
      | SockV6 ip port _ scope \<Rightarrow>
          ''['' @ show_ipv6 ip @ (if scope = 0 then [] else ''%'' @ show_nat (unat scope)) @ '']:'' @
          show_nat (unat port))"

definition dir_resolver ::
  "'w config_env \<Rightarrow> str list \<Rightarrow> nat \<Rightarrow> 'w config_state \<Rightarrow> ('w config_state, config_error) result" where
  "dir_resolver env fs ln st =
     (if MAX_DNS_RESOLVERS \<le> length (st_resolvers st) then Err (config_error_at ln TooManyResolvers)
      else if length fs = 2 \<and> fs ! 1 = ''system'' then
        (if ''system'' \<in> set (st_resolver_keys st) then Err (config_error_at ln DuplicateSystemResolver)
         else Ok (st\<lparr>st_resolver_keys := ''system'' # st_resolver_keys st,
                     st_resolver_summaries := st_resolver_summaries st @ [SystemSummary],
                     st_resolvers := st_resolvers st @ [system_resolver (ce_lookup env)]\<rparr>))
      else if length fs = 4 \<and> fs ! 1 = ''dot'' then
        bindR (ok_or (config_error_at ln BadDotAddress) (parse_socket_addr (fs ! 2))) (\<lambda>address.
        if sock_port address = 0 then Err (config_error_at ln DotPortZero)
        else
          let server_name = to_ascii_lowercase (fs ! 3);
              key = ''dot|'' @ show_socket_addr address @ ''|'' @ server_name
          in if key \<in> set (st_resolver_keys st) then Err (config_error_at ln DuplicateDot)
             else if \<not> ce_server_name env server_name then Err (config_error_at ln BadDotTransport)
             else Ok (st\<lparr>st_resolver_keys := key # st_resolver_keys st,
                         st_resolver_summaries := st_resolver_summaries st @ [DotSummary address server_name],
                         st_resolvers := st_resolvers st @ [ce_dot env address server_name]\<rparr>))
      else Err (config_error_at ln ResolverSyntax))"

definition endpoint_fallback :: "str list \<Rightarrow> nat \<Rightarrow> ('a, config_error) result" where
  "endpoint_fallback fs ln =
     (if 3 \<le> length fs \<and> fs ! 2 = ''trojan'' then Err (config_error_at ln TrojanSyntax)
      else Err (config_error_at ln EndpointSyntax))"

definition plain_protocol :: "str \<Rightarrow> outbound_protocol option" where
  "plain_protocol s =
     (if s = ''socks5'' then Some Socks5Protocol
      else if s = ''http'' then Some HttpConnectProtocol
      else None)"

definition parse_endpoint ::
  "'w config_env \<Rightarrow> str list \<Rightarrow> nat
    \<Rightarrow> (outbound_protocol \<times> trojan_provider option \<times> transport_config, config_error) result" where
  "parse_endpoint env fs ln =
     (case (length fs, plain_protocol (if 3 \<le> length fs then fs ! 2 else [])) of
        (n, Some protocol) \<Rightarrow>
          if n = 4 then
            bindR (parse_proxy_address (fs ! 3) ln) (\<lambda>address.
            Ok (protocol, None, TcpConfig (tcp_transport_new address)))
          else if n = 5 \<and> fs ! 3 = ''tcp'' then
            bindR (parse_proxy_address (fs ! 4) ln) (\<lambda>address.
            Ok (protocol, None, TcpConfig (tcp_transport_new address)))
          else if n = 6 \<and> fs ! 3 = ''tls'' then
            bindR (parse_tls_transport env (fs ! 4) (fs ! 5) ln) (\<lambda>transport. Ok (protocol, None, transport))
          else endpoint_fallback fs ln
      | (n, None) \<Rightarrow>
          if n = 7 \<and> fs ! 2 = ''trojan'' \<and> fs ! 3 = ''tls'' then
            bindR (map_err (\<lambda>_. config_error_at ln BadTrojanPassword) (verifier_new (ce_sha224 env) (fs ! 6)))
              (\<lambda>verifier.
            bindR (parse_tls_transport_raw env (fs ! 4) (fs ! 5) ln) (\<lambda>tls.
            Ok (TrojanProtocol verifier, Some \<lparr>tp_verifier = verifier, tp_transport = tls\<rparr>, TlsConfig tls)))
          else endpoint_fallback fs ln)"

definition dir_endpoint ::
  "'w config_env \<Rightarrow> str list \<Rightarrow> nat \<Rightarrow> 'w config_state \<Rightarrow> ('w config_state, config_error) result" where
  "dir_endpoint env fs ln st =
     (if MAX_PROXY_ENDPOINTS \<le> length (st_endpoints st) then Err (config_error_at ln TooManyEndpoints)
      else
        bindR (ok_or (config_error_at ln EndpointNeedsId) (get fs 1)) (\<lambda>raw.
        bindR (map_err (\<lambda>_. config_error_at ln BadEndpointId) (endpoint_id_new raw)) (\<lambda>i.
        if i \<in> set (st_endpoint_ids st) then Err (config_error_at ln DuplicateEndpoint)
        else
          bindR (parse_endpoint env fs ln) (\<lambda>(protocol, datagram, transport).
          Ok (st\<lparr>st_endpoint_ids := i # st_endpoint_ids st,
                 st_endpoints := st_endpoints st @
                   [\<lparr>pe_id = i, pe_protocol = protocol, pe_datagram = datagram, pe_transport = transport\<rparr>]\<rparr>)))))"

definition dir_default :: "str list \<Rightarrow> nat \<Rightarrow> 'w config_state \<Rightarrow> ('w config_state, config_error) result" where
  "dir_default fs ln st =
     bindR (expect_fields fs 2 ln) (\<lambda>_.
     if st_default_action st \<noteq> None then Err (config_error_at ln DuplicateDefault)
     else
       bindR (parse_action (fs ! 1) ln) (\<lambda>parsed.
       Ok (st\<lparr>st_referenced := reference (pa_proxy_ref parsed) (st_referenced st),
              st_default_action := Some (pa_action parsed)\<rparr>)))"

definition dir_blocklist ::
  "'w config_env \<Rightarrow> str \<Rightarrow> str list \<Rightarrow> nat \<Rightarrow> 'w config_state \<Rightarrow> ('w config_state, config_error) result" where
  "dir_blocklist env asset_root fs ln st =
     bindR (expect_fields fs 2 ln) (\<lambda>_.
     if MAX_BLOCKLISTS \<le> length (st_blocklists st) then Err (config_error_at ln TooManyBlocklists)
     else
       bindR (ensure_rule_capacity (length (st_rules st)) ln) (\<lambda>_.
       let source = resolve_asset_path asset_root (fs ! 1)
       in if path_components source \<in> set (st_blocklist_paths st)
          then Err (config_error_at ln DuplicateBlocklist)
          else
            bindR (load_blocklist env source ln) (\<lambda>(filt, stats).
            Ok (st\<lparr>st_blocklist_paths := path_components source # st_blocklist_paths st,
                   st_rules := st_rules st @
                     [\<lparr>r_id = rule_id_new (st_next_rule_id st), r_tier = UserHard,
                       r_matcher = MDomainFilter filt, r_action = PReject RPolicy\<rparr>],
                   st_next_rule_id := st_next_rule_id st + 1,
                   st_blocklists := st_blocklists st @ [\<lparr>bs_path = source, bs_stats = stats\<rparr>]\<rparr>))))"

definition dir_hosts ::
  "'w config_env \<Rightarrow> str \<Rightarrow> str list \<Rightarrow> nat \<Rightarrow> 'w config_state \<Rightarrow> ('w config_state, config_error) result" where
  "dir_hosts env asset_root fs ln st =
     bindR (expect_fields fs 2 ln) (\<lambda>_.
     if MAX_HOSTS_FILES \<le> length (st_hosts st) then Err (config_error_at ln TooManyHostsFiles)
     else
       let source = resolve_asset_path asset_root (fs ! 1)
       in if path_components source \<in> set (st_hosts_paths st) then Err (config_error_at ln DuplicateHosts)
          else
            bindR (load_hosts env source ln) (\<lambda>table.
            Ok (st\<lparr>st_hosts_paths := path_components source # st_hosts_paths st,
                   st_hosts_table := hosts_merge (st_hosts_table st) table,
                   st_hosts := st_hosts st @ [\<lparr>hs_path = source, hs_records = hosts_len table\<rparr>]\<rparr>)))"

definition dir_rule :: "str list \<Rightarrow> nat \<Rightarrow> 'w config_state \<Rightarrow> ('w config_state, config_error) result" where
  "dir_rule fs ln st =
     bindR (ensure_rule_capacity (length (st_rules st)) ln) (\<lambda>_.
     bindR (parse_rule fs ln (st_next_rule_id st)) (\<lambda>parsed.
     Ok (st\<lparr>st_referenced := reference (pr_proxy_ref parsed) (st_referenced st),
            st_rules := st_rules st @ [pr_rule parsed],
            st_next_rule_id := st_next_rule_id st + 1\<rparr>)))"

definition directive ::
  "'w config_env \<Rightarrow> str \<Rightarrow> str list \<Rightarrow> nat \<Rightarrow> 'w config_state \<Rightarrow> ('w config_state, config_error) result" where
  "directive env asset_root fs ln st =
     (case fs of
        [] \<Rightarrow> Ok st
      | d # _ \<Rightarrow>
          if d = ''version'' then dir_version fs ln st
          else if d = ''allow-public-listen'' then dir_allow_public fs ln st
          else if d = ''listen'' then dir_listen fs ln st
          else if d = ''resolver'' then dir_resolver env fs ln st
          else if d = ''endpoint'' then dir_endpoint env fs ln st
          else if d = ''default'' then dir_default fs ln st
          else if d = ''blocklist'' then dir_blocklist env asset_root fs ln st
          else if d = ''hosts'' then dir_hosts env asset_root fs ln st
          else if d = ''rule'' then dir_rule fs ln st
          else Err (config_error_at ln UnknownDirective))"

definition line_fields :: "str \<Rightarrow> str list" where
  "line_fields raw_line =
     (let stripped = trim (hd (split_on (CHR ''#'') raw_line))
      in if stripped = [] then [] else split_whitespace stripped)"

fun config_loop ::
  "'w config_env \<Rightarrow> str \<Rightarrow> str list \<Rightarrow> nat \<Rightarrow> 'w config_state \<Rightarrow> ('w config_state, config_error) result" where
  "config_loop env asset_root [] index st = Ok st"
| "config_loop env asset_root (raw_line # rest) index st =
     bindR (directive env asset_root (line_fields raw_line) (index + 1) st) (\<lambda>st.
     config_loop env asset_root rest (index + 1) st)"

subsection \<open>The compiled configuration\<close>

fun is_loopback :: "ip_addr \<Rightarrow> bool" where
  "is_loopback (V4 a) = (v4_octets a ! 0 = 127)"
| "is_loopback (V6 a) = (a = 1)"

definition config_dns ::
  "'w config_env \<Rightarrow> 'w config_state \<Rightarrow> ('w dns_engine \<times> dns_resolver_summary list, config_error) result" where
  "config_dns env st =
     (if st_resolvers st = [] then Ok (engine_system (ce_lookup env) (st_hosts_table st), [SystemSummary])
      else
        bindR (map_err (\<lambda>_. config_error_global BadDns)
          (with_resolvers (st_hosts_table st) (st_resolvers st) DEFAULT_CACHE_CAPACITY DEFAULT_CACHE_TTL)) (\<lambda>dns.
        Ok (dns, st_resolver_summaries st)))"

definition finish_config ::
  "'w config_env \<Rightarrow> 'w config_state \<Rightarrow> ('w compiled_config, config_error) result" where
  "finish_config env st =
     (if \<not> st_version_seen st then Err (config_error_global MissingVersion)
      else if st_listeners st = [] then Err (config_error_global NoListeners)
      else if st_allow_public st \<noteq> Some True \<and>
        list_ex (\<lambda>l. \<not> is_loopback (sock_ip (l_address l))) (st_listeners st)
      then Err (config_error_global PublicListener)
      else
        bindR (ok_or (config_error_global MissingDefault) (st_default_action st)) (\<lambda>default_action.
        bindR (map_err (\<lambda>_. config_error_global BadRegistry) (registry_new (st_endpoints st))) (\<lambda>outbounds.
        if list_ex (\<lambda>i. \<not> registry_contains outbounds i) (st_referenced st)
        then Err (config_error_global UndefinedEndpoint)
        else
          bindR (config_dns env st) (\<lambda>(dns, summaries).
          Ok \<lparr>cc_listeners = st_listeners st, cc_blocklists = st_blocklists st, cc_hosts = st_hosts st,
              cc_dns_resolvers = summaries,
              cc_runtime = runtime_new (policy_engine_new (st_rules st) default_action),
              cc_dns = dns, cc_outbounds = outbounds\<rparr>))))"

definition parse_config_at ::
  "'w config_env \<Rightarrow> str \<Rightarrow> str \<Rightarrow> ('w compiled_config, config_error) result" where
  "parse_config_at env txt asset_root =
     (if MAX_CONFIG_BYTES < length txt then Err (config_error_global ConfigTooLarge)
      else bindR (config_loop env asset_root (lines txt) 0 config_init) (\<lambda>st. finish_config env st))"

definition parse_config :: "'w config_env \<Rightarrow> str \<Rightarrow> ('w compiled_config, config_error) result" where
  "parse_config env txt = parse_config_at env txt ''.''"

subsection \<open>The store\<close>

text \<open>The lock is never poisoned: the release profile aborts the process on a panic.\<close>

record 'w config_store =
  cst_active :: "'w compiled_config"
  cst_asset_root :: str

definition store_new_at :: "'w config_env \<Rightarrow> str \<Rightarrow> str \<Rightarrow> ('w config_store, config_error) result" where
  "store_new_at env txt asset_root =
     bindR (parse_config_at env txt asset_root) (\<lambda>c. Ok \<lparr>cst_active = c, cst_asset_root = asset_root\<rparr>)"

definition reload ::
  "'w config_env \<Rightarrow> str \<Rightarrow> 'w config_store \<Rightarrow> (unit, config_error) result \<times> 'w config_store" where
  "reload env txt s =
     (case parse_config_at env txt (cst_asset_root s) of
        Err e \<Rightarrow> (Err e, s)
      | Ok candidate \<Rightarrow> (Ok (), s\<lparr>cst_active := candidate\<rparr>))"

definition snapshot :: "'w config_store \<Rightarrow> 'w compiled_config" where
  "snapshot s = cst_active s"

section \<open>What an accepted directive changed\<close>

lemma expect_fields_Ok [simp]: "expect_fields fs n ln = Ok u \<longleftrightarrow> length fs = n"
  by (simp add: expect_fields_def)

lemma ensure_rule_capacity_Ok [simp]: "ensure_rule_capacity n ln = Ok u \<longleftrightarrow> n < MAX_RULES"
  by (simp add: ensure_rule_capacity_def)

lemma dir_version_Ok: "dir_version fs ln st = Ok st' \<Longrightarrow> st' = st\<lparr>st_version_seen := True\<rparr>"
  by (auto simp: dir_version_def split: if_splits)

lemma dir_allow_public_Ok:
  "dir_allow_public fs ln st = Ok st' \<Longrightarrow>
    \<exists>b. st' = st\<lparr>st_allow_public := Some b\<rparr> \<and> length fs = 2 \<and> (b \<longrightarrow> fs ! 1 = ''true'')"
  by (auto simp: dir_allow_public_def split: if_splits)

lemma dir_listen_Ok:
  "dir_listen fs ln st = Ok st' \<Longrightarrow>
    \<exists>p a. st' = st\<lparr>st_listener_addresses := (is_udp p, a) # st_listener_addresses st,
                   st_listeners := st_listeners st @ [\<lparr>l_protocol = p, l_address = a\<rparr>]\<rparr> \<and>
      length (st_listeners st) < MAX_LISTENERS \<and> sock_port a \<noteq> 0 \<and>
      (is_udp p, a) \<notin> set (st_listener_addresses st)"
  by (auto simp: dir_listen_def split: if_splits)

lemma dir_resolver_Ok:
  "dir_resolver env fs ln st = Ok st' \<Longrightarrow>
    \<exists>k s r. st' = st\<lparr>st_resolver_keys := k # st_resolver_keys st,
                     st_resolver_summaries := st_resolver_summaries st @ [s],
                     st_resolvers := st_resolvers st @ [r]\<rparr> \<and>
      length (st_resolvers st) < MAX_DNS_RESOLVERS \<and> k \<notin> set (st_resolver_keys st)"
  by (auto simp: dir_resolver_def Let_def split: if_splits)

lemma parse_endpoint_tls:
  "parse_endpoint env fs ln = Ok (protocol, datagram, transport) \<Longrightarrow>
    (requires_tls (protocol_caps protocol) \<longrightarrow> is_tls transport) \<and>
    (datagram \<noteq> None \<longleftrightarrow> requires_tls (protocol_caps protocol))"
  by (auto simp: parse_endpoint_def plain_protocol_def endpoint_fallback_def
      split: if_splits option.splits)

lemma dir_endpoint_Ok:
  assumes "dir_endpoint env fs ln st = Ok st'"
  shows "\<exists>i protocol datagram transport.
      st' = st\<lparr>st_endpoint_ids := i # st_endpoint_ids st,
               st_endpoints := st_endpoints st @
                 [\<lparr>pe_id = i, pe_protocol = protocol, pe_datagram = datagram, pe_transport = transport\<rparr>]\<rparr> \<and>
      length (st_endpoints st) < MAX_PROXY_ENDPOINTS \<and> i \<notin> set (st_endpoint_ids st) \<and>
      (requires_tls (protocol_caps protocol) \<longrightarrow> is_tls transport)"
proof -
  obtain i protocol datagram transport where p: "parse_endpoint env fs ln = Ok (protocol, datagram, transport)"
    and st': "st' = st\<lparr>st_endpoint_ids := i # st_endpoint_ids st,
               st_endpoints := st_endpoints st @
                 [\<lparr>pe_id = i, pe_protocol = protocol, pe_datagram = datagram, pe_transport = transport\<rparr>]\<rparr>"
    and "length (st_endpoints st) < MAX_PROXY_ENDPOINTS" "i \<notin> set (st_endpoint_ids st)"
    using assms by (auto simp: dir_endpoint_def split: if_splits)
  with parse_endpoint_tls [OF p] show ?thesis by blast
qed

lemma dir_default_Ok:
  "dir_default fs ln st = Ok st' \<Longrightarrow>
    \<exists>p. st' = st\<lparr>st_referenced := reference (pa_proxy_ref p) (st_referenced st),
                 st_default_action := Some (pa_action p)\<rparr> \<and>
      parse_action (fs ! 1) ln = Ok p \<and> length fs = 2 \<and> st_default_action st = None"
  by (auto simp: dir_default_def split: if_splits)

lemma dir_blocklist_Ok:
  "dir_blocklist env asset_root fs ln st = Ok st' \<Longrightarrow>
    \<exists>filt stats. st' = st\<lparr>
          st_blocklist_paths := path_components (resolve_asset_path asset_root (fs ! 1)) # st_blocklist_paths st,
          st_rules := st_rules st @ [\<lparr>r_id = rule_id_new (st_next_rule_id st), r_tier = UserHard,
            r_matcher = MDomainFilter filt, r_action = PReject RPolicy\<rparr>],
          st_next_rule_id := st_next_rule_id st + 1,
          st_blocklists := st_blocklists st @
            [\<lparr>bs_path = resolve_asset_path asset_root (fs ! 1), bs_stats = stats\<rparr>]\<rparr> \<and>
      load_blocklist env (resolve_asset_path asset_root (fs ! 1)) ln = Ok (filt, stats) \<and> length fs = 2 \<and>
      length (st_rules st) < MAX_RULES \<and> length (st_blocklists st) < MAX_BLOCKLISTS"
  by (auto simp: dir_blocklist_def Let_def split: if_splits)

lemma dir_hosts_Ok:
  "dir_hosts env asset_root fs ln st = Ok st' \<Longrightarrow>
    \<exists>table. st' = st\<lparr>
          st_hosts_paths := path_components (resolve_asset_path asset_root (fs ! 1)) # st_hosts_paths st,
          st_hosts_table := hosts_merge (st_hosts_table st) table,
          st_hosts := st_hosts st @
            [\<lparr>hs_path = resolve_asset_path asset_root (fs ! 1), hs_records = hosts_len table\<rparr>]\<rparr> \<and>
      length (st_hosts st) < MAX_HOSTS_FILES"
  by (auto simp: dir_hosts_def Let_def split: if_splits)

lemma dir_rule_Ok:
  "dir_rule fs ln st = Ok st' \<Longrightarrow>
    \<exists>p. st' = st\<lparr>st_referenced := reference (pr_proxy_ref p) (st_referenced st),
                 st_rules := st_rules st @ [pr_rule p], st_next_rule_id := st_next_rule_id st + 1\<rparr> \<and>
      parse_rule fs ln (st_next_rule_id st) = Ok p \<and> length (st_rules st) < MAX_RULES"
  by (auto simp: dir_rule_def)

lemmas dir_Ok = dir_version_Ok dir_allow_public_Ok dir_listen_Ok dir_resolver_Ok dir_endpoint_Ok
  dir_default_Ok dir_blocklist_Ok dir_hosts_Ok dir_rule_Ok

lemma directive_cases:
  assumes "directive env asset_root fs ln st = Ok st'"
  obtains "fs = []" "st' = st"
  | rest where "fs = ''version'' # rest" "dir_version fs ln st = Ok st'"
  | rest where "fs = ''allow-public-listen'' # rest" "dir_allow_public fs ln st = Ok st'"
  | rest where "fs = ''listen'' # rest" "dir_listen fs ln st = Ok st'"
  | rest where "fs = ''resolver'' # rest" "dir_resolver env fs ln st = Ok st'"
  | rest where "fs = ''endpoint'' # rest" "dir_endpoint env fs ln st = Ok st'"
  | rest where "fs = ''default'' # rest" "dir_default fs ln st = Ok st'"
  | rest where "fs = ''blocklist'' # rest" "dir_blocklist env asset_root fs ln st = Ok st'"
  | rest where "fs = ''hosts'' # rest" "dir_hosts env asset_root fs ln st = Ok st'"
  | rest where "fs = ''rule'' # rest" "dir_rule fs ln st = Ok st'"
  using assms unfolding directive_def by (cases fs) (simp_all split: if_splits)

text \<open>An invariant that every accepted line preserves holds after the loop.\<close>

lemma config_loop_inv:
  assumes "config_loop env asset_root ls k st = Ok st'" "P pre st"
    and "\<And>pre raw ln st st'. P pre st \<Longrightarrow> directive env asset_root (line_fields raw) ln st = Ok st' \<Longrightarrow>
      P (pre @ [raw]) st'"
  shows "P (pre @ ls) st'"
  using assms(1,2)
proof (induction ls arbitrary: k st pre)
  case (Cons raw ls)
  obtain st1 where d: "directive env asset_root (line_fields raw) (k + 1) st = Ok st1"
    and rest: "config_loop env asset_root ls (k + 1) st1 = Ok st'"
    using Cons.prems(1) by auto
  from Cons.IH [OF rest assms(3) [OF Cons.prems(2) d]] show ?case by simp
qed simp

section \<open>The policy a text says\<close>

text \<open>The matcher and action a line adds to the policy, and the default a line sets.\<close>

definition line_policy :: "'w config_env \<Rightarrow> str \<Rightarrow> str \<Rightarrow> (matcher \<times> policy_action) option" where
  "line_policy env asset_root raw =
     (case line_fields raw of
        [] \<Rightarrow> None
      | d # rest \<Rightarrow>
          if d = ''rule'' then
            (case parse_rule (d # rest) 0 0 of
               Ok p \<Rightarrow> Some (r_matcher (pr_rule p), r_action (pr_rule p)) | Err _ \<Rightarrow> None)
          else if d = ''blocklist'' then
            (case load_blocklist env (resolve_asset_path asset_root ((d # rest) ! 1)) 0 of
               Ok (filt, _) \<Rightarrow> Some (MDomainFilter filt, PReject RPolicy) | Err _ \<Rightarrow> None)
          else None)"

definition line_default :: "str \<Rightarrow> policy_action option" where
  "line_default raw =
     (case line_fields raw of
        [] \<Rightarrow> None
      | d # rest \<Rightarrow>
          if d = ''default'' then
            (case parse_action ((d # rest) ! 1) 0 of Ok p \<Rightarrow> Some (pa_action p) | Err _ \<Rightarrow> None)
          else None)"

definition text_rules :: "'w config_env \<Rightarrow> str \<Rightarrow> str list \<Rightarrow> (matcher \<times> policy_action) list" where
  "text_rules env asset_root ls = List.map_filter (line_policy env asset_root) ls"

definition text_default :: "str list \<Rightarrow> policy_action option" where
  "text_default ls = (case List.map_filter line_default ls of [] \<Rightarrow> None | a # _ \<Rightarrow> Some a)"

text \<open>The line number only enters the errors.\<close>

fun okR :: "('a, 'e) result \<Rightarrow> 'a option" where
  "okR (Ok x) = Some x"
| "okR (Err e) = None"

lemma okR_simps [simp]:
  "okR (bindR r f) = Option.bind (okR r) (\<lambda>x. okR (f x))"
  "okR (if b then r else r') = (if b then okR r else okR r')"
  "okR (ok_or e x) = x"
  "okR (map_err g r) = okR r"
  by (cases r; simp add: map_err_def ok_or_def split: option.split)+

lemma okR_eq_Some [simp]: "okR r = Some x \<longleftrightarrow> r = Ok x"
  by (cases r) auto

lemma okR_ln: "okR (f ln) = okR (f ln') \<Longrightarrow> f ln = Ok x \<Longrightarrow> f ln' = Ok x"
  by (metis okR_eq_Some)

lemma parse_action_ln: "parse_action v ln = Ok p \<Longrightarrow> parse_action v ln' = Ok p"
proof (rule okR_ln [of "parse_action v"])
  show "okR (parse_action v ln) = okR (parse_action v ln')"
    unfolding parse_action_def okR_simps okR.simps ..
qed

lemma parse_action_ref: "parse_action v ln = Ok p \<Longrightarrow> pa_action p = PRoute (Proxy i) \<Longrightarrow> pa_proxy_ref p = Some i"
  by (auto simp: parse_action_def split: if_splits)

lemma normalize_matcher_domain_ln: "okR (normalize_matcher_domain v ln) = okR (normalize_matcher_domain v ln')"
  by (simp add: normalize_matcher_domain_def Let_def)

lemma parse_matcher_ln: "parse_matcher fs ln = Ok m \<Longrightarrow> parse_matcher fs ln' = Ok m"
proof (rule okR_ln [of "parse_matcher fs"])
  show "okR (parse_matcher fs ln) = okR (parse_matcher fs ln')"
    unfolding parse_matcher_def okR_simps okR.simps normalize_matcher_domain_ln [of _ ln ln'] ..
qed

lemma parse_rule_Ok:
  assumes "parse_rule fs ln i = Ok p"
  shows "\<exists>q. parse_rule fs 0 0 = Ok q \<and> r_matcher (pr_rule q) = r_matcher (pr_rule p) \<and>
      r_action (pr_rule q) = r_action (pr_rule p)"
    and "r_id (pr_rule p) = RuleId i" "r_tier (pr_rule p) = UserHard"
    and "r_action (pr_rule p) = PRoute (Proxy e) \<Longrightarrow> pr_proxy_ref p = Some e"
proof -
  obtain a m where a: "parse_action (fs ! 1) ln = Ok a" and m: "parse_matcher fs ln = Ok m"
    and p: "p = \<lparr>pr_rule = \<lparr>r_id = rule_id_new i, r_tier = UserHard, r_matcher = m, r_action = pa_action a\<rparr>,
      pr_proxy_ref = pa_proxy_ref a\<rparr>" and len: "\<not> length fs < 3"
    using assms by (auto simp: parse_rule_def split: if_splits)
  show "\<exists>q. parse_rule fs 0 0 = Ok q \<and> r_matcher (pr_rule q) = r_matcher (pr_rule p) \<and>
      r_action (pr_rule q) = r_action (pr_rule p)"
    using len p parse_action_ln [OF a, of 0] parse_matcher_ln [OF m, of 0] by (simp add: parse_rule_def)
  show "r_id (pr_rule p) = RuleId i" "r_tier (pr_rule p) = UserHard"
    by (simp_all add: p rule_id_new_def)
  show "r_action (pr_rule p) = PRoute (Proxy e) \<Longrightarrow> pr_proxy_ref p = Some e"
    using parse_action_ref [OF a] by (simp add: p)
qed

lemma load_blocklist_ln: "load_blocklist env path ln = Ok r \<Longrightarrow> load_blocklist env path ln' = Ok r"
proof (rule okR_ln [of "load_blocklist env path"])
  show "okR (load_blocklist env path ln) = okR (load_blocklist env path ln')"
    unfolding load_blocklist_def read_bounded_asset_def okR_simps okR.simps ..
qed

lemma map_filter_snoc: "List.map_filter f (xs @ [x]) = List.map_filter f xs @ (case f x of None \<Rightarrow> [] | Some y \<Rightarrow> [y])"
  by (simp add: List.map_filter_def split: option.split)

lemma set_reference: "set (reference r ids) = set ids \<union> set_option r"
  by (auto simp: reference_def split: option.splits)

definition policy_inv :: "'w config_env \<Rightarrow> str \<Rightarrow> str list \<Rightarrow> 'w config_state \<Rightarrow> bool" where
  "policy_inv env asset_root ls st \<longleftrightarrow>
     map (\<lambda>r. (r_matcher r, r_action r)) (st_rules st) = text_rules env asset_root ls \<and>
     list_all (\<lambda>r. r_tier r = UserHard) (st_rules st) \<and> length (st_rules st) \<le> MAX_RULES \<and>
     map r_id (st_rules st) = map (\<lambda>n. RuleId (of_nat n)) [1..<Suc (length (st_rules st))] \<and>
     st_next_rule_id st = of_nat (Suc (length (st_rules st)))"

definition default_inv :: "str list \<Rightarrow> 'w config_state \<Rightarrow> bool" where
  "default_inv ls st \<longleftrightarrow> st_default_action st = text_default ls"

definition refs_inv :: "'w config_state \<Rightarrow> bool" where
  "refs_inv st \<longleftrightarrow>
     (\<forall>r \<in> set (st_rules st). \<forall>i. r_action r = PRoute (Proxy i) \<longrightarrow> i \<in> set (st_referenced st)) \<and>
     (\<forall>i. st_default_action st = Some (PRoute (Proxy i)) \<longrightarrow> i \<in> set (st_referenced st))"

lemma policy_inv_step:
  assumes "policy_inv env asset_root pre st" "directive env asset_root (line_fields raw) ln st = Ok st'"
  shows "policy_inv env asset_root (pre @ [raw]) st'"
proof -
  have frame: "policy_inv env asset_root (pre @ [raw]) s"
    if "st_rules s = st_rules st" "st_next_rule_id s = st_next_rule_id st" "line_policy env asset_root raw = None" for s
    using assms(1) that by (simp add: policy_inv_def text_rules_def map_filter_snoc)
  have added: "policy_inv env asset_root (pre @ [raw]) s"
    if "st_rules s = st_rules st @ [r]" "st_next_rule_id s = st_next_rule_id st + 1"
      "line_policy env asset_root raw = Some (r_matcher r, r_action r)" "r_tier r = UserHard"
      "r_id r = RuleId (st_next_rule_id st)" "length (st_rules st) < MAX_RULES" for r s
    using assms(1) that by (simp add: policy_inv_def text_rules_def map_filter_snoc)
  from assms(2) show ?thesis
  proof (cases rule: directive_cases)
    case (8 rest)
    then obtain filt stats where st': "st' = st\<lparr>
          st_blocklist_paths := path_components (resolve_asset_path asset_root (line_fields raw ! 1)) # st_blocklist_paths st,
          st_rules := st_rules st @ [\<lparr>r_id = rule_id_new (st_next_rule_id st), r_tier = UserHard,
            r_matcher = MDomainFilter filt, r_action = PReject RPolicy\<rparr>],
          st_next_rule_id := st_next_rule_id st + 1,
          st_blocklists := st_blocklists st @
            [\<lparr>bs_path = resolve_asset_path asset_root (line_fields raw ! 1), bs_stats = stats\<rparr>]\<rparr>"
      and l: "load_blocklist env (resolve_asset_path asset_root (line_fields raw ! 1)) ln = Ok (filt, stats)"
      and "length (st_rules st) < MAX_RULES"
      using dir_blocklist_Ok by blast
    with 8(1) load_blocklist_ln [OF l, of 0] show ?thesis
      by (intro added [where r = "last (st_rules st')"]) (simp_all add: line_policy_def rule_id_new_def)
  next
    case (10 rest)
    then obtain p where p: "st' = st\<lparr>st_referenced := reference (pr_proxy_ref p) (st_referenced st),
                 st_rules := st_rules st @ [pr_rule p], st_next_rule_id := st_next_rule_id st + 1\<rparr>"
      "parse_rule (line_fields raw) ln (st_next_rule_id st) = Ok p" "length (st_rules st) < MAX_RULES"
      using dir_rule_Ok by blast
    show ?thesis
      using parse_rule_Ok [OF p(2)] p(1,3) 10(1)
      by (intro added [where r = "pr_rule p"]) (auto simp: line_policy_def)
  qed (auto simp: line_policy_def dest!: dir_Ok intro!: frame)
qed

lemma default_inv_step:
  assumes "default_inv pre st" "directive env asset_root (line_fields raw) ln st = Ok st'"
  shows "default_inv (pre @ [raw]) st'"
proof -
  have frame: "default_inv (pre @ [raw]) s"
    if "st_default_action s = st_default_action st" "line_default raw = None" for s :: "'a config_state"
    using assms(1) that by (simp add: default_inv_def text_default_def map_filter_snoc)
  from assms(2) show ?thesis
  proof (cases rule: directive_cases)
    case (7 rest)
    then obtain p where p: "st' = st\<lparr>st_referenced := reference (pa_proxy_ref p) (st_referenced st),
                 st_default_action := Some (pa_action p)\<rparr>" "parse_action (line_fields raw ! 1) ln = Ok p"
      "st_default_action st = None"
      using dir_default_Ok by blast
    have "line_default raw = Some (pa_action p)"
      using 7(1) parse_action_ln [OF p(2), of 0] by (simp add: line_default_def)
    moreover have "List.map_filter line_default pre = []"
      using assms(1) p(3) by (simp add: default_inv_def text_default_def split: list.splits)
    ultimately show ?thesis using p(1) by (simp add: default_inv_def text_default_def map_filter_snoc)
  qed (auto simp: line_default_def dest!: dir_Ok intro!: frame)
qed

lemma refs_inv_step:
  assumes "refs_inv st" "directive env asset_root fs ln st = Ok st'"
  shows "refs_inv st'"
proof -
  have frame: "refs_inv s"
    if "st_rules s = st_rules st" "st_default_action s = st_default_action st" "st_referenced s = st_referenced st" for s
    using assms(1) that by (simp add: refs_inv_def)
  from assms(2) show ?thesis
  proof (cases rule: directive_cases)
    case (7 rest)
    with assms(1) show ?thesis
      by (auto simp: refs_inv_def set_reference dest!: dir_default_Ok dest: parse_action_ref)
  next
    case (8 rest)
    with assms(1) show ?thesis by (auto simp: refs_inv_def dest!: dir_blocklist_Ok)
  next
    case (10 rest)
    with assms(1) show ?thesis
      by (auto simp: refs_inv_def set_reference dest!: dir_rule_Ok dest: parse_rule_Ok(4))
  qed (auto dest!: dir_Ok intro!: frame)
qed

section \<open>Listeners and limits\<close>

definition listener_key :: "listener_config \<Rightarrow> bool \<times> socket_addr" where
  "listener_key l = (is_udp (l_protocol l), l_address l)"

definition says_public :: "str \<Rightarrow> bool" where
  "says_public raw \<longleftrightarrow> line_fields raw = [''allow-public-listen'', ''true'']"

definition listener_inv :: "str list \<Rightarrow> 'w config_state \<Rightarrow> bool" where
  "listener_inv ls st \<longleftrightarrow>
     length (st_listeners st) \<le> MAX_LISTENERS \<and> distinct (map listener_key (st_listeners st)) \<and>
     set (st_listener_addresses st) = listener_key ` set (st_listeners st) \<and>
     (\<forall>l \<in> set (st_listeners st). sock_port (l_address l) \<noteq> 0) \<and>
     (st_allow_public st = Some True \<longrightarrow> list_ex says_public ls)"

definition limits_inv :: "'w config_state \<Rightarrow> bool" where
  "limits_inv st \<longleftrightarrow>
     length (st_blocklists st) \<le> MAX_BLOCKLISTS \<and> length (st_hosts st) \<le> MAX_HOSTS_FILES \<and>
     length (st_resolvers st) \<le> MAX_DNS_RESOLVERS \<and>
     length (st_resolver_summaries st) = length (st_resolvers st) \<and>
     length (st_endpoints st) \<le> MAX_PROXY_ENDPOINTS \<and>
     distinct (map pe_id (st_endpoints st)) \<and> set (st_endpoint_ids st) = pe_id ` set (st_endpoints st) \<and>
     (\<forall>e \<in> set (st_endpoints st). requires_tls (protocol_caps (pe_protocol e)) \<longrightarrow> is_tls (pe_transport e))"

lemma listener_inv_step:
  assumes "listener_inv pre st" "directive env asset_root (line_fields raw) ln st = Ok st'"
  shows "listener_inv (pre @ [raw]) st'"
proof -
  have frame: "listener_inv (pre @ [raw]) s"
    if "st_listeners s = st_listeners st" "st_listener_addresses s = st_listener_addresses st"
      "st_allow_public s = st_allow_public st" for s :: "'a config_state"
    using assms(1) that by (auto simp: listener_inv_def)
  from assms(2) show ?thesis
  proof (cases rule: directive_cases)
    case (3 rest)
    then obtain b where b: "st' = st\<lparr>st_allow_public := Some b\<rparr>" "length (line_fields raw) = 2"
      "b \<longrightarrow> line_fields raw ! 1 = ''true''"
      using dir_allow_public_Ok by blast
    then have "b \<longrightarrow> says_public raw"
      using 3(1) by (cases rest) (auto simp: says_public_def)
    with b(1) assms(1) show ?thesis by (auto simp: listener_inv_def)
  next
    case (4 rest)
    with assms(1) show ?thesis
      by (auto simp: listener_inv_def listener_key_def dest!: dir_listen_Ok)
  qed (auto dest!: dir_Ok intro!: frame)
qed

lemma limits_inv_step:
  assumes "limits_inv st" "directive env asset_root fs ln st = Ok st'"
  shows "limits_inv st'"
  using assms(2)
proof (cases rule: directive_cases)
  case (6 rest)
  with assms(1) show ?thesis
    by (auto simp: limits_inv_def dest!: dir_endpoint_Ok)
qed (use assms(1) in \<open>auto simp: limits_inv_def dest!: dir_Ok\<close>)

section \<open>Errors\<close>

lemma endpoint_fallback_line: "endpoint_fallback fs ln = Err e \<Longrightarrow> cfg_line e = Some ln"
  by (auto simp: endpoint_fallback_def config_error_at_def split: if_splits)

text \<open>A value whose every error names the given line.\<close>

definition at_line :: "nat \<Rightarrow> ('a, config_error) result \<Rightarrow> bool" where
  "at_line ln r \<longleftrightarrow> (\<forall>e. r = Err e \<longrightarrow> cfg_line e = Some ln)"

lemma at_line_simps [simp]:
  "at_line ln (Ok x)"
  "at_line ln (Err (config_error_at ln m))"
  "at_line ln (ok_or (config_error_at ln m) opt)"
  "at_line ln (map_err (\<lambda>_. config_error_at ln m) r)"
  by (auto simp: at_line_def config_error_at_def ok_or_def map_err_def split: option.splits result.splits)

lemma at_line_bindR [intro!]:
  "at_line ln r \<Longrightarrow> (\<And>x. r = Ok x \<Longrightarrow> at_line ln (f x)) \<Longrightarrow> at_line ln (bindR r f)"
  by (cases r) (auto simp: at_line_def)

lemma at_line_if [intro!]:
  "(b \<Longrightarrow> at_line ln r) \<Longrightarrow> (\<not> b \<Longrightarrow> at_line ln r') \<Longrightarrow> at_line ln (if b then r else r')"
  by simp

lemma at_line_fields [simp]:
  "at_line ln (expect_fields fs n ln)"
  "at_line ln (ensure_rule_capacity n ln)"
  "at_line ln (parse_listener_protocol s ln)"
  "at_line ln (endpoint_fallback fs ln)"
  by (simp_all add: expect_fields_def ensure_rule_capacity_def parse_listener_protocol_def endpoint_fallback_def)

lemma at_line_parsers [simp]:
  "at_line ln (parse_action v ln)"
  "at_line ln (normalize_matcher_domain v ln)"
  "at_line ln (parse_proxy_address v ln)"
  "at_line ln (read_bounded_asset env path n ln)"
  unfolding parse_action_def normalize_matcher_domain_def parse_proxy_address_def read_bounded_asset_def Let_def
  by (intro at_line_bindR at_line_if at_line_simps)+

lemma at_line_matcher [simp]: "at_line ln (parse_matcher fs ln)"
  unfolding parse_matcher_def by (intro at_line_bindR at_line_if at_line_simps at_line_parsers)

lemma at_line_loads [simp]:
  "at_line ln (load_blocklist env path ln)"
  "at_line ln (load_hosts env path ln)"
  "at_line ln (parse_rule fs ln i)"
  "at_line ln (parse_tls_transport_raw env a n ln)"
  unfolding load_blocklist_def load_hosts_def parse_rule_def parse_tls_transport_raw_def
  by (intro at_line_bindR at_line_if at_line_simps at_line_parsers at_line_matcher)+

lemma at_line_endpoint [simp]: "at_line ln (parse_endpoint env fs ln)"
  unfolding parse_endpoint_def parse_tls_transport_def
  by (auto split: option.split)

lemma at_line_directive: "at_line ln (directive env asset_root fs ln st)"
proof -
  have dirs: "at_line ln (dir_version fs ln st)" "at_line ln (dir_allow_public fs ln st)"
    "at_line ln (dir_listen fs ln st)" "at_line ln (dir_resolver env fs ln st)"
    "at_line ln (dir_endpoint env fs ln st)" "at_line ln (dir_default fs ln st)"
    "at_line ln (dir_blocklist env asset_root fs ln st)" "at_line ln (dir_hosts env asset_root fs ln st)"
    "at_line ln (dir_rule fs ln st)" for fs
    by (auto simp: dir_version_def dir_allow_public_def dir_listen_def dir_resolver_def dir_endpoint_def
        dir_default_def dir_blocklist_def dir_hosts_def dir_rule_def Let_def)
  show ?thesis
    by (cases fs) (simp_all add: directive_def dirs)
qed

lemma config_loop_Err:
  assumes "config_loop env asset_root ls k st = Err e"
  shows "\<exists>n st'. n < length ls \<and> config_loop env asset_root (take n ls) k st = Ok st' \<and>
    directive env asset_root (line_fields (ls ! n)) (k + n + 1) st' = Err e \<and> cfg_line e = Some (k + n + 1)"
  using assms
proof (induction ls arbitrary: k st)
  case (Cons raw ls)
  show ?case
  proof (cases "directive env asset_root (line_fields raw) (k + 1) st")
    case (Err e')
    with Cons.prems at_line_directive [of "k + 1" env asset_root "line_fields raw" st] show ?thesis
      by (intro exI [of _ 0] exI [of _ st]) (auto simp: at_line_def)
  next
    case (Ok st1)
    with Cons.prems have "config_loop env asset_root ls (k + 1) st1 = Err e" by simp
    from Cons.IH [OF this] obtain n st' where "n < length ls"
      "config_loop env asset_root (take n ls) (k + 1) st1 = Ok st'"
      "directive env asset_root (line_fields (ls ! n)) (k + 1 + n + 1) st' = Err e"
      "cfg_line e = Some (k + 1 + n + 1)" by blast
    with Ok show ?thesis by (intro exI [of _ "Suc n"] exI [of _ st']) simp
  qed
qed simp

section \<open>Accepted configurations\<close>

lemma parse_config_at_Ok:
  assumes "parse_config_at env txt asset_root = Ok c"
  obtains st where "config_loop env asset_root (lines txt) 0 config_init = Ok st" "finish_config env st = Ok c"
  using assms by (auto simp: parse_config_at_def split: if_splits)

lemma accepted_state:
  assumes "config_loop env asset_root ls 0 config_init = Ok st"
  shows "policy_inv env asset_root ls st" "default_inv ls st" "refs_inv st" "listener_inv ls st" "limits_inv st"
proof -
  have "policy_inv env asset_root ([] @ ls) st"
    by (rule config_loop_inv [OF assms, where P = "policy_inv env asset_root"])
      (simp add: policy_inv_def config_init_def text_rules_def List.map_filter_def, erule (1) policy_inv_step)
  then show "policy_inv env asset_root ls st" by simp
  have "default_inv ([] @ ls) st"
    by (rule config_loop_inv [OF assms, where P = "default_inv"])
      (simp add: default_inv_def config_init_def text_default_def List.map_filter_def, erule (1) default_inv_step)
  then show "default_inv ls st" by simp
  have "refs_inv st"
    by (rule config_loop_inv [OF assms, where P = "\<lambda>_. refs_inv"])
      (simp add: refs_inv_def config_init_def, erule (1) refs_inv_step)
  then show "refs_inv st" .
  have "listener_inv ([] @ ls) st"
    by (rule config_loop_inv [OF assms, where P = "listener_inv"])
      (simp add: listener_inv_def config_init_def, erule (1) listener_inv_step)
  then show "listener_inv ls st" by simp
  have "limits_inv st"
    by (rule config_loop_inv [OF assms, where P = "\<lambda>_. limits_inv"])
      (simp add: limits_inv_def config_init_def, erule (1) limits_inv_step)
  then show "limits_inv st" .
qed

lemma finish_config_Ok:
  assumes "finish_config env st = Ok c"
  obtains default_action where "st_default_action st = Some default_action"
    "cc_runtime c = runtime_new (policy_engine_new (st_rules st) default_action)"
    "registry_new (st_endpoints st) = Ok (cc_outbounds c)"
    "\<And>i. i \<in> set (st_referenced st) \<Longrightarrow> registry_contains (cc_outbounds c) i"
    "cc_listeners c = st_listeners st" "st_listeners st \<noteq> []"
    "st_allow_public st = Some True \<or> (\<forall>l \<in> set (st_listeners st). is_loopback (sock_ip (l_address l)))"
    "cc_blocklists c = st_blocklists st" "cc_hosts c = st_hosts st"
    "config_dns env st = Ok (cc_dns c, cc_dns_resolvers c)"
  using assms
  by (auto simp: finish_config_def list_ex_iff ok_or_def map_err_def
      split: if_splits option.splits result.splits)

lemma sort_rules_same_tier:
  "list_all (\<lambda>r. r_tier r = UserHard) rs \<Longrightarrow> sort_key (\<lambda>r. tier_rank (r_tier r)) rs = rs"
  by (rule sort_key_id_if_sorted) (induction rs; auto simp: list_all_iff)

lemma find_map_pairs:
  "find (\<lambda>(m, _). P m) (map (\<lambda>r. (f r, g r)) xs) = map_option (\<lambda>r. (f r, g r)) (find (\<lambda>r. P (f r)) xs)"
  by (induction xs) auto

section \<open>Properties\<close>

lemma accepted_config_decides:
  assumes "parse_config_at env txt asset_root = Ok c"
  shows "\<exists>default_action. text_default (lines txt) = Some default_action \<and>
    length (text_rules env asset_root (lines txt)) \<le> 4096 \<and>
    (\<forall>flow. dec_action (decide (rt_policy (cc_runtime c)) flow) =
      (case find (\<lambda>(m, _). matches m flow) (text_rules env asset_root (lines txt)) of
         Some (_, action) \<Rightarrow> action
       | None \<Rightarrow> default_action))"
proof -
  obtain st where st: "config_loop env asset_root (lines txt) 0 config_init = Ok st" "finish_config env st = Ok c"
    using parse_config_at_Ok [OF assms] .
  obtain default_action where d: "st_default_action st = Some default_action"
    "cc_runtime c = runtime_new (policy_engine_new (st_rules st) default_action)"
    using finish_config_Ok [OF st(2)] by metis
  have rules: "map (\<lambda>r. (r_matcher r, r_action r)) (st_rules st) = text_rules env asset_root (lines txt)"
    and tier: "list_all (\<lambda>r. r_tier r = UserHard) (st_rules st)"
    and len: "length (st_rules st) \<le> 4096"
    using accepted_state(1) [OF st(1)] by (auto simp: policy_inv_def MAX_RULES_def)
  have "length (text_rules env asset_root (lines txt)) \<le> 4096" using len rules by (metis length_map)
  moreover have "text_default (lines txt) = Some default_action"
    using accepted_state(2) [OF st(1)] d(1) by (simp add: default_inv_def)
  moreover have "dec_action (decide (rt_policy (cc_runtime c)) flow) =
      (case find (\<lambda>(m, _). matches m flow) (text_rules env asset_root (lines txt)) of
         Some (_, action) \<Rightarrow> action | None \<Rightarrow> default_action)" for flow
    unfolding rules [symmetric] find_map_pairs d(2) decide_def runtime_new_def policy_engine_new_def
    by (simp add: sort_rules_same_tier [OF tier] split: option.split)
  ultimately show ?thesis by blast
qed

text \<open>
  Property C4: a configuration means what its lines say, in the order they are written. The action
  taken for a flow is that of the first rule or blocklist line whose matcher holds for it, and the
  action of the default line if there is none.
\<close>

theorem config_decides_by_first_line:
  assumes "parse_config_at env txt asset_root = Ok c"
  shows "\<exists>default_action. text_default (lines txt) = Some default_action \<and>
    length (text_rules env asset_root (lines txt)) \<le> 4096 \<and>
    (\<forall>flow. dec_action (decide (rt_policy (cc_runtime c)) flow) =
      (case find (\<lambda>(m, _). matches m flow) (text_rules env asset_root (lines txt)) of
         Some (_, action) \<Rightarrow> action
       | None \<Rightarrow> default_action))"
  by (rule accepted_config_decides [OF assms])

definition sample_env :: "unit config_env" where
  "sample_env =
     \<lparr>ce_stat = (\<lambda>_. None), ce_read = (\<lambda>_. None), ce_server_name = (\<lambda>_. True), ce_sha224 = (\<lambda>bs. bs),
      ce_lookup = (\<lambda>_ w. (None, w)), ce_dot = (\<lambda>_ _. refusing)\<rparr>"

definition nl :: str where "nl = [CHR 0x0A]"

definition sample_text :: str where
  "sample_text = ''version 1'' @ nl @ ''listen socks5 127.0.0.1:1080'' @ nl @ ''endpoint p http 1.2.3.4:80'' @ nl @
     ''rule proxy:p port 443'' @ nl @ ''default reject'' @ nl"

lemma sample_text_ok: "is_ok (parse_config_at sample_env sample_text [])"
  by code_simp

theorem config_decides_by_first_line_witness:
  "\<exists>c default_action. parse_config_at sample_env sample_text [] = Ok c \<and>
    text_default (lines sample_text) = Some default_action \<and>
    (\<forall>flow. dec_action (decide (rt_policy (cc_runtime c)) flow) =
      (case find (\<lambda>(m, _). matches m flow) (text_rules sample_env [] (lines sample_text)) of
         Some (_, action) \<Rightarrow> action
       | None \<Rightarrow> default_action))"
proof -
  obtain c where "parse_config_at sample_env sample_text [] = Ok c"
    using sample_text_ok by (auto simp: is_ok_def split: result.splits)
  from config_decides_by_first_line [OF this] this show ?thesis by blast
qed

text \<open>
  Property C6: a running daemon never plans traffic to an endpoint it does not have. Whatever the
  flow, the endpoint a plan of an accepted configuration routes to is registered in the same
  configuration and can carry TCP, and a proxy that needs encryption has it.
\<close>

theorem config_plans_are_connectable:
  assumes "parse_config_at env txt asset_root = Ok c" "p_action (plan (cc_runtime c) flow) = ERoute e"
  shows "\<exists>caps. endpoint_caps (cc_outbounds c) e = Some caps \<and> cap_tcp caps \<and>
    (\<forall>i config. e = Proxy i \<longrightarrow> hm_get (endpoints (cc_outbounds c)) i = Some config \<longrightarrow>
      requires_tls (protocol_caps (pe_protocol config)) \<longrightarrow> cap_encrypted caps)"
proof -
  obtain st where st: "config_loop env asset_root (lines txt) 0 config_init = Ok st" "finish_config env st = Ok c"
    using parse_config_at_Ok [OF assms(1)] .
  obtain default_action where d: "st_default_action st = Some default_action"
    "cc_runtime c = runtime_new (policy_engine_new (st_rules st) default_action)"
    "registry_new (st_endpoints st) = Ok (cc_outbounds c)"
    "\<And>i. i \<in> set (st_referenced st) \<Longrightarrow> registry_contains (cc_outbounds c) i"
    using finish_config_Ok [OF st(2)] by metis
  show ?thesis
  proof (cases e)
    case Direct
    then show ?thesis by (simp add: endpoint_caps_def)
  next
    case (Proxy i)
    have "dec_action (decide (rt_policy (cc_runtime c)) flow) = PRoute (Proxy i)"
      using assms(2) Proxy by (auto simp: plan_def Let_def split: policy_action.splits)
    then have "(\<exists>r \<in> set (st_rules st). r_action r = PRoute (Proxy i)) \<or> default_action = PRoute (Proxy i)"
      by (auto simp: d(2) decide_def runtime_new_def policy_engine_new_def dest!: find_SomeD split: option.splits)
    then have "i \<in> set (st_referenced st)"
      using accepted_state(3) [OF st(1)] d(1) by (auto simp: refs_inv_def)
    then obtain config where config: "hm_get (endpoints (cc_outbounds c)) i = Some config"
      using d(4) by (auto simp: registry_contains_def hm_contains_def)
    have l: "registry_loop (st_endpoints st) [] = Ok (endpoints (cc_outbounds c))"
      using d(3) by (cases "cc_outbounds c") (simp add: registry_new_def)
    then have "config \<in> set (st_endpoints st)"
      using registry_loop_spec [OF l wf_map_Nil] config find_SomeD by (fastforce split: option.splits)
    then have "requires_tls (protocol_caps (pe_protocol config)) \<longrightarrow> is_tls (pe_transport config)"
      using accepted_state(5) [OF st(1)] by (simp add: limits_inv_def)
    with config Proxy show ?thesis
      by (cases "pe_protocol config"; cases "pe_transport config") (simp_all add: endpoint_caps_def Let_def)
  qed
qed

definition sample_flow :: flow_context where
  "sample_flow = flow_new (FlowId 1) source_default \<lparr>d_host = HIp (V4 9), d_port = 443\<rparr> Tcp network_default"

theorem config_plans_are_connectable_witness:
  "\<exists>c caps. parse_config_at sample_env sample_text [] = Ok c \<and>
    p_action (plan (cc_runtime c) sample_flow) = ERoute (Proxy (EndpointId ''p'')) \<and>
    endpoint_caps (cc_outbounds c) (Proxy (EndpointId ''p'')) = Some caps \<and> cap_tcp caps"
proof -
  have "case parse_config_at sample_env sample_text [] of
      Ok c \<Rightarrow> p_action (plan (cc_runtime c) sample_flow) = ERoute (Proxy (EndpointId ''p'')) | Err _ \<Rightarrow> False"
    by code_simp
  then obtain c where c: "parse_config_at sample_env sample_text [] = Ok c"
    and p: "p_action (plan (cc_runtime c) sample_flow) = ERoute (Proxy (EndpointId ''p''))"
    by (auto split: result.splits)
  from config_plans_are_connectable [OF c p] c p show ?thesis by blast
qed

text \<open>
  Property C7: the listeners of an accepted configuration are safe to bind. There is at least one
  and at most sixteen, no two share a transport and address, none has port zero, and one outside
  the loopback network is there only if a line of the text allows public listeners.
\<close>

theorem config_listeners_safe:
  assumes "parse_config_at env txt asset_root = Ok c"
  shows "1 \<le> length (cc_listeners c) \<and> length (cc_listeners c) \<le> 16 \<and>
    distinct (map (\<lambda>l. (l_protocol l = LTproxyUdp, l_address l)) (cc_listeners c)) \<and>
    (\<forall>l \<in> set (cc_listeners c). sock_port (l_address l) \<noteq> 0 \<and>
      (is_loopback (sock_ip (l_address l)) \<or>
       (\<exists>raw \<in> set (lines txt). line_fields raw = [''allow-public-listen'', ''true''])))"
proof -
  obtain st where st: "config_loop env asset_root (lines txt) 0 config_init = Ok st" "finish_config env st = Ok c"
    using parse_config_at_Ok [OF assms] .
  have l: "cc_listeners c = st_listeners st" "st_listeners st \<noteq> []"
    "st_allow_public st = Some True \<or> (\<forall>l \<in> set (st_listeners st). is_loopback (sock_ip (l_address l)))"
    using finish_config_Ok [OF st(2)] by metis+
  have inv: "listener_inv (lines txt) st" by (rule accepted_state(4) [OF st(1)])
  have key: "listener_key = (\<lambda>l. (l_protocol l = LTproxyUdp, l_address l))"
    by (rule ext) (simp add: listener_key_def is_udp_def)
  have d: "distinct (map (\<lambda>l. (l_protocol l = LTproxyUdp, l_address l)) (st_listeners st))"
    using inv unfolding listener_inv_def key by simp
  have "st_allow_public st = Some True \<Longrightarrow>
      \<exists>raw \<in> set (lines txt). line_fields raw = [''allow-public-listen'', ''true'']"
    using inv by (auto simp: listener_inv_def list_ex_iff says_public_def)
  moreover have "1 \<le> length (st_listeners st)" using l(2) by (simp add: Suc_le_eq)
  moreover have "length (st_listeners st) \<le> 16" "\<forall>l \<in> set (st_listeners st). sock_port (l_address l) \<noteq> 0"
    using inv by (auto simp: listener_inv_def MAX_LISTENERS_def)
  ultimately show ?thesis using l d by auto
qed

theorem config_listeners_safe_witness:
  "\<exists>c. parse_config_at sample_env sample_text [] = Ok c \<and>
    1 \<le> length (cc_listeners c) \<and> length (cc_listeners c) \<le> 16"
proof -
  obtain c where "parse_config_at sample_env sample_text [] = Ok c"
    using sample_text_ok by (auto simp: is_ok_def split: result.splits)
  from config_listeners_safe [OF this] this show ?thesis by blast
qed

text \<open>
  Property C8: a rejected configuration says where. An error with a line number comes from exactly
  that line, the lines before it having been accepted; an error without one is the size limit or a
  check made after every line was accepted.
\<close>

theorem config_error_names_line:
  assumes "parse_config_at env txt asset_root = Err e"
  shows "case cfg_line e of
      Some ln \<Rightarrow> \<exists>n st. ln = n + 1 \<and> n < length (lines txt) \<and>
        config_loop env asset_root (take n (lines txt)) 0 config_init = Ok st \<and>
        directive env asset_root (line_fields (lines txt ! n)) ln st = Err e
    | None \<Rightarrow> MAX_CONFIG_BYTES < length txt \<or>
        (\<exists>st. config_loop env asset_root (lines txt) 0 config_init = Ok st \<and> finish_config env st = Err e)"
proof (cases "MAX_CONFIG_BYTES < length txt")
  case True
  with assms show ?thesis by (auto simp: parse_config_at_def config_error_global_def)
next
  case False
  show ?thesis
  proof (cases "config_loop env asset_root (lines txt) 0 config_init")
    case (Err e')
    with assms False have "e' = e" by (simp add: parse_config_at_def)
    with config_loop_Err [OF Err] show ?thesis by auto
  next
    case (Ok st)
    with assms False have f: "finish_config env st = Err e" by (simp add: parse_config_at_def)
    then have "cfg_line e = None"
      by (auto simp: finish_config_def config_dns_def bindR_eq_Err ok_or_def map_err_def config_error_global_def
          split: if_splits option.splits result.splits)
    with Ok f show ?thesis by simp
  qed
qed

theorem config_error_names_line_witness:
  "\<exists>e n st. parse_config_at sample_env ''version 2'' [] = Err e \<and> cfg_line e = Some (n + 1) \<and>
    config_loop sample_env [] (take n (lines ''version 2'')) 0 config_init = Ok st \<and>
    directive sample_env [] (line_fields (lines ''version 2'' ! n)) (n + 1) st = Err e"
proof -
  let ?e = "config_error_at 1 BadVersion"
  have "case parse_config_at sample_env ''version 2'' [] of Ok _ \<Rightarrow> False | Err e \<Rightarrow> e = ?e" by code_simp
  then have e: "parse_config_at sample_env ''version 2'' [] = Err ?e" by (auto split: result.splits)
  have "cfg_line ?e = Some 1" by (simp add: config_error_at_def)
  with config_error_names_line [OF e] e show ?thesis by auto
qed

fun last_good :: "str \<Rightarrow> ('w config_env \<times> str) list \<Rightarrow> 'w compiled_config \<Rightarrow> 'w compiled_config" where
  "last_good asset_root [] c = c"
| "last_good asset_root ((env, txt) # rest) c =
     last_good asset_root rest (case parse_config_at env txt asset_root of Ok c' \<Rightarrow> c' | Err _ \<Rightarrow> c)"

lemma reload_fold:
  "cst_active (fold (\<lambda>(env, txt) s. snd (reload env txt s)) texts s)
    = last_good (cst_asset_root s) texts (cst_active s)"
  by (induction texts arbitrary: s) (auto simp: reload_def split: result.splits)

text \<open>
  Property C9: the store always holds the last known good configuration. After any sequence of
  reloads, each against its own state of the file system, the snapshot is the configuration of the
  last text that was accepted, and the initial one while none was.
\<close>

theorem store_keeps_last_known_good:
  assumes "store_new_at env0 txt0 asset_root = Ok s"
  shows "\<exists>c0. parse_config_at env0 txt0 asset_root = Ok c0 \<and>
    snapshot (fold (\<lambda>(env, txt) s. snd (reload env txt s)) texts s) = last_good asset_root texts c0"
proof -
  obtain c0 where "parse_config_at env0 txt0 asset_root = Ok c0" "s = \<lparr>cst_active = c0, cst_asset_root = asset_root\<rparr>"
    using assms by (auto simp: store_new_at_def)
  then show ?thesis by (simp add: snapshot_def reload_fold)
qed

theorem store_keeps_last_known_good_witness:
  "\<exists>s c0. store_new_at sample_env sample_text [] = Ok s \<and> parse_config_at sample_env sample_text [] = Ok c0 \<and>
    snapshot (fold (\<lambda>(env, txt) s. snd (reload env txt s)) [(sample_env, ''version 2'')] s) = c0"
proof -
  obtain c where c: "parse_config_at sample_env sample_text [] = Ok c"
    using sample_text_ok by (auto simp: is_ok_def split: result.splits)
  then have s: "store_new_at sample_env sample_text [] = Ok \<lparr>cst_active = c, cst_asset_root = []\<rparr>"
    by (simp add: store_new_at_def)
  have "\<not> is_ok (parse_config_at sample_env ''version 2'' [])" by code_simp
  then have "last_good [] [(sample_env, ''version 2'')] c = c"
    by (simp add: is_ok_def split: result.splits)
  with store_keeps_last_known_good [OF s, of "[(sample_env, ''version 2'')]"] s c show ?thesis by auto
qed

end
