(* ===== verification/Server.thy ===== *)
theory Server
  imports Limiter Transparent_Tcp Http_Connect Config
begin

text \<open>
  \<open>crates/daemon/src/server.rs\<close>: binding the configured listeners, the accept loop with its
  error budget, the dispatch of a connection to its inbound, and the supervisor. Threads and channels
  appear as the order in which their results arrive; the limiter they share is \<open>Limiter\<close>.
\<close>

section \<open>Definitions\<close>

definition ACCEPT_ERROR_RETRY_LIMIT :: nat where "ACCEPT_ERROR_RETRY_LIMIT = 8"

subsection \<open>Binding\<close>

datatype bound_listener = BoundTcp listener_protocol nat | BoundUdp socket_addr nat

record 'w server =
  srv_listeners :: "bound_listener list"
  srv_runtime :: runtime
  srv_dns :: "'w dns_engine"
  srv_outbounds :: config_registry
  srv_limiter :: limiter

text \<open>\<open>tcp_bind\<close> is \<open>TcpListener::bind\<close> of the standard library.\<close>

definition bind_one ::
  "'w socket2_os \<Rightarrow> (socket_addr \<Rightarrow> 'w \<Rightarrow> (nat, error_kind) result \<times> 'w) \<Rightarrow> listener_config \<Rightarrow> 'w
    \<Rightarrow> (bound_listener, error_kind) result \<times> 'w" where
  "bind_one so tcp_bind l =
     (case l_protocol l of
        LTproxyUdp \<Rightarrow> bindOs (bind_udp_listener so (l_address l)) (\<lambda>fd w. (Ok (BoundUdp (l_address l) fd), w))
      | LTproxyTcp \<Rightarrow> bindOs (bind_tcp_listener so (l_address l)) (\<lambda>fd w. (Ok (BoundTcp (l_protocol l) fd), w))
      | _ \<Rightarrow> bindOs (tcp_bind (l_address l)) (\<lambda>fd w. (Ok (BoundTcp (l_protocol l) fd), w)))"

fun bind_all ::
  "'w socket2_os \<Rightarrow> (socket_addr \<Rightarrow> 'w \<Rightarrow> (nat, error_kind) result \<times> 'w) \<Rightarrow> listener_config list \<Rightarrow> 'w
    \<Rightarrow> (bound_listener list, error_kind) result \<times> 'w" where
  "bind_all so tcp_bind [] w = (Ok [], w)"
| "bind_all so tcp_bind (l # ls) w =
     bindOs (bind_one so tcp_bind l) (\<lambda>bound.
     bindOs (bind_all so tcp_bind ls) (\<lambda>rest w. (Ok (bound # rest), w))) w"

definition server_bind ::
  "'w socket2_os \<Rightarrow> (socket_addr \<Rightarrow> 'w \<Rightarrow> (nat, error_kind) result \<times> 'w) \<Rightarrow> 'v compiled_config \<Rightarrow> 'w
    \<Rightarrow> ('v server, error_kind) result \<times> 'w" where
  "server_bind so tcp_bind c =
     bindOs (bind_all so tcp_bind (cc_listeners c)) (\<lambda>listeners w.
       (Ok \<lparr>srv_listeners = listeners, srv_runtime = cc_runtime c, srv_dns = cc_dns c,
            srv_outbounds = cc_outbounds c, srv_limiter = limiter_new MAX_ACTIVE_CONNECTIONS\<rparr>, w))"

subsection \<open>Connections\<close>

record 'w accept_os =
  ao_accept :: "nat \<Rightarrow> 'w \<Rightarrow> (nat, error_kind) result \<times> 'w"
  ao_spawn :: "nat \<Rightarrow> listener_protocol \<Rightarrow> 'w \<Rightarrow> (unit, error_kind) result \<times> 'w"
  ao_sleep :: "'w \<Rightarrow> 'w"

text \<open>
  A spawned session keeps its permit until it ends; when no thread can be created the closure is
  dropped, and the permit with it.
\<close>

definition spawn_connection ::
  "'w accept_os \<Rightarrow> nat \<Rightarrow> listener_protocol \<Rightarrow> limiter \<Rightarrow> 'w \<Rightarrow> bool \<times> limiter \<times> 'w" where
  "spawn_connection ao stream protocol l w =
     (case try_acquire l of
        (False, l) \<Rightarrow> (False, l, w)
      | (True, l) \<Rightarrow>
          (case ao_spawn ao stream protocol w of
             (Ok _, w) \<Rightarrow> (True, l, w)
           | (Err _, w) \<Rightarrow> (False, release l, w)))"

definition serve_turn ::
  "'w accept_os \<Rightarrow> nat \<Rightarrow> listener_protocol \<Rightarrow> nat \<Rightarrow> limiter \<Rightarrow> 'w \<Rightarrow> loop_exit \<times> nat \<times> limiter \<times> 'w" where
  "serve_turn ao listener protocol errors l w =
     (case ao_accept ao listener w of
        (Ok stream, w) \<Rightarrow>
          (let (_, l, w) = spawn_connection ao stream protocol l w in (GoOn, 0, l, w))
      | (Err k, w) \<Rightarrow>
          if k = Interrupted then (GoOn, errors, l, w)
          else if ACCEPT_ERROR_RETRY_LIMIT \<le> errors + 1 then (Return (Err k), errors + 1, l, w)
          else (GoOn, errors + 1, l, ao_sleep ao w))"

partial_function (option) serve_forever ::
  "'w accept_os \<Rightarrow> nat \<Rightarrow> listener_protocol \<Rightarrow> nat \<Rightarrow> limiter \<Rightarrow> 'w
    \<Rightarrow> ((unit, error_kind) result \<times> limiter \<times> 'w) option" where
  "serve_forever ao listener protocol errors l w =
     (case serve_turn ao listener protocol errors l w of
        (GoOn, errors, l, w) \<Rightarrow> serve_forever ao listener protocol errors l w
      | (Return r, errors, l, w) \<Rightarrow> Some (r, l, w))"

declare serve_forever.simps [code]

text \<open>The session of a connection, by the protocol of its listener.\<close>

definition handle_connection ::
  "('w, trojan_provider) services \<Rightarrow> ('c, 'w) datagram_env \<Rightarrow> str \<Rightarrow> listener_protocol \<Rightarrow> nat \<Rightarrow> stream
    \<Rightarrow> 'w shared \<Rightarrow> 'w \<Rightarrow> ((unit, error_kind) result \<times> outcome \<times> stream \<times> 'w shared \<times> 'w) option" where
  "handle_connection sv de version protocol fd client sh w =
     (case protocol of
        LSocks5 \<Rightarrow> socks_handle sv de fd client sh w
      | LHttpConnect \<Rightarrow> Some (http_handle sv version client sh w)
      | LTproxyTcp \<Rightarrow> Some (tproxy_tcp_handle sv (de_local_addr de fd w) client sh w)
      | LTproxyUdp \<Rightarrow> Some (Err InvalidInput, Refused, client, sh, w))"

subsection \<open>The supervisor\<close>

text \<open>
  What a listener's thread is started with: the address it reports, its socket, and the shared parts
  of the server.
\<close>

record 'v listener_job =
  lj_address :: socket_addr
  lj_listener :: bound_listener
  lj_runtime :: runtime
  lj_dns :: "'v dns_engine"
  lj_outbounds :: config_registry
  lj_limiter :: limiter

text \<open>
  The operations of the supervisor: the local address of a socket, starting a thread, and receiving
  the first message of the exit channel, which is none when every sender is gone. Receiving gives
  \<open>None\<close> as long as all listeners serve: it then does not return.
\<close>

record ('v, 'w) supervisor_os =
  su_local_addr :: "nat \<Rightarrow> 'w \<Rightarrow> (socket_addr, error_kind) result"
  su_spawn :: "'v listener_job \<Rightarrow> 'w \<Rightarrow> (unit, error_kind) result \<times> 'w"
  su_recv :: "'w \<Rightarrow> ((socket_addr \<times> (unit, error_kind) result) option \<times> 'w) option"

definition listener_address :: "('v, 'w) supervisor_os \<Rightarrow> bound_listener \<Rightarrow> 'w \<Rightarrow> (socket_addr, error_kind) result" where
  "listener_address su b w = (case b of BoundTcp _ fd \<Rightarrow> su_local_addr su fd w | BoundUdp address _ \<Rightarrow> Ok address)"

fun start_all ::
  "('v, 'w) supervisor_os \<Rightarrow> 'v server \<Rightarrow> bound_listener list \<Rightarrow> 'w \<Rightarrow> (unit, error_kind) result \<times> 'w" where
  "start_all su srv [] w = (Ok (), w)"
| "start_all su srv (b # bs) w =
     (case listener_address su b w of
        Err k \<Rightarrow> (Err k, w)
      | Ok address \<Rightarrow>
          (case su_spawn su
                  \<lparr>lj_address = address, lj_listener = b, lj_runtime = srv_runtime srv, lj_dns = srv_dns srv,
                   lj_outbounds = srv_outbounds srv, lj_limiter = srv_limiter srv\<rparr> w of
             (Err k, w) \<Rightarrow> (Err k, w)
           | (Ok _, w) \<Rightarrow> start_all su srv bs w))"

definition server_run ::
  "('v, 'w) supervisor_os \<Rightarrow> 'v server \<Rightarrow> 'w \<Rightarrow> ((unit, error_kind) result \<times> 'w) option" where
  "server_run su srv w =
     (case start_all su srv (srv_listeners srv) w of
        (Err k, w) \<Rightarrow> Some (Err k, w)
      | (Ok _, w) \<Rightarrow>
          (case su_recv su w of
             None \<Rightarrow> None
           | Some (Some (_, Ok _), w) \<Rightarrow> Some (Err OtherKind, w)
           | Some (Some (_, Err k), w) \<Rightarrow> Some (Err k, w)
           | Some (None, w) \<Rightarrow> Some (Err OtherKind, w)))"

section \<open>The accept loop\<close>

text \<open>What an accept brought, and the length of the current run of failures after a sequence of them.\<close>

definition accept_failures :: "(nat, error_kind) result list \<Rightarrow> nat" where
  "accept_failures outs =
     length (takeWhile (\<lambda>r. \<not> is_ok r) (rev (filter (\<lambda>r. r \<noteq> Err Interrupted) outs)))"

text \<open>Turns of the loop, with the accept results so far; other threads may change the limiter between turns.\<close>

inductive serve_run ::
  "'w accept_os \<Rightarrow> nat \<Rightarrow> listener_protocol \<Rightarrow> (nat, error_kind) result list \<Rightarrow> loop_exit \<Rightarrow> nat \<Rightarrow> bool"
  for ao :: "'w accept_os" and listener :: nat and protocol :: listener_protocol where
  start: "serve_run ao listener protocol [] GoOn 0"
| turn: "serve_run ao listener protocol outs GoOn errors \<Longrightarrow>
    serve_turn ao listener protocol errors l w = (ex, errors', l', w') \<Longrightarrow>
    serve_run ao listener protocol (outs @ [fst (ao_accept ao listener w)]) ex errors'"

lemma accept_failures_snoc:
  "accept_failures (outs @ [r]) =
     (if r = Err Interrupted then accept_failures outs else if is_ok r then 0 else Suc (accept_failures outs))"
  by (simp add: accept_failures_def)

lemma serve_run_failures:
  assumes "serve_run ao listener protocol outs ex errors"
  shows "errors = accept_failures outs \<and>
    (case ex of GoOn \<Rightarrow> errors < ACCEPT_ERROR_RETRY_LIMIT
     | Return r \<Rightarrow> errors = ACCEPT_ERROR_RETRY_LIMIT \<and> (\<exists>k. r = Err k \<and> last outs = Err k \<and> k \<noteq> Interrupted))"
  using assms
proof induction
  case start
  then show ?case by (simp add: accept_failures_def ACCEPT_ERROR_RETRY_LIMIT_def)
next
  case (turn outs errors l w ex errors' l' w')
  obtain q w1 where q: "ao_accept ao listener w = (q, w1)" by (cases "ao_accept ao listener w")
  show ?case
  proof (cases q)
    case (Ok stream)
    with turn.hyps q show ?thesis
      by (auto simp: serve_turn_def accept_failures_snoc is_ok_def ACCEPT_ERROR_RETRY_LIMIT_def split: prod.splits)
  next
    case (Err k)
    with turn q show ?thesis
      by (auto simp: serve_turn_def accept_failures_snoc is_ok_def ACCEPT_ERROR_RETRY_LIMIT_def split: if_splits)
  qed
qed

section \<open>Sessions\<close>

text \<open>The target a connection asks for, by the protocol of its listener; the dispatch keeps the contract.\<close>

definition requested_target ::
  "('c, 'w) datagram_env \<Rightarrow> listener_protocol \<Rightarrow> nat \<Rightarrow> stream \<Rightarrow> 'w \<Rightarrow> target option" where
  "requested_target de protocol fd client w =
     (case protocol of
        LSocks5 \<Rightarrow> socks_requested client w
      | LHttpConnect \<Rightarrow> http_requested client w
      | LTproxyTcp \<Rightarrow> tproxy_requested (de_local_addr de fd) client w
      | LTproxyUdp \<Rightarrow> None)"

interpretation conn: tcp_inbound sv "handle_connection sv de version protocol fd" "requested_target de protocol fd"
    for sv de version protocol fd
proof unfold_locales
  fix client sh w r e s client' sh' w'
  assume "handle_connection sv de version protocol fd client sh w = Some (r, Opened e s, client', sh', w')"
  then show "\<exists>t. requested_target de protocol fd client w = Some t \<and> session_planned sv t e"
    by (cases protocol)
      (simp_all add: handle_connection_def requested_target_def socks_in.opens_planned http_in.opens_planned
        tproxy_in.opens_planned)
qed

section \<open>Properties\<close>

text \<open>
  Property C39: a listener survives every burst of accept errors shorter than eight. The accept loop
  goes on as long as no eight accepts failed since the last success, interrupted ones not counted,
  and returns only with the error of the eighth; what happens to accepted connections does not
  matter for it.
\<close>

theorem listener_survives_short_bursts:
  assumes "serve_run ao listener protocol outs ex errors"
  shows "(ex = GoOn \<longleftrightarrow> accept_failures outs < 8) \<and>
    (\<forall>r. ex = Return r \<longrightarrow> accept_failures outs = 8 \<and> (\<exists>k. r = Err k \<and> last outs = Err k \<and> k \<noteq> Interrupted))"
  using serve_run_failures [OF assms] by (cases ex) (auto simp: ACCEPT_ERROR_RETRY_LIMIT_def)

text \<open>A bound socket that serves a configured listener.\<close>

fun bound_for :: "listener_config \<Rightarrow> bound_listener \<Rightarrow> bool" where
  "bound_for l (BoundTcp protocol _) \<longleftrightarrow> protocol = l_protocol l \<and> protocol \<noteq> LTproxyUdp"
| "bound_for l (BoundUdp address _) \<longleftrightarrow> l_protocol l = LTproxyUdp \<and> address = l_address l"

lemma bind_all_Ok: "bind_all so tcp_bind ls w = (Ok bound, w') \<Longrightarrow> list_all2 bound_for ls bound"
proof (induction ls arbitrary: bound w w')
  case (Cons l ls)
  from Cons.prems obtain b w1 rest w2 where b: "bind_one so tcp_bind l w = (Ok b, w1)"
    "bind_all so tcp_bind ls w1 = (Ok rest, w2)" "bound = b # rest" by (auto simp: bindOs_Ok)
  have "bound_for l b"
    using b(1) by (auto simp: bind_one_def bindOs_Ok split: listener_protocol.splits)
  with Cons.IH [OF b(2)] b(3) show ?case by simp
qed simp

text \<open>
  A server listens with exactly the configured listeners, in the configured order, and works with
  the policy, the resolver and the endpoints of its configuration.
\<close>

lemma server_bind_Ok:
  assumes "server_bind so tcp_bind c w = (Ok srv, w')"
  shows "list_all2 bound_for (cc_listeners c) (srv_listeners srv) \<and>
    srv_runtime srv = cc_runtime c \<and> srv_dns srv = cc_dns c \<and> srv_outbounds srv = cc_outbounds c \<and>
    srv_limiter srv = limiter_new MAX_ACTIVE_CONNECTIONS"
  using assms bind_all_Ok by (fastforce simp: server_bind_def bindOs_Ok)

section \<open>Serving a configuration\<close>

text \<open>
  The specification of serving: a thread per bound socket, started with the parts of the
  configuration and one limiter of 256 connections.
\<close>

definition config_job :: "'v compiled_config \<Rightarrow> socket_addr \<Rightarrow> bound_listener \<Rightarrow> 'v listener_job" where
  "config_job c address b =
     \<lparr>lj_address = address, lj_listener = b, lj_runtime = cc_runtime c, lj_dns = cc_dns c,
      lj_outbounds = cc_outbounds c, lj_limiter = limiter_new 256\<rparr>"

definition thread_start ::
  "('v, 'w) supervisor_os \<Rightarrow> 'v compiled_config \<Rightarrow> bound_listener \<Rightarrow> 'w \<Rightarrow> (unit, error_kind) result \<times> 'w" where
  "thread_start su c b w =
     (case listener_address su b w of
        Err k \<Rightarrow> (Err k, w)
      | Ok address \<Rightarrow> su_spawn su (config_job c address b) w)"

fun all_started ::
  "('v, 'w) supervisor_os \<Rightarrow> 'v compiled_config \<Rightarrow> bound_listener list \<Rightarrow> 'w \<Rightarrow> 'w \<Rightarrow> bool" where
  "all_started su c [] w w' \<longleftrightarrow> w = w'"
| "all_started su c (b # bs) w w' \<longleftrightarrow>
     (case thread_start su c b w of (Ok _, w1) \<Rightarrow> all_started su c bs w1 w' | (Err _, _) \<Rightarrow> False)"

text \<open>How serving ends: with a thread that could not be started, or with the first listener that exits.\<close>

definition serving_ends ::
  "('v, 'w) supervisor_os \<Rightarrow> 'v compiled_config \<Rightarrow> bound_listener list \<Rightarrow> 'w \<Rightarrow> (error_kind \<times> 'w) option \<Rightarrow> bool" where
  "serving_ends su c bound w result \<longleftrightarrow>
     (\<exists>before b after w1 k w2. bound = before @ b # after \<and> all_started su c before w w1 \<and>
        thread_start su c b w1 = (Err k, w2) \<and> result = Some (k, w2)) \<or>
     (\<exists>w1. all_started su c bound w w1 \<and>
        result = map_option (\<lambda>(first, w2). (case first of Some (_, Err k) \<Rightarrow> k | _ \<Rightarrow> OtherKind, w2)) (su_recv su w1))"

lemma start_all_spec:
  assumes "start_all su srv bs w = (r, w')"
    and "srv_runtime srv = cc_runtime c" "srv_dns srv = cc_dns c" "srv_outbounds srv = cc_outbounds c"
    "srv_limiter srv = limiter_new MAX_ACTIVE_CONNECTIONS"
  shows "case r of
      Ok _ \<Rightarrow> all_started su c bs w w'
    | Err k \<Rightarrow> \<exists>before b after w1. bs = before @ b # after \<and> all_started su c before w w1 \<and>
        thread_start su c b w1 = (Err k, w')"
  using assms(1)
proof (induction bs arbitrary: w)
  case (Cons b bs)
  note job = thread_start_def config_job_def assms(2-) MAX_ACTIVE_CONNECTIONS_def
  obtain q w1 where q: "thread_start su c b w = (q, w1)" by fastforce
  show ?case
  proof (cases q)
    case (Err k)
    with Cons.prems q have "r = Err k \<and> w' = w1"
      by (auto simp: job split: result.splits prod.splits)
    with q Err show ?thesis by (auto intro!: exI [of _ "[]"])
  next
    case (Ok u)
    with Cons.prems q have "start_all su srv bs w1 = (r, w')"
      by (auto simp: job split: result.splits prod.splits)
    note rest = Cons.IH [OF this]
    show ?thesis
    proof (cases r)
      case (Err k)
      with rest obtain before b' after w2 where "bs = before @ b' # after" "all_started su c before w1 w2"
        "thread_start su c b' w2 = (Err k, w')" by auto
      with q Ok Err show ?thesis by (auto intro!: exI [of _ "b # before"])
    qed (use rest q Ok in simp)
  qed
qed auto

lemma server_run_serves:
  assumes "server_bind so tcp_bind c w = (Ok srv, w1)"
  shows "\<exists>result. serving_ends su c (srv_listeners srv) w1 result \<and>
    server_run su srv w1 = map_option (\<lambda>(k, w'). (Err k, w')) result"
proof -
  obtain r w2 where r: "start_all su srv (srv_listeners srv) w1 = (r, w2)" by fastforce
  note spec = start_all_spec [OF r, of c] server_bind_Ok [OF assms]
  show ?thesis
  proof (cases r)
    case (Err k)
    with spec r show ?thesis
      by (intro exI [of _ "Some (k, w2)"]) (auto simp: serving_ends_def server_run_def)
  next
    case (Ok u)
    let ?result = "map_option (\<lambda>(first, w'). (case first of Some (_, Err k) \<Rightarrow> k | _ \<Rightarrow> OtherKind, w')) (su_recv su w2)"
    have "serving_ends su c (srv_listeners srv) w1 ?result"
      using Ok spec by (auto simp: serving_ends_def)
    moreover have "server_run su srv w1 = map_option (\<lambda>(k, w'). (Err k, w')) ?result"
      using Ok r by (auto simp: server_run_def split: option.splits result.splits)
    ultimately show ?thesis by blast
  qed
qed

section \<open>Witnesses\<close>

definition sample_accept :: "unit accept_os" where
  "sample_accept =
     \<lparr>ao_accept = (\<lambda>_ w. (Err ConnectionAborted, w)), ao_spawn = (\<lambda>_ _ w. (Ok (), w)), ao_sleep = (\<lambda>w. w)\<rparr>"

theorem listener_survives_short_bursts_witness:
  "serve_run sample_accept 0 LSocks5 [Err ConnectionAborted, Err ConnectionAborted] GoOn 2 \<and>
    accept_failures [Err ConnectionAborted, Err ConnectionAborted] < 8"
proof -
  let ?k = "Err ConnectionAborted :: (nat, error_kind) result"
  have a: "ao_accept sample_accept 0 () = (Err ConnectionAborted, ())" by (simp add: sample_accept_def)
  have t: "serve_turn sample_accept 0 LSocks5 n (limiter_new 1) () = (GoOn, n + 1, limiter_new 1, ())" if "n < 7" for n
    using that by (simp add: serve_turn_def sample_accept_def ACCEPT_ERROR_RETRY_LIMIT_def)
  have "serve_run sample_accept 0 LSocks5 ([] @ [fst (ao_accept sample_accept 0 ())]) GoOn (0 + 1)"
    by (rule serve_run.turn [OF serve_run.start t]) simp
  then have one: "serve_run sample_accept 0 LSocks5 [?k] GoOn 1" by (simp add: a)
  have "serve_run sample_accept 0 LSocks5 ([?k] @ [fst (ao_accept sample_accept 0 ())]) GoOn (1 + 1)"
    by (rule serve_run.turn [OF one t]) simp
  then have run: "serve_run sample_accept 0 LSocks5 [?k, ?k] GoOn 2" by (simp add: a numeral_2_eq_2)
  from listener_survives_short_bursts [OF run] run show ?thesis by simp
qed

end
