(* ===== verification/Cli.thy ===== *)
theory Cli
  imports Server Platform
begin

text \<open>
  \<open>crates/daemon/src/main.rs\<close>: the command line. A run gives the lines it prints, its result and
  the world it leaves, or no result while it serves; the texts of error messages are constructors. The
  file system is that of the configuration; sockets and threads are parameters of the \<open>run\<close> command.
\<close>

section \<open>Definitions\<close>

















section \<open>Properties\<close>






end
