(* ===== verification/Tcp_Relay.thy ===== *)
theory Tcp_Relay
  imports Outbound "HOL-Library.Sublist"
begin

text \<open>
  The plain TCP carrier of \<open>crates/transport/src/lib.rs\<close>: connecting, and the relay of two
  threads that copy a socket into the other one each. A step is one system call of one thread with
  the result the operating system gives it; a run is any interleaving. Socket options are operations
  that may fail before the relay starts.
\<close>

section \<open>Definitions\<close>

text \<open>
  \<open>TcpTransport::connect\<close>: the connection and the options set on it, of which any may fail.
\<close>

definition tcp_connect ::
  "'w net_os \<Rightarrow> (stream \<Rightarrow> socket_option \<Rightarrow> 'w \<Rightarrow> (unit, error_kind) result \<times> 'w) \<Rightarrow> tcp_transport \<Rightarrow> 'w
    \<Rightarrow> (stream, error_kind) result \<times> 'w" where
  "tcp_connect os setopt t w =
     (case os_connect os (tcp_address t) (tcp_connect_timeout t) w of
        (Err k, w) \<Rightarrow> (Err k, w)
      | (Ok s, w) \<Rightarrow>
          (case set_options setopt
              [(s, SetNodelay True), (s, SetReadTimeout (Some (tcp_handshake_timeout t))),
               (s, SetWriteTimeout (Some (tcp_handshake_timeout t)))] w of
             (Err k, w) \<Rightarrow> (Err k, w)
           | (Ok _, w) \<Rightarrow> (Ok s, w)))"

text \<open>
  \<open>io::copy\<close> reads into a buffer until the end of the stream and writes each buffer whole,
  retrying interrupted calls. Then the thread shuts down: the write side of its destination at the
  end of the stream, both sockets after an error.
\<close>

definition COPY_BUFFER :: nat where "COPY_BUFFER = 8192"

datatype copy_pc = Reading | Writing bytes | AtEnd | Failing error_kind | Done "(nat, error_kind) result"

datatype call_result =
    ReadBytes bytes | ReadFailed error_kind | Wrote nat | WriteFailed error_kind | ShutResult "(unit, error_kind) result"

record direction =
  cp_pc :: copy_pc
  cp_read :: bytes
  cp_written :: bytes

text \<open>The sides of a socket, reading and writing, whose shutdown a thread has called.\<close>

record shut_sides =
  sh_read :: bool
  sh_write :: bool

record tcp_relay =
  up :: direction
  down :: direction
  client_shut :: shut_sides
  remote_shut :: shut_sides

definition copy_step :: "call_result \<Rightarrow> direction \<Rightarrow> direction option" where
  "copy_step ev d =
     (case (cp_pc d, ev) of
        (Reading, ReadBytes bs) \<Rightarrow>
          if COPY_BUFFER < length bs then None
          else if bs = [] then Some (d\<lparr>cp_pc := AtEnd\<rparr>)
          else Some (d\<lparr>cp_pc := Writing bs, cp_read := cp_read d @ bs\<rparr>)
      | (Reading, ReadFailed k) \<Rightarrow> Some (if k = Interrupted then d else d\<lparr>cp_pc := Failing k\<rparr>)
      | (Writing bs, Wrote n) \<Rightarrow>
          if length bs < n then None
          else if n = 0 then Some (d\<lparr>cp_pc := Failing WriteZero\<rparr>)
          else Some (d\<lparr>cp_pc := (if n = length bs then Reading else Writing (drop n bs)),
                       cp_written := cp_written d @ take n bs\<rparr>)
      | (Writing bs, WriteFailed k) \<Rightarrow> Some (if k = Interrupted then d else d\<lparr>cp_pc := Failing k\<rparr>)
      | _ \<Rightarrow> None)"

text \<open>
  The end of the uplink (\<open>remote_writer.shutdown(Write)?\<close>) and of the downlink: at the end of
  the stream the result of the shutdown is that of the direction, after an error that of the copy.
\<close>

definition both_shut :: shut_sides where
  "both_shut = \<lparr>sh_read = True, sh_write = True\<rparr>"

definition shut_written_side :: "bool \<Rightarrow> tcp_relay \<Rightarrow> tcp_relay" where
  "shut_written_side upward s =
     (if upward then s\<lparr>remote_shut := (remote_shut s)\<lparr>sh_write := True\<rparr>\<rparr>
      else s\<lparr>client_shut := (client_shut s)\<lparr>sh_write := True\<rparr>\<rparr>)"

definition set_pc :: "bool \<Rightarrow> copy_pc \<Rightarrow> tcp_relay \<Rightarrow> tcp_relay" where
  "set_pc upward pc s =
     (if upward then s\<lparr>up := (up s)\<lparr>cp_pc := pc\<rparr>\<rparr> else s\<lparr>down := (down s)\<lparr>cp_pc := pc\<rparr>\<rparr>)"

definition finish_step :: "bool \<Rightarrow> call_result \<Rightarrow> tcp_relay \<Rightarrow> tcp_relay option" where
  "finish_step upward ev s =
     (let d = (if upward then up s else down s) in
      case ev of
        ShutResult r \<Rightarrow>
          (case cp_pc d of
             AtEnd \<Rightarrow>
               Some (set_pc upward (Done (bindR r (\<lambda>_. Ok (length (cp_written d))))) (shut_written_side upward s))
           | Failing k \<Rightarrow>
               Some (set_pc upward (Done (Err k)) (s\<lparr>client_shut := both_shut, remote_shut := both_shut\<rparr>))
           | _ \<Rightarrow> None)
      | _ \<Rightarrow> None)"

definition relay_step :: "bool \<Rightarrow> call_result \<Rightarrow> tcp_relay \<Rightarrow> tcp_relay option" where
  "relay_step upward ev s =
     (case copy_step ev (if upward then up s else down s) of
        Some d \<Rightarrow> Some (if upward then s\<lparr>up := d\<rparr> else s\<lparr>down := d\<rparr>)
      | None \<Rightarrow> finish_step upward ev s)"

definition tcp_relay_start :: tcp_relay where
  "tcp_relay_start =
     \<lparr>up = \<lparr>cp_pc = Reading, cp_read = [], cp_written = []\<rparr>, down = \<lparr>cp_pc = Reading, cp_read = [], cp_written = []\<rparr>,
      client_shut = \<lparr>sh_read = False, sh_write = False\<rparr>, remote_shut = \<lparr>sh_read = False, sh_write = False\<rparr>\<rparr>"

text \<open>After the join: the downlink's error first, then the uplink's.\<close>

definition relay_result :: "tcp_relay \<Rightarrow> (unit, error_kind) result option" where
  "relay_result s =
     (case (cp_pc (down s), cp_pc (up s)) of
        (Done r, Done q) \<Rightarrow> Some (bindR r (\<lambda>_. bindR q (\<lambda>_. Ok ())))
      | _ \<Rightarrow> None)"

text \<open>
  Before the relay: the options of both sockets, the two clones (of the client's socket, then of the
  remote one) and the thread. The first failure ends the call before a byte is read.
\<close>

definition tcp_relay_options :: "nat \<Rightarrow> nat \<Rightarrow> (nat \<times> socket_option) list" where
  "tcp_relay_options remote client =
     [(remote, SetReadTimeout None), (remote, SetWriteTimeout None), (client, SetReadTimeout None),
      (client, SetWriteTimeout None), (client, SetNodelay True), (remote, SetNodelay True)]"

definition relay_setup ::
  "(nat \<Rightarrow> socket_option \<Rightarrow> 'w \<Rightarrow> (unit, error_kind) result \<times> 'w)
    \<Rightarrow> (nat \<Rightarrow> 'w \<Rightarrow> (unit, error_kind) result) \<Rightarrow> ('w \<Rightarrow> (unit, error_kind) result)
    \<Rightarrow> nat \<Rightarrow> nat \<Rightarrow> 'w \<Rightarrow> (tcp_relay, error_kind) result \<times> 'w" where
  "relay_setup setopt try_clone spawn remote client w =
     (case set_options setopt (tcp_relay_options remote client) w of
        (Err k, w) \<Rightarrow> (Err k, w)
      | (Ok _, w) \<Rightarrow>
          (bindR (try_clone client w) (\<lambda>_.
           bindR (try_clone remote w) (\<lambda>_.
           bindR (spawn w) (\<lambda>_. Ok tcp_relay_start))), w))"

section \<open>Runs\<close>

inductive relay_run :: "tcp_relay \<Rightarrow> bool" where
  start: "relay_run tcp_relay_start"
| step: "relay_run s \<Longrightarrow> relay_step upward ev s = Some s' \<Longrightarrow> relay_run s'"

text \<open>What a direction has read is what it wrote and the rest of its buffer.\<close>

definition lossless :: "direction \<Rightarrow> bool" where
  "lossless d \<longleftrightarrow> cp_written d = cp_read d"

definition lossy :: "direction \<Rightarrow> bool" where
  "lossy d \<longleftrightarrow> prefix (cp_written d) (cp_read d) \<and> length (cp_read d) \<le> length (cp_written d) + COPY_BUFFER"

definition direction_inv :: "direction \<Rightarrow> bool" where
  "direction_inv d \<longleftrightarrow>
     (case cp_pc d of
        Reading \<Rightarrow> lossless d
      | Writing bs \<Rightarrow> bs \<noteq> [] \<and> length bs \<le> COPY_BUFFER \<and> cp_written d @ bs = cp_read d
      | AtEnd \<Rightarrow> lossless d
      | Failing _ \<Rightarrow> lossy d
      | Done (Ok n) \<Rightarrow> lossless d \<and> n = length (cp_read d)
      | Done (Err _) \<Rightarrow> lossy d)"

lemma lossless_lossy: "lossless d \<Longrightarrow> lossy d"
  by (simp add: lossless_def lossy_def)

lemma writing_lossy: "cp_written d @ bs = cp_read d \<Longrightarrow> length bs \<le> COPY_BUFFER \<Longrightarrow> lossy d"
  unfolding lossy_def by (metis add_le_cancel_left length_append prefixI)

lemma direction_inv_lossy: "direction_inv d \<Longrightarrow> lossy d"
  by (cases "cp_pc d") (auto simp: direction_inv_def lossless_lossy writing_lossy split: result.splits)

lemma read_step_inv:
  assumes "copy_step ev d = Some d'" "cp_pc d = Reading" "lossless d"
  shows "direction_inv d' \<and> (\<forall>r. cp_pc d' \<noteq> Done r)"
  using assms
  by (cases ev) (auto simp: copy_step_def direction_inv_def lossless_def lossy_def split: if_splits)

lemma write_step_inv:
  assumes "copy_step ev d = Some d'" "cp_pc d = Writing bs" "direction_inv d"
  shows "direction_inv d' \<and> (\<forall>r. cp_pc d' \<noteq> Done r)"
proof (cases ev)
  case (Wrote n)
  from assms(2,3) have inv: "bs \<noteq> []" "length bs \<le> COPY_BUFFER" "cp_read d = cp_written d @ bs"
    by (simp_all add: direction_inv_def)
  consider "n = 0" | "0 < n" "n = length bs" | "0 < n" "n < length bs" "\<not> length bs < n"
    using assms(1,2) Wrote by (auto simp: copy_step_def split: if_splits)
  then show ?thesis
  proof cases
    case 1
    with assms(1,2) Wrote inv have "d' = d\<lparr>cp_pc := Failing WriteZero\<rparr>"
      by (simp add: copy_step_def)
    with inv show ?thesis by (simp add: direction_inv_def lossy_def)
  next
    case 2
    with assms(1,2) Wrote have "d' = d\<lparr>cp_pc := Reading, cp_written := cp_written d @ bs\<rparr>"
      by (simp add: copy_step_def)
    with inv show ?thesis by (simp add: direction_inv_def lossless_def)
  next
    case 3
    with assms(1,2) Wrote
    have "d' = d\<lparr>cp_pc := Writing (drop n bs), cp_written := cp_written d @ take n bs\<rparr>"
      by (simp add: copy_step_def)
    with inv 3 show ?thesis by (simp add: direction_inv_def)
  qed
next
  case (WriteFailed k)
  with assms show ?thesis
    by (auto simp: copy_step_def direction_inv_def split: if_splits)
      (simp add: lossy_def, metis add_le_cancel_left length_append prefixI)
qed (use assms in \<open>simp_all add: copy_step_def\<close>)

lemma copy_step_inv:
  assumes "copy_step ev d = Some d'" "direction_inv d"
  shows "direction_inv d' \<and> (\<forall>r. cp_pc d' \<noteq> Done r)"
proof (cases "cp_pc d")
  case Reading
  with assms show ?thesis by (intro read_step_inv) (simp_all add: direction_inv_def)
next
  case (Writing bs)
  with assms show ?thesis by (intro write_step_inv)
qed (use assms in \<open>simp_all add: copy_step_def\<close>)

text \<open>
  A finished direction has shut the write side of its destination; one that lost bytes has shut
  both sockets.
\<close>

definition finished_inv :: "direction \<Rightarrow> shut_sides \<Rightarrow> tcp_relay \<Rightarrow> bool" where
  "finished_inv d dest s \<longleftrightarrow>
     (\<forall>r. cp_pc d = Done r \<longrightarrow>
        sh_write dest \<and> (lossless d \<or> (client_shut s = both_shut \<and> remote_shut s = both_shut)))"

definition relay_inv :: "tcp_relay \<Rightarrow> bool" where
  "relay_inv s \<longleftrightarrow>
     direction_inv (up s) \<and> direction_inv (down s) \<and>
     finished_inv (up s) (remote_shut s) s \<and> finished_inv (down s) (client_shut s) s"

lemmas finish_defs = finish_step_def shut_written_side_def set_pc_def both_shut_def Let_def

lemma finish_step_inv:
  assumes "finish_step upward ev s = Some s'" "relay_inv s"
  shows "relay_inv s'"
proof -
  define d where "d = (if upward then up s else down s)"
  from assms(1) obtain r where ev: "ev = ShutResult r"
    by (auto simp: finish_step_def Let_def split: call_result.splits)
  from assms(1) ev consider "cp_pc d = AtEnd" | k where "cp_pc d = Failing k"
    by (auto simp: finish_step_def Let_def d_def split: copy_pc.splits)
  then show ?thesis
  proof cases
    case 1
    with assms ev have "lossless d" "direction_inv (d\<lparr>cp_pc := Done (bindR r (\<lambda>_. Ok (length (cp_written d))))\<rparr>)"
      by (cases r; auto simp: relay_inv_def d_def direction_inv_def lossless_def lossy_def)+
    with 1 assms ev show ?thesis
      by (cases upward) (auto simp: finish_defs d_def relay_inv_def finished_inv_def lossless_def)
  next
    case 2
    with assms have "direction_inv (d\<lparr>cp_pc := Done (Err k)\<rparr>)"
      by (auto simp: relay_inv_def d_def direction_inv_def lossy_def)
    with 2 assms ev show ?thesis
      by (cases upward) (auto simp: finish_defs d_def relay_inv_def finished_inv_def lossless_def)
  qed
qed

lemma relay_step_inv:
  assumes "relay_step upward ev s = Some s'" "relay_inv s"
  shows "relay_inv s'"
proof (cases "copy_step ev (if upward then up s else down s)")
  case None
  with assms show ?thesis by (auto simp: relay_step_def intro: finish_step_inv)
next
  case (Some d)
  have "direction_inv d \<and> (\<forall>r. cp_pc d \<noteq> Done r)"
    using copy_step_inv [OF Some] assms(2) by (simp add: relay_inv_def)
  with Some assms show ?thesis
    by (cases upward) (auto simp: relay_step_def relay_inv_def finished_inv_def)
qed

lemma tcp_relay_start_inv: "relay_inv tcp_relay_start"
  by (simp add: relay_inv_def finished_inv_def tcp_relay_start_def direction_inv_def lossless_def)

lemma relay_run_inv: "relay_run s \<Longrightarrow> relay_inv s"
  by (induction rule: relay_run.induct) (auto intro: tcp_relay_start_inv relay_step_inv)

section \<open>Conservation of the bytes\<close>

text \<open>
  Property C32: In every interleaving of the two threads of the plain TCP relay each direction has
  written a prefix of what it read, at most one copy buffer behind; a finished direction has shut the
  write side of its destination, and has delivered every byte unless both sockets were shut both ways;
  and when the relay returns success both directions have delivered every byte.
\<close>

theorem tcp_relay_conserves_bytes:
  assumes "relay_run s"
  shows "(\<forall>d \<in> {up s, down s}. prefix (cp_written d) (cp_read d) \<and>
            length (cp_read d) \<le> length (cp_written d) + COPY_BUFFER) \<and>
         (\<forall>r. cp_pc (up s) = Done r \<longrightarrow> sh_write (remote_shut s) \<and>
            (cp_written (up s) = cp_read (up s) \<or> client_shut s = both_shut \<and> remote_shut s = both_shut)) \<and>
         (\<forall>r. cp_pc (down s) = Done r \<longrightarrow> sh_write (client_shut s) \<and>
            (cp_written (down s) = cp_read (down s) \<or> client_shut s = both_shut \<and> remote_shut s = both_shut)) \<and>
         (relay_result s = Some (Ok ()) \<longrightarrow>
            cp_written (up s) = cp_read (up s) \<and> cp_written (down s) = cp_read (down s))"
proof (intro conjI impI)
  note inv = relay_run_inv [OF assms, unfolded relay_inv_def]
  show "\<forall>d \<in> {up s, down s}. prefix (cp_written d) (cp_read d) \<and>
            length (cp_read d) \<le> length (cp_written d) + COPY_BUFFER"
    using inv direction_inv_lossy by (auto simp: lossy_def)
  show "\<forall>r. cp_pc (up s) = Done r \<longrightarrow> sh_write (remote_shut s) \<and>
            (cp_written (up s) = cp_read (up s) \<or> client_shut s = both_shut \<and> remote_shut s = both_shut)"
    using inv by (simp add: finished_inv_def lossless_def)
  show "\<forall>r. cp_pc (down s) = Done r \<longrightarrow> sh_write (client_shut s) \<and>
            (cp_written (down s) = cp_read (down s) \<or> client_shut s = both_shut \<and> remote_shut s = both_shut)"
    using inv by (simp add: finished_inv_def lossless_def)
  assume ok: "relay_result s = Some (Ok ())"
  then obtain n m where "cp_pc (up s) = Done (Ok n)" "cp_pc (down s) = Done (Ok m)"
    by (auto simp: relay_result_def split: copy_pc.splits)
  with inv show "cp_written (up s) = cp_read (up s)" "cp_written (down s) = cp_read (down s)"
    by (simp_all add: direction_inv_def lossless_def)
qed

text \<open>
  The client sends three bytes, of which two are written at once, and closes; the remote closes.
\<close>

fun run_calls :: "(bool \<times> call_result) list \<Rightarrow> tcp_relay \<Rightarrow> tcp_relay option" where
  "run_calls [] s = Some s"
| "run_calls ((u, ev) # evs) s = Option.bind (relay_step u ev s) (run_calls evs)"

lemma run_calls_run: "run_calls evs s = Some s' \<Longrightarrow> relay_run s \<Longrightarrow> relay_run s'"
  by (induction evs s rule: run_calls.induct) (auto simp: Option.bind_eq_Some_conv intro: relay_run.step)

definition sample_calls :: "(bool \<times> call_result) list" where
  "sample_calls =
     [(True, ReadBytes [1, 2, 3]), (True, Wrote 2), (False, ReadFailed Interrupted), (False, ReadBytes []),
      (True, WriteFailed Interrupted), (True, Wrote 1), (True, ReadBytes []), (False, ShutResult (Ok ())),
      (True, ShutResult (Ok ()))]"

lemma sample_calls_run:
  "case run_calls sample_calls tcp_relay_start of
     Some s \<Rightarrow> relay_result s = Some (Ok ()) \<and> cp_read (up s) = [1, 2, 3]
   | None \<Rightarrow> False"
  by code_simp

theorem tcp_relay_conserves_bytes_witness:
  "\<exists>s. run_calls sample_calls tcp_relay_start = Some s \<and> relay_result s = Some (Ok ()) \<and>
       cp_written (up s) = [1, 2, 3] \<and> cp_written (down s) = cp_read (down s)"
proof -
  from sample_calls_run obtain s where s: "run_calls sample_calls tcp_relay_start = Some s"
    "relay_result s = Some (Ok ())" "cp_read (up s) = [1, 2, 3]"
    by (auto split: option.splits)
  from tcp_relay_conserves_bytes [OF run_calls_run [OF s(1) relay_run.start]] s show ?thesis
    by simp
qed

end
