(* ===== verification/Tls_Connect.thy ===== *)
theory Tls_Connect
  imports Trojan_Datagram
begin

text \<open>
  The blocking parts of \<open>crates/transport/src/tls.rs\<close>: building a TLS transport, connecting
  with its handshake, handing out the framed session, and the start of the relay with the socket
  options it needs. Sockets, options and the handshake of rustls are the parameters of
  \<open>tls_net\<close>; the root certificates are part of its \<open>tn_client\<close>.
\<close>

section \<open>Definitions\<close>

definition TLS_BUFFER_LIMIT :: nat where "TLS_BUFFER_LIMIT = 64 * 1024"

record ('c, 'w) tls_net =
  tn_connect :: "socket_addr \<Rightarrow> duration \<Rightarrow> 'w \<Rightarrow> (nat, error_kind) result \<times> 'w"
  tn_set :: "nat \<Rightarrow> socket_option \<Rightarrow> 'w \<Rightarrow> (unit, error_kind) result \<times> 'w"
  tn_client :: "str \<Rightarrow> 'c option"
  tn_buffer_limit :: "nat \<Rightarrow> 'c \<Rightarrow> 'c"
  tn_complete_io :: "nat \<Rightarrow> 'c \<Rightarrow> 'w \<Rightarrow> (unit, error_kind) result \<times> 'c \<times> 'w"
  tn_handshaking :: "'c \<Rightarrow> bool"
  tn_poll_new :: "'w \<Rightarrow> (unit, error_kind) result \<times> 'w"

definition tls_with_client_config ::
  "(str \<Rightarrow> bool) \<Rightarrow> socket_addr \<Rightarrow> str \<Rightarrow> (tls_transport, error_kind) result" where
  "tls_with_client_config valid_name address server_name =
     (if valid_name server_name
      then Ok \<lparr>tls_tcp = tcp_transport_new address, tls_server_name = server_name\<rparr>
      else Err InvalidInput)"

definition tls_with_timeouts ::
  "(str \<Rightarrow> bool) \<Rightarrow> socket_addr \<Rightarrow> str \<Rightarrow> duration \<Rightarrow> duration \<Rightarrow> (tls_transport, error_kind) result" where
  "tls_with_timeouts valid_name address server_name connect_timeout handshake_timeout =
     (if connect_timeout = 0 \<or> handshake_timeout = 0 then Err InvalidInput
      else bindR (tls_with_client_config valid_name address server_name) (\<lambda>t.
        Ok (t\<lparr>tls_tcp := (tls_tcp t)\<lparr>tcp_connect_timeout := connect_timeout,
                                        tcp_handshake_timeout := handshake_timeout\<rparr>\<rparr>)))"

definition handshake_options :: "tls_transport \<Rightarrow> nat \<Rightarrow> (nat \<times> socket_option) list" where
  "handshake_options t socket =
     [(socket, SetNodelay True), (socket, SetReadTimeout (Some (tcp_handshake_timeout (tls_tcp t)))),
      (socket, SetWriteTimeout (Some (tcp_handshake_timeout (tls_tcp t))))]"

definition connect_established ::
  "('c, 'w) tls_net \<Rightarrow> tls_transport \<Rightarrow> 'w \<Rightarrow> ('c \<times> nat, error_kind) result \<times> 'w" where
  "connect_established net t w =
     (case tn_connect net (tcp_address (tls_tcp t)) (tcp_connect_timeout (tls_tcp t)) w of
        (Err k, w) \<Rightarrow> (Err k, w)
      | (Ok socket, w) \<Rightarrow>
          (case set_options (tn_set net) (handshake_options t socket) w of
             (Err k, w) \<Rightarrow> (Err k, w)
           | (Ok _, w) \<Rightarrow>
               (case tn_client net (tls_server_name t) of
                  None \<Rightarrow> (Err InvalidData, w)
                | Some c \<Rightarrow>
                    (case tn_complete_io net socket (tn_buffer_limit net TLS_BUFFER_LIMIT c) w of
                       (Err k, _, w) \<Rightarrow> (Err k, w)
                     | (Ok _, c, w) \<Rightarrow>
                         if tn_handshaking net c then (Err TimedOut, w) else (Ok (c, socket), w)))))"

definition framed_options :: "nat \<Rightarrow> (nat \<times> socket_option) list" where
  "framed_options socket =
     [(socket, SetReadTimeout None), (socket, SetWriteTimeout None), (socket, SetNonblocking True)]"

definition connect_framed ::
  "('c, 'w) tls_net \<Rightarrow> tls_transport \<Rightarrow> 'w \<Rightarrow> ('c framed_session, error_kind) result \<times> 'w" where
  "connect_framed net t w =
     (case connect_established net t w of
        (Err k, w) \<Rightarrow> (Err k, w)
      | (Ok (c, socket), w) \<Rightarrow>
          (case set_options (tn_set net) (framed_options socket) w of
             (Err k, w) \<Rightarrow> (Err k, w)
           | (Ok _, w) \<Rightarrow>
               (Ok \<lparr>fs_connection = tn_buffer_limit net TLS_BUFFER_LIMIT c, fs_remote = socket,
                    fs_registration = registration_default, fs_remote_eof = False\<rparr>, w)))"

record 'c tls_session =
  ts_connection :: 'c
  ts_socket :: nat

definition tls_connect ::
  "('c, 'w) tls_net \<Rightarrow> tls_transport \<Rightarrow> 'w \<Rightarrow> ('c tls_session, error_kind) result \<times> 'w" where
  "tls_connect net t w =
     (case connect_established net t w of
        (Err k, w) \<Rightarrow> (Err k, w)
      | (Ok (c, socket), w) \<Rightarrow> (Ok \<lparr>ts_connection = c, ts_socket = socket\<rparr>, w))"

definition relay_options :: "nat \<Rightarrow> nat \<Rightarrow> (nat \<times> socket_option) list" where
  "relay_options socket client =
     framed_options socket @
     [(client, SetReadTimeout None), (client, SetWriteTimeout None), (client, SetNodelay True),
      (client, SetNonblocking True)]"

definition tls_relay_to_client ::
  "('c, 'w) tls_net \<Rightarrow> ('c, 'w) tls_env \<Rightarrow> 'c tls_session \<Rightarrow> nat \<Rightarrow> 'w
    \<Rightarrow> ((unit, error_kind) result \<times> 'c relay_state \<times> 'w) option" where
  "tls_relay_to_client net env s client w =
     (let start = relay_start (tn_buffer_limit net TLS_BUFFER_LIMIT (ts_connection s)) in
      case set_options (tn_set net) (relay_options (ts_socket s) client) w of
        (Err k, w) \<Rightarrow> Some (Err k, relay_start (ts_connection s), w)
      | (Ok _, w) \<Rightarrow>
          (case tn_poll_new net w of
             (Err k, w) \<Rightarrow> Some (Err k, start, w)
           | (Ok _, w) \<Rightarrow> relay_loop env client (ts_socket s) start w))"

section \<open>What the engine promises\<close>

text \<open>
  A connection starts without plaintext, and neither its limit nor the handshake moves plaintext.
  Options and the poll instance move no bytes of the client.
\<close>

definition faithful_net :: "('c, 'w) tls_net \<Rightarrow> ('c, 'w) ghost \<Rightarrow> bool" where
  "faithful_net net g \<longleftrightarrow>
     (\<forall>name c. tn_client net name = Some c \<longrightarrow> accepted g c = [] \<and> produced g c = []) \<and>
     (\<forall>n c. same_plain g c (tn_buffer_limit net n c)) \<and>
     (\<forall>socket c w r c' w'. tn_complete_io net socket c w = (r, c', w') \<longrightarrow> same_plain g c c') \<and>
     (\<forall>socket opt w. same_client g w (snd (tn_set net socket opt w))) \<and>
     (\<forall>w. same_client g w (snd (tn_poll_new net w)))"

lemma faithful_netD:
  assumes "faithful_net net g"
  shows "tn_client net name = Some c \<Longrightarrow> accepted g c = [] \<and> produced g c = []"
    and "same_plain g c (tn_buffer_limit net n c)"
    and "tn_complete_io net socket c w = (r, c', w') \<Longrightarrow> same_plain g c c'"
    and "tn_set net socket opt w = (q, w') \<Longrightarrow> same_client g w w'"
    and "tn_poll_new net w = (q, w') \<Longrightarrow> same_client g w w'"
  using assms unfolding faithful_net_def by (metis snd_conv)+

lemma set_options_client:
  assumes "faithful_net net g"
  shows "set_options (tn_set net) opts w = (r, w') \<Longrightarrow> same_client g w w'"
proof (induction opts arbitrary: w)
  case (Cons so opts)
  obtain socket opt q w1 where o: "so = (socket, opt)" "tn_set net socket opt w = (q, w1)"
    by (metis surj_pair)
  with Cons faithful_netD(4) [OF assms o(2)] show ?case
    by (auto simp: same_client_def split: result.splits)
qed simp

text \<open>
  The carrier a protocol gets is verified: it was connected to the configured address, the handshake
  was for the configured name, with both timeouts in place, and it is complete.
\<close>

lemma connect_established_verified:
  assumes "connect_established net t w = (Ok (c, socket), w')"
  shows "\<exists>w1 w2 c0. tn_connect net (tcp_address (tls_tcp t)) (tcp_connect_timeout (tls_tcp t)) w = (Ok socket, w1) \<and>
    set_options (tn_set net) (handshake_options t socket) w1 = (Ok (), w2) \<and>
    tn_client net (tls_server_name t) = Some c0 \<and>
    tn_complete_io net socket (tn_buffer_limit net TLS_BUFFER_LIMIT c0) w2 = (Ok (), c, w') \<and>
    \<not> tn_handshaking net c"
  using assms
  by (auto simp: connect_established_def split: prod.splits result.splits option.splits if_splits)

lemma connect_established_fresh:
  assumes "connect_established net t w = (Ok (c, socket), w')" "faithful_net net g"
  shows "accepted g c = [] \<and> produced g c = []"
proof -
  obtain w2 c0 where c0: "tn_client net (tls_server_name t) = Some c0"
    "tn_complete_io net socket (tn_buffer_limit net TLS_BUFFER_LIMIT c0) w2 = (Ok (), c, w')"
    using connect_established_verified [OF assms(1)] by auto
  then have "same_plain g (tn_buffer_limit net TLS_BUFFER_LIMIT c0) c"
    "same_plain g c0 (tn_buffer_limit net TLS_BUFFER_LIMIT c0)"
    using faithful_netD(2,3) [OF assms(2)] by blast+
  with faithful_netD(1) [OF assms(2) c0(1)] show ?thesis by (simp add: same_plain_def)
qed

lemma connect_framed_fresh:
  assumes "connect_framed net t w = (Ok s, w')" "faithful_net net g"
  shows "accepted g (fs_connection s) = [] \<and> \<not> registered (fs_registration s) \<and> \<not> fs_remote_eof s"
proof -
  obtain c socket w1 where c: "connect_established net t w = (Ok (c, socket), w1)"
    and s: "s = \<lparr>fs_connection = tn_buffer_limit net TLS_BUFFER_LIMIT c, fs_remote = socket,
      fs_registration = registration_default, fs_remote_eof = False\<rparr>"
    using assms(1) by (auto simp: connect_framed_def split: prod.splits result.splits)
  from assms(2) have "same_plain g c (tn_buffer_limit net TLS_BUFFER_LIMIT c)" by (simp add: faithful_net_def)
  with connect_established_fresh [OF c assms(2)] s show ?thesis
    by (simp add: same_plain_def registration_default_def)
qed

text \<open>The Trojan theorems apply to the connections the transport makes.\<close>

lemma connect_framed_sessions: "faithful_net net g \<Longrightarrow> fresh_sessions (connect_framed net) g"
  by (auto simp: fresh_sessions_def dest: connect_framed_fresh)

section \<open>The relay of a session\<close>

text \<open>Plaintext taken by the handshake counts as handed on: the laws are the same.\<close>

definition after_reply :: "bytes \<Rightarrow> ('c, 'w) ghost \<Rightarrow> ('c, 'w) ghost" where
  "after_reply got g = g\<lparr>delivered_to := \<lambda>w. got @ delivered_to g w\<rparr>"

lemma after_reply_simps [simp]:
  "accepted (after_reply got g) = accepted g" "produced (after_reply got g) = produced g"
  "received (after_reply got g) = received g" "delivered_to (after_reply got g) w = got @ delivered_to g w"
  by (simp_all add: after_reply_def)

lemma after_reply_same [simp]:
  "same_plain (after_reply got g) = same_plain g" "same_client (after_reply got g) = same_client g"
  by (auto simp: same_plain_def same_client_def fun_eq_iff)

lemma after_reply_faithful: "faithful env client g \<Longrightarrow> faithful env client (after_reply got g)"
  unfolding faithful_def faithful_plaintext_def faithful_client_def faithful_rest_def
    after_reply_same after_reply_simps append_assoc same_append_eq .

text \<open>
  Property C31: a TLS session relays what follows its handshake, and nothing else. On a session whose
  protocol handshake has written the bytes \<open>sent\<close> and read the bytes \<open>got\<close>, the
  relay hands the engine, after \<open>sent\<close>, a prefix of what it read from the client, and the client a
  prefix of what the engine produced after \<open>got\<close>, whatever fails; when it succeeds both sides have
  ended and every byte was handed on.
\<close>

theorem tls_session_conserves_bytes:
  assumes "faithful env client g" "faithful_net net g"
    and "received g w = []" "delivered_to g w = []"
    and "accepted g (ts_connection s) = sent" "produced g (ts_connection s) = got"
    and "tls_relay_to_client net env s client w = Some (r, st', w')"
  shows "\<exists>up down.
    sent @ received g w' = accepted g (rl_connection st') @ up \<and>
    produced g (rl_connection st') = got @ delivered_to g w' @ down \<and>
    (r = Ok () \<longrightarrow> up = [] \<and> down = [] \<and> rl_client_eof st' \<and> rl_remote_eof st')"
proof -
  let ?g = "after_reply got g" and ?c = "tn_buffer_limit net TLS_BUFFER_LIMIT (ts_connection s)"
  note defs = relay_flow_def relay_start_def pd_remaining_def pd_default_def same_client_def same_plain_def
  have conn: "same_plain g (ts_connection s) ?c" by (rule faithful_netD(2) [OF assms(2)])
  have start: "relay_flow ?g sent [] (relay_start c) v"
    if "same_client g w v" "same_plain g (ts_connection s) c" for c v
    using assms(3-6) that by (simp add: defs)
  obtain q v where o: "set_options (tn_set net) (relay_options (ts_socket s) client) w = (q, v)" by fastforce
  note v = set_options_client [OF assms(2) o]
  obtain q' v' where p: "tn_poll_new net v = (q', v')" by fastforce
  have v': "same_client g w v'" using v faithful_netD(5) [OF assms(2) p] by (simp add: same_client_def)
  have "relay_flow ?g sent [] st' w' \<and> (r = Ok () \<longrightarrow> relay_finished env st')"
  proof (cases "q = Ok () \<and> q' = Ok ()")
    case True
    then have "relay_loop env client (ts_socket s) (relay_start ?c) v' = Some (r, st', w')"
      using assms(7) o p by (simp add: tls_relay_to_client_def)
    from relay_loop_flow [OF this, of ?g sent "[]"] start [OF v' conn] after_reply_faithful [OF assms(1)]
    show ?thesis by simp
  next
    case False
    then have "r \<noteq> Ok () \<and> (\<exists>c u. st' = relay_start c \<and> w' = u \<and> same_client g w u \<and> same_plain g (ts_connection s) c)"
      using assms(7) o p v v' conn
      by (cases q; cases q') (auto simp: tls_relay_to_client_def Let_def)
    with start show ?thesis by blast
  qed
  then show ?thesis
    by (intro exI [of _ "pd_remaining (rl_upstream st')"] exI [of _ "pd_remaining (rl_downstream st')"])
      (auto simp: relay_flow_def relay_finished_def remaining_empty)
qed

text \<open>A network whose handshake always completes, beside the sample engine.\<close>

definition sample_net :: "(sample_conn, sample_world) tls_net" where
  "sample_net =
     \<lparr>tn_connect = (\<lambda>_ _ w. (Ok 4, w)), tn_set = (\<lambda>_ _ w. (Ok (), w)), tn_client = (\<lambda>_. Some ([], [], [])),
      tn_buffer_limit = (\<lambda>_ c. c), tn_complete_io = (\<lambda>_ c w. (Ok (), c, w)), tn_handshaking = (\<lambda>_. False),
      tn_poll_new = (\<lambda>w. (Ok (), w))\<rparr>"

lemma sample_net_faithful: "faithful_net sample_net sample_ghost"
  by (simp add: faithful_net_def sample_net_def sample_ghost_def)

theorem tls_session_conserves_bytes_witness:
  "\<exists>st' w'. tls_relay_to_client sample_net sample_tls \<lparr>ts_connection = ([5], [[7]], [6]), ts_socket = 4\<rparr> 3
      ([[1, 2]], [], [], replicate 4 [sample_event CLIENT, sample_event REMOTE]) = Some (Ok (), st', w') \<and>
    [5] @ received sample_ghost w' = accepted sample_ghost (rl_connection st') \<and>
    delivered_to sample_ghost w' = [7]"
proof -
  let ?s = "\<lparr>ts_connection = ([5], [[7]], [6]), ts_socket = 4\<rparr> :: sample_conn tls_session"
  let ?w = "([[1, 2]], [], [], replicate 4 [sample_event CLIENT, sample_event REMOTE]) :: sample_world"
  have "case tls_relay_to_client sample_net sample_tls ?s 3 ?w of
      Some (r, st', w') \<Rightarrow> r = Ok () \<and> produced sample_ghost (rl_connection st') = [6, 7] | None \<Rightarrow> False"
    by code_simp
  then obtain st' w' where r: "tls_relay_to_client sample_net sample_tls ?s 3 ?w = Some (Ok (), st', w')"
    and p: "produced sample_ghost (rl_connection st') = [6, 7]"
    by (auto split: option.splits)
  have "received sample_ghost ?w = []" "delivered_to sample_ghost ?w = []"
    "accepted sample_ghost (ts_connection ?s) = [5]" "produced sample_ghost (ts_connection ?s) = [6]"
    by (simp_all add: sample_ghost_def)
  from tls_session_conserves_bytes [OF sample_tls_faithful sample_net_faithful this r] r p show ?thesis by auto
qed

text \<open>
  Property C33: a Trojan association speaks the protocol in order and within its bounds. After its
  opening over a TLS session the transport connected, and any sends and receives, the plaintext given
  to TLS followed by the plaintext still queued is the association request and then the frames of the
  accepted sends, each whole and in the order they were sent; at most 64 frames and 512 KiB are
  queued, and the byte counter is exact.
\<close>

theorem trojan_carrier_in_order:
  assumes "faithful_plaintext env g" "faithful_rest env g" "faithful_net net g"
    and "trojan_run env (connect_framed net) provider frames x"
  shows "accepted g (fs_connection (te_tls x)) @ queue_bytes x
      = encode_udp_associate_request (tp_verifier provider) @ concat frames \<and>
    length (te_pending x) \<le> 64 \<and> te_pending_bytes x = length (queue_bytes x) \<and>
    length (queue_bytes x) \<le> 524288"
  by (rule trojan_stream_in_order [OF assms(1,2) connect_framed_sessions [OF assms(3)] assms(4)])

theorem trojan_carrier_in_order_witness:
  "\<exists>frames x. trojan_run sample_tls (connect_framed sample_net) sample_provider frames x \<and> frames \<noteq> [] \<and>
    accepted sample_ghost (fs_connection (te_tls x)) @ queue_bytes x
      = encode_udp_associate_request (TrojanVerifier [97]) @ concat frames"
proof -
  let ?w = "([], [], [], []) :: sample_world" and ?t = "\<lparr>t_host = HIp (V4 9), t_port = 53\<rparr>"
  let ?x = "(trojan_execution_new (\<lparr>fs_connection = (encode_udp_associate_request (TrojanVerifier [97]), [], []),
      fs_remote = 4, fs_registration = registration_default, fs_remote_eof = False\<rparr> :: sample_conn framed_session))"
  have "trojan_open sample_tls (connect_framed sample_net) sample_provider ?w = Some (Ok ?x, ?w)" by code_simp
  then have opened: "trojan_run sample_tls (connect_framed sample_net) sample_provider [] ?x" by (rule trojan_run.opened)
  obtain frame where frame: "encode_udp_frame ?t [7] = Ok frame" "fst (enqueue frame ?x) = Ok ()"
  proof
    show "encode_udp_frame ?t [7] = Ok [1, 0, 0, 0, 9, 0, 53, 0, 1, 13, 10, 7]" by code_simp
    show "fst (enqueue [1, 0, 0, 0, 9, 0, 53, 0, 1, 13, 10, 7] ?x) = Ok ()" by code_simp
  qed
  have "trojan_send sample_tls ?t [7] ?x ?w \<noteq> None" by code_simp
  then obtain r x' w' where sent: "trojan_send sample_tls ?t [7] ?x ?w = Some (r, x', w')"
    by (metis option.exhaust prod_cases3)
  have run: "trojan_run sample_tls (connect_framed sample_net) sample_provider ([] @ [frame]) x'"
    by (rule trojan_run.sent [OF opened frame sent])
  have f: "faithful_plaintext sample_tls sample_ghost" "faithful_rest sample_tls sample_ghost"
    using sample_tls_faithful [of 0] by (simp_all add: faithful_def)
  from trojan_carrier_in_order [OF f sample_net_faithful run] run show ?thesis
    by (intro exI [of _ "[frame]"] exI [of _ x']) (simp add: sample_provider_def)
qed

end
