(* ===== verification/Spec2Isabelle.thy ===== *)
theory Spec2Isabelle
  imports Policy Blocklist Platform Dot Http_Connect Cli Tcp_Relay Tls_Connect
begin

text \<open>
  A verification library of commeatus, a policy-driven network runtime in Rust
  (\<open>src/crates\<close>): listeners accept SOCKS5, HTTP CONNECT or transparently intercepted
  traffic, every request becomes a flow, the compiled policy decides the flow, and the decision is
  executed directly or through a named proxy endpoint.

  \<^bold>\<open>Conventions.\<close> Rust's \<open>Result\<close> is the datatype \<open>result\<close>
  with \<open>bindR\<close> for the question mark; I/O errors are their kinds, other errors the
  datatypes of their crates with a constructor per message. Fixed-width integers are words or naturals
  with the wrap-around written out. A \<open>HashMap\<close> is an association list with distinct keys,
  so that no theorem depends on an iteration order. Sockets and their options, clocks, files, rustls,
  SHA-224, the poll and the operating system's resolver are parameters: fields of an environment record
  applied to a world that is passed along. What a theorem needs of them is a named hypothesis, and its
  witness instantiates it. Loops with a bound of their own are total functions; loops that end only when
  the environment lets them are \<open>partial_function (option)\<close>, whose value
  \<open>None\<close> means that the loop does not return. No fuel is used.

  \<^bold>\<open>Foundations.\<close> \<open>Commeatus_Prelude\<close> (results, integers, slices),
  \<open>Rust_Str\<close>, \<open>Rust_Coll\<close>, \<open>Std_Net\<close>, \<open>Std_Fmt\<close> and
  \<open>Io_Stream\<close> model the part of the standard library the sources use: string splitting and
  trimming, number and address parsing, binary search, maps and queues, socket addresses, and byte
  streams with exact reads and whole writes.

  \<^bold>\<open>Core.\<close> \<open>Flow_Plan\<close> (\<open>core/flow.rs\<close>,
  \<open>plan.rs\<close>), \<open>Cidr\<close> (\<open>core/cidr.rs\<close>), \<open>Domain_Name\<close>
  and \<open>Domain_Set\<close> (\<open>core/domain_set.rs\<close>) and \<open>Policy\<close>
  (\<open>core/policy.rs\<close>, \<open>runtime.rs\<close>). The three functions that normalise names
  are interpretations of the locale \<open>name_normalizer\<close>; the compiled set is one of
  \<open>compiled_set\<close>. The theorems: network membership is agreement on the prefix bits, lookup
  by binary search is coverage at label boundaries, and the engine sorted by ranks refines the
  precedence specification over the rules as written, tiers being compared in their documented order (an
  instance of \<open>linorder\<close>).

  \<^bold>\<open>Lists and platform.\<close> \<open>Blocklist\<close> (\<open>compat/lib.rs\<close>):
  what a compiled list blocks is what its lines say in a syntax specified apart from the parser, with
  errors that name their line and exact statistics. \<open>Platform\<close>
  (\<open>platform/lib.rs\<close>): an interception mode is accepted exactly on probed evidence.

  \<^bold>\<open>DNS.\<close> \<open>Dns_Hosts\<close> and \<open>Dns_Engine\<close>
  (\<open>dns/lib.rs\<close>), \<open>Dns_Wire\<close> (\<open>dns/wire.rs\<close>) and
  \<open>Dot\<close> (\<open>dns/dot.rs\<close>). Resolvers are interpretations of
  \<open>resolver_provider\<close>. The theorems: responses are accepted only for their query, addresses
  follow aliases and the TTL is the lowest of the records used, names round-trip, the cache stays
  bounded under interleaving and serves only the newest insertion for a name within its lifetime,
  resolvers are tried in order, and a DNS-over-TLS exchange moves one frame each way.

  \<^bold>\<open>Transport.\<close> \<open>Tcp_Relay\<close> (\<open>transport/lib.rs\<close>) models
  the two relay threads as interleaved system calls, \<open>Tls\<close> the nonblocking relay loop and
  framed sessions of \<open>transport/tls.rs\<close>, \<open>Tls_Connect\<close> connecting with the
  handshake and the options. Both relays conserve the bytes of both directions.

  \<^bold>\<open>Outbounds.\<close> \<open>Proxy\<close> (\<open>daemon/proxy.rs\<close>),
  \<open>Protocol\<close> (\<open>daemon/protocol.rs\<close>), \<open>Trojan\<close>
  (\<open>daemon/trojan.rs\<close>) and \<open>Outbound\<close> (\<open>daemon/outbound.rs\<close>); the
  address encodings are interpretations of \<open>address_encoder\<close>. A direct connection takes the
  first address that accepts, a proxy route never falls back to a direct connection, and a handshake
  leaves the tunnel's bytes unread. \<open>Datagram\<close> (\<open>daemon/datagram.rs\<close>),
  \<open>Trojan_Datagram\<close> (\<open>daemon/trojan_datagram.rs\<close>) and
  \<open>Datagram_Paths\<close> model datagram executions, all interpretations of
  \<open>datagram_execution\<close>: tokens and routes are bounded, a Trojan stream carries its frames
  in order, and sending on it returns.

  \<^bold>\<open>Inbounds.\<close> \<open>Http_Connect\<close> (\<open>daemon/http_connect.rs\<close>),
  \<open>Socks5\<close> and \<open>Socks5_Udp\<close> (\<open>daemon/socks5.rs\<close>),
  \<open>Transparent_Tcp\<close> and \<open>Transparent_Udp\<close>
  (\<open>daemon/transparent_tcp.rs\<close>, \<open>transparent_udp.rs\<close>). \<open>Inbound\<close>
  states what the daemon relies on from a TCP handler as the locale \<open>tcp_inbound\<close>: a
  session it opens is on the endpoint planned for the target it read. The three handlers and the
  dispatch of the server are its interpretations. Handlers answer requests with the right codes, for
  SOCKS5 from the bytes of the request to those of the reply; the UDP loops keep their tables bounded
  and their clients apart over every run, which the inductive relations of these theories describe.

  \<^bold>\<open>Daemon.\<close> \<open>Config\<close> (\<open>daemon/config.rs\<close>): every
  directive, the final checks and the store; an accepted text decides flows by its first matching line,
  has safe listeners and only plans endpoints it defines, and a refused one keeps the last good
  configuration. \<open>Limiter\<close> (\<open>daemon/server.rs\<close>, the connection limiter): the
  interleaving of its atomic operations is a counting semaphore up to undecided attempts, and its
  counter never exceeds the limit or wraps. \<open>Server\<close> (\<open>daemon/server.rs\<close>):
  binding, the accept loop, dispatch and the supervisor that starts a thread per listener.
  \<open>Cli\<close> (\<open>daemon/main.rs\<close>): checking a configuration predicts running it. This
  theory composes them: every inbound hands the policy canonical targets, and a session or a datagram of
  a bound server goes where the configuration text sends it.

  \<^bold>\<open>Not modelled.\<close> Texts of messages and \<open>Display\<close>/\<open>Debug\<close>
  forms other than those the program parses again; accessors that return a field; cryptography and
  certificate verification; the scheduling of threads beyond the interleavings above, memory orderings
  (the limiter's counter is one atomic cell), panics of threads; the variants for systems other than
  Linux and Android, which only refuse; the tests, scripts, eBPF sources and documents.
\<close>

section \<open>Targets\<close>

text \<open>
  A target as the policy expects it: a port that is not zero, and for a domain a non-empty name of
  at most 253 bytes in lower case without a final dot.
\<close>

definition canonical_target :: "target \<Rightarrow> bool" where
  "canonical_target t \<longleftrightarrow>
     t_port t \<noteq> 0 \<and>
     (case t_host t of
        HIp _ \<Rightarrow> True
      | HDomain d \<Rightarrow> d \<noteq> [] \<and> length d \<le> 253 \<and> to_ascii_lowercase d = d \<and> last d \<noteq> CHR ''.'')"

definition canonical_host :: "destination_host \<Rightarrow> bool" where
  "canonical_host h \<longleftrightarrow> canonical_target \<lparr>t_host = h, t_port = 1\<rparr>"

lemma canonical_target_new: "canonical_host h \<Longrightarrow> target_new h p = Ok t \<Longrightarrow> canonical_target t"
  by (auto simp: canonical_host_def canonical_target_def target_new_def split: if_splits destination_host.splits)

lemma canonical_ip [simp]: "canonical_host (HIp a)"
  by (simp add: canonical_host_def canonical_target_def)

lemma canonical_trimmed:
  assumes "to_ascii_lowercase (trim_end_matches (CHR ''.'') s) \<noteq> []"
    and "length (to_ascii_lowercase (trim_end_matches (CHR ''.'') s)) \<le> 253"
  shows "canonical_host (HDomain (to_ascii_lowercase (trim_end_matches (CHR ''.'') s)))"
proof -
  let ?d = "trim_end_matches (CHR ''.'') s"
  have "last (to_ascii_lowercase ?d) \<noteq> CHR ''.''"
    using assms(1) trim_end_matches_last [of "CHR ''.''" "to_ascii_lowercase s"]
    by (simp add: trim_end_matches_lowercase)
  with assms show ?thesis by (simp add: canonical_host_def canonical_target_def)
qed

lemma trim_end_length: "length (trim_end_matches c s) \<le> length s"
  by (metis length_rev length_dropWhile_le trim_end_matches_def)

lemma canonical_socks_domain:
  assumes "socks_domain bs = Ok h" "length bs \<le> 253"
  shows "canonical_host h"
proof -
  obtain s where s: "from_utf8 bs = Some s" "h = HDomain (to_ascii_lowercase (trim_end_matches (CHR ''.'') s))"
    "trim_end_matches (CHR ''.'') s \<noteq> []"
    using assms(1) by (auto simp: socks_domain_def ok_or_def Let_def split: option.splits if_splits)
  have "length s = length bs" using s(1) by (auto simp: from_utf8_def chars_of_bytes_def split: if_splits)
  with assms(2) s(3) trim_end_length [of "CHR ''.''" s] show ?thesis
    unfolding s(2) by (intro canonical_trimmed) auto
qed

lemma canonical_read_host:
  assumes "read_host address_type s = (Ok h, s')"
  shows "canonical_host h"
proof (cases "address_type = 0x03")
  case True
  then obtain len bs where "unat (len :: u8) \<le> 253" "length bs = unat len" "socks_domain bs = Ok h"
    using assms by (auto simp: read_host_def bindIO_eq_Ok Let_def not_less split: if_splits dest!: read_exact_Ok(2))
  then show ?thesis by (intro canonical_socks_domain) (simp only:)+
qed (use assms in \<open>auto simp: read_host_def bindIO_eq_Ok split: if_splits\<close>)

lemma canonical_request:
  assumes "read_request s = (Ok (Connect t), s')"
  shows "canonical_target t"
proof -
  obtain address_type h port s1 s2 where "read_host address_type s1 = (Ok h, s2)" "target_new h port = Ok t"
    using assms
    by (auto simp: read_request_def read_address_def bindIO_eq_Ok split: if_splits prod.splits)
  with canonical_read_host canonical_target_new show ?thesis by blast
qed

lemma canonical_http:
  assumes "parse_request_head bs = Ok t"
  shows "canonical_target t"
proof -
  obtain header where "(case split_whitespace (split_crlf_first header) of
      [meth, authority, version] \<Rightarrow>
        if meth \<noteq> ''CONNECT'' \<or> \<not> starts_with ''HTTP/1.'' version then Err InvalidData else parse_authority authority
    | _ \<Rightarrow> Err InvalidData) = Ok t"
    using assms unfolding parse_request_head_def Let_def by auto
  then obtain authority where a: "parse_authority authority = Ok t"
    by (simp split: list.splits if_splits)
  show ?thesis
  proof (cases "strip_prefix ''['' authority")
    case (Some rest)
    with a obtain ip port where "target_new (HIp ip) port = Ok t"
      unfolding parse_authority_def parse_bracketed_def Let_def
      by (auto split: if_splits) (auto split: ip_addr.splits)
    then show ?thesis by (rule canonical_target_new [OF canonical_ip])
  next
    case None
    with a obtain h port where h: "target_new h port = Ok t"
      "\<exists>raw. (\<exists>ip. h = HIp ip) \<or>
        (let d = to_ascii_lowercase (trim_end_matches (CHR ''.'') raw) in d \<noteq> [] \<and> length d \<le> 253 \<and> h = HDomain d)"
      by (auto simp: parse_authority_def Let_def split: if_splits option.splits prod.splits) fastforce+
    then have "canonical_host h" using canonical_trimmed by (auto simp: Let_def)
    then show ?thesis by (rule canonical_target_new [OF _ h(1)])
  qed
qed

lemma canonical_udp_host:
  assumes "parse_udp_host packet address_type = Ok (h, offset)"
  shows "canonical_host h"
proof (cases "address_type = 0x03")
  case True
  then obtain len bs where "unat len \<le> 253" "get_range packet 5 (5 + unat (len :: u8)) = Some bs" "socks_domain bs = Ok h"
    using assms by (auto simp: parse_udp_host_def ok_or_def not_less split: if_splits option.splits)
  then show ?thesis by (intro canonical_socks_domain) (auto simp: get_range_def split: if_splits)
qed (use assms in \<open>auto simp: parse_udp_host_def split: if_splits\<close>)

section \<open>Properties across components\<close>

text \<open>
  Property C10: whatever an inbound reads, the policy sees a canonical target. A target taken from a
  SOCKS5 request, a SOCKS5 datagram, an HTTP CONNECT request, an intercepted connection or an
  intercepted datagram has a port other than zero and, when it is a domain, a non-empty name of at
  most 253 bytes in lower case without a final dot; so the case-sensitive lookup of domain sets
  cannot be evaded by spelling.
\<close>

theorem inbound_targets_canonical:
  "(\<forall>s t s'. read_request s = (Ok (Connect t), s') \<longrightarrow> canonical_target t) \<and>
    (\<forall>s t b s'. http_read_request s = (Ok (t, b), s') \<longrightarrow> canonical_target t) \<and>
    (\<forall>packet t payload. parse_udp_request packet = Ok (t, payload) \<longrightarrow> canonical_target t) \<and>
    (\<forall>a t. target_from_stream a = Ok t \<longrightarrow> canonical_target t) \<and>
    (\<forall>m d. accept_message m = Ok d \<longrightarrow> canonical_target (td_target d))"
proof (intro conjI allI impI)
  show "canonical_target t" if "read_request s = (Ok (Connect t), s')" for s t s'
    using that by (rule canonical_request)
  show "canonical_target t" if "http_read_request s = (Ok (t, b), s')" for s t b s'
    using that by (auto simp: http_read_request_def bindIO_eq_Ok split: prod.splits intro: canonical_http)
  show "canonical_target t" if u: "parse_udp_request packet = Ok (t, payload)" for packet t payload
  proof -
    obtain h offset port where "parse_udp_host packet (packet ! 3) = Ok (h, offset)" "target_new h port = Ok t"
      using u by (auto simp: parse_udp_request_def split: if_splits)
    with canonical_udp_host canonical_target_new show ?thesis by blast
  qed
  show "canonical_target t" if "target_from_stream a = Ok t" for a t
    using that by (auto simp: target_from_stream_def intro: canonical_target_new [OF canonical_ip])
  show "canonical_target (td_target d)" if "accept_message m = Ok d" for m d
    using that by (auto simp: accept_message_def split: if_splits intro: canonical_target_new [OF canonical_ip])
qed

theorem inbound_targets_canonical_witness:
  "\<exists>t payload. parse_udp_request ([0, 0, 0, 3, 2] @ as_bytes ''A.'' @ [0, 53, 7]) = Ok (t, payload) \<and>
    t_host t = HDomain ''a'' \<and> canonical_target t"
proof -
  have p: "parse_udp_request ([0, 0, 0, 3, 2] @ as_bytes ''A.'' @ [0, 53, 7]) = Ok (\<lparr>t_host = HDomain ''a'', t_port = 53\<rparr>, [7])"
    by code_simp
  with inbound_targets_canonical have "canonical_target \<lparr>t_host = HDomain ''a'', t_port = 53\<rparr>" by blast
  with p show ?thesis by auto
qed

section \<open>What the configuration text says\<close>

text \<open>The action the text prescribes for a flow: that of the first line that matches, or the default.\<close>

definition text_action :: "'v config_env \<Rightarrow> str \<Rightarrow> str \<Rightarrow> flow_context \<Rightarrow> policy_action option" where
  "text_action env asset_root txt flow =
     (case find (\<lambda>(m, _). matches m flow) (text_rules env asset_root (lines txt)) of
        Some (_, action) \<Rightarrow> Some action
      | None \<Rightarrow> text_default (lines txt))"

lemma config_text_action:
  assumes "parse_config_at env txt asset_root = Ok c"
  shows "text_action env asset_root txt flow = Some (dec_action (decide (rt_policy (cc_runtime c)) flow))"
proof -
  obtain default_action where "text_default (lines txt) = Some default_action"
    "dec_action (decide (rt_policy (cc_runtime c)) flow) =
      (case find (\<lambda>(m, _). matches m flow) (text_rules env asset_root (lines txt)) of
         Some (_, action) \<Rightarrow> action | None \<Rightarrow> default_action)"
    using accepted_config_decides [OF assms] by blast
  then show ?thesis by (simp add: text_action_def split: option.splits)
qed

lemma server_text_action:
  assumes "parse_config_at env txt asset_root = Ok c" "server_bind so tcp_bind c w0 = (Ok srv, w1)"
    and "fst (plan_action (srv_runtime srv) t transport fid) = ERoute e"
  shows "text_action env asset_root txt (fst (target_flow t transport fid)) = Some (PRoute e)"
  using config_text_action [OF assms(1)] server_bind_Ok [OF assms(2)] plan_action_decides [OF assms(3)] by simp

text \<open>
  Property C5: a connection goes where the configuration text sends it. For a server bound from an
  accepted configuration, if a connection of any TCP listener opened a session on an endpoint, then
  that connection asked for a target, and the first line of the text whose matcher holds for the
  flow to that target, or else its default line, names exactly that endpoint; a proxy endpoint is
  one the text defines.
\<close>

theorem sessions_follow_configuration:
  assumes "parse_config_at env txt asset_root = Ok c"
    and "server_bind so tcp_bind c w0 = (Ok srv, w1)"
    and "sv_runtime sv = srv_runtime srv" "sv_outbounds sv = srv_outbounds srv"
    and "handle_connection sv de version protocol fd client sh w = Some (r, Opened e s, client', sh', w')"
  shows "\<exists>t fid. requested_target de protocol fd client w = Some t \<and>
    text_action env asset_root txt (fst (target_flow t Tcp fid)) = Some (PRoute e) \<and>
    (\<forall>i. e = Proxy i \<longrightarrow> registry_contains (cc_outbounds c) i)"
proof -
  have sv: "sv_runtime sv = cc_runtime c" "sv_outbounds sv = cc_outbounds c"
    using server_bind_Ok [OF assms(2)] assms(3,4) by simp_all
  show ?thesis using conn.opened_decided [OF assms(5)] config_text_action [OF assms(1)] sv by auto
qed

definition direct_text :: str where
  "direct_text = ''version 1'' @ nl @ ''listen tproxy-tcp 127.0.0.1:1080'' @ nl @ ''default direct'' @ nl"

definition direct_env :: "(unit, unit) datagram_env" where
  "direct_env =
     \<lparr>de_os = sample_os [], de_udp = sample_udp (SockV4 9 53), de_tls = sample_idle_tls, de_try_clone = (\<lambda>w. (Ok (), w)),
      de_connect_framed = (\<lambda>_ w. (Err ConnectionRefused, w)), de_option = (\<lambda>_ _ w. (Ok (), w)), de_poll_new = (\<lambda>w. (Ok (), w)),
      de_poll = (\<lambda>_ w. (Ok [], w)),
      de_peer_addr = (\<lambda>_ _. Ok (SockV4 9 1000)), de_local_addr = (\<lambda>_ _. Ok (SockV4 9 443))\<rparr>"

theorem sessions_follow_configuration_witness:
  "\<exists>c srv sv r e s client' sh'. parse_config_at sample_env direct_text [] = Ok c \<and>
    server_bind sample_sockets (\<lambda>_ w. (Ok 5, w)) c () = (Ok srv, ()) \<and>
    handle_connection sv direct_env [] LTproxyTcp 0 (sample_stream []) sample_shared () = Some (r, Opened e s, client', sh', ()) \<and>
    requested_target direct_env LTproxyTcp 0 (sample_stream []) () = Some \<lparr>t_host = HIp (V4 9), t_port = 443\<rparr> \<and>
    text_default (lines direct_text) = Some (PRoute e)"
proof -
  let ?sv = "\<lambda>c. \<lparr>sv_os = sample_os [], sv_connect = (\<lambda>_ w. (Err ConnectionRefused, w)), sv_local_addr = (\<lambda>_. None),
    sv_option = (\<lambda>_ w. (Ok (), w)), sv_relay = (\<lambda>_ _ w. (Ok (), w)), sv_runtime = cc_runtime c, sv_outbounds = cc_outbounds c\<rparr>
    :: (unit, trojan_provider) services"
  have "case parse_config_at sample_env direct_text [] of
      Ok c \<Rightarrow> (case server_bind sample_sockets (\<lambda>_ w. (Ok 5, w)) c () of (r, _) \<Rightarrow> is_ok r) \<and>
        (case handle_connection (?sv c) direct_env [] LTproxyTcp 0 (sample_stream []) sample_shared () of
           Some (r, out, _) \<Rightarrow> out \<noteq> Refused
         | None \<Rightarrow> False)
    | Err _ \<Rightarrow> False" by code_simp
  then obtain c srv r e s client' sh' where c: "parse_config_at sample_env direct_text [] = Ok c"
    "server_bind sample_sockets (\<lambda>_ w. (Ok 5, w)) c () = (Ok srv, ())"
    "handle_connection (?sv c) direct_env [] LTproxyTcp 0 (sample_stream []) sample_shared ()
      = Some (r, Opened e s, client', sh', ())"
    by (auto simp: is_ok_def split: result.splits option.splits) (metis outcome.exhaust)
  have rt: "sv_runtime (?sv c) = srv_runtime srv" "sv_outbounds (?sv c) = srv_outbounds srv"
    using server_bind_Ok [OF c(2)] by simp_all
  have "text_rules sample_env [] (lines direct_text) = []" by code_simp
  with sessions_follow_configuration [OF c(1,2) rt c(3)]
  have "\<exists>t. requested_target direct_env LTproxyTcp 0 (sample_stream []) () = Some t \<and> text_default (lines direct_text) = Some (PRoute e)"
    by (auto simp: text_action_def)
  moreover have "requested_target direct_env LTproxyTcp 0 (sample_stream []) () = Some \<lparr>t_host = HIp (V4 9), t_port = 443\<rparr>"
    by (simp add: requested_target_def tproxy_requested_def direct_env_def target_from_stream_def target_new_def)
  ultimately show ?thesis using c by blast
qed

text \<open>
  Property C36: datagrams go where the configuration text sends them. For a server bound from an
  accepted configuration, a packet of a SOCKS5 UDP client changes or opens at most the route of the
  endpoint the text names for the packet's target, and a datagram the transparent listener intercepts
  at most that route of its own client, clients that were idle too long being forgotten; a datagram
  counts as handled only if there is a route for that endpoint.
\<close>

theorem datagrams_follow_configuration:
  assumes "parse_config_at env txt asset_root = Ok c"
    and "server_bind so tcp_bind c w0 = (Ok srv, w1)"
    and "ac_runtime ac = srv_runtime srv" "tx_runtime tx = srv_runtime srv"
    and "handle_udp_client_packet ac packet st dw = Some (handled, st', dw')"
    and "handle_inbound tx client t payload tp dx = Some (handled_tp, tp', dx')"
  shows "(\<forall>e. hm_get (routes (ua_routes st')) e \<noteq> hm_get (routes (ua_routes st)) e \<longrightarrow>
      (\<exists>u data. parse_udp_request packet = Ok (u, data) \<and>
        text_action env asset_root txt (fst (target_flow u Udp (ua_next_flow_id st))) = Some (PRoute e))) \<and>
    (handled \<longrightarrow> (\<exists>u data e. parse_udp_request packet = Ok (u, data) \<and>
        text_action env asset_root txt (fst (target_flow u Udp (ua_next_flow_id st))) = Some (PRoute e) \<and>
        hm_contains (routes (ua_routes st')) e)) \<and>
    (\<forall>other cs' e route. hm_get (tp_clients tp') other = Some cs' \<longrightarrow>
        hm_get (routes (cl_routes cs')) e = Some route \<longrightarrow>
      other = client \<and> text_action env asset_root txt (fst (target_flow t Udp (tp_next_flow_id tp))) = Some (PRoute e) \<or>
      (\<exists>cs. hm_get (tp_clients tp) other = Some cs \<and> hm_get (routes (cl_routes cs)) e = Some route)) \<and>
    (handled_tp \<longrightarrow> (\<exists>e cs'. text_action env asset_root txt (fst (target_flow t Udp (tp_next_flow_id tp))) = Some (PRoute e) \<and>
        hm_get (tp_clients tp') client = Some cs' \<and> hm_contains (routes (cl_routes cs')) e))"
proof (intro conjI allI impI)
  note named = server_text_action [OF assms(1,2)]
  note socks = socks_udp_obeys_policy [OF assms(5)]
  show "\<exists>u data. parse_udp_request packet = Ok (u, data) \<and>
      text_action env asset_root txt (fst (target_flow u Udp (ua_next_flow_id st))) = Some (PRoute e)"
    if "hm_get (routes (ua_routes st')) e \<noteq> hm_get (routes (ua_routes st)) e" for e
    using socks that named assms(3) by (auto split: result.splits execution_action.splits) metis+
  show "\<exists>u data e. parse_udp_request packet = Ok (u, data) \<and>
      text_action env asset_root txt (fst (target_flow u Udp (ua_next_flow_id st))) = Some (PRoute e) \<and>
      hm_contains (routes (ua_routes st')) e" if handled
    using socks that named assms(3) by (auto split: result.splits execution_action.splits)
  show "other = client \<and> text_action env asset_root txt (fst (target_flow t Udp (tp_next_flow_id tp))) = Some (PRoute e) \<or>
      (\<exists>cs. hm_get (tp_clients tp) other = Some cs \<and> hm_get (routes (cl_routes cs)) e = Some route)"
    if "hm_get (tp_clients tp') other = Some cs'" "hm_get (routes (cl_routes cs')) e = Some route" for other cs' e route
    using inbound_routes_planned [OF assms(6) that] named assms(4) by auto
  show "\<exists>e cs'. text_action env asset_root txt (fst (target_flow t Udp (tp_next_flow_id tp))) = Some (PRoute e) \<and>
      hm_get (tp_clients tp') client = Some cs' \<and> hm_contains (routes (cl_routes cs')) e" if handled_tp
    using inbound_handled [of tx client t payload tp dx tp' dx'] assms(6) that named assms(4) by auto
qed

theorem datagrams_follow_configuration_witness:
  "\<exists>c srv handled st' dw' tp' dx'. parse_config_at sample_env direct_text [] = Ok c \<and>
    server_bind sample_sockets (\<lambda>_ w. (Ok 5, w)) c () = (Ok srv, ()) \<and>
    handle_udp_client_packet ((sample_assoc (PRoute Direct))\<lparr>ac_runtime := srv_runtime srv\<rparr>) sample_packet
      (assoc_start (V4 9) sample_hint 1 0) (sample_dns, [], []) = Some (handled, st', dw') \<and>
    handle_inbound (sample_tproxy\<lparr>tx_runtime := srv_runtime srv\<rparr>) (SockV4 9 1000) \<lparr>t_host = HIp (V4 9), t_port = 53\<rparr> [7]
      (tproxy_start 1) (sample_dns, [], []) = Some (True, tp', dx') \<and>
    (\<exists>e cs'. text_action sample_env [] direct_text (fst (target_flow \<lparr>t_host = HIp (V4 9), t_port = 53\<rparr> Udp 1)) = Some (PRoute e) \<and>
      hm_get (tp_clients tp') (SockV4 9 1000) = Some cs' \<and> hm_contains (routes (cl_routes cs')) e)"
proof -
  let ?ac = "\<lambda>srv. (sample_assoc (PRoute Direct))\<lparr>ac_runtime := srv_runtime srv\<rparr>"
    and ?tx = "\<lambda>srv. sample_tproxy\<lparr>tx_runtime := srv_runtime srv\<rparr>"
    and ?t = "\<lparr>t_host = HIp (V4 9), t_port = 53\<rparr>"
  have "case parse_config_at sample_env direct_text [] of
      Ok c \<Rightarrow> (case server_bind sample_sockets (\<lambda>_ w. (Ok 5, w)) c () of
          (Ok srv, _) \<Rightarrow>
            handle_udp_client_packet (?ac srv) sample_packet (assoc_start (V4 9) sample_hint 1 0) (sample_dns, [], []) \<noteq> None \<and>
            (case handle_inbound (?tx srv) (SockV4 9 1000) ?t [7] (tproxy_start 1) (sample_dns, [], []) of
               Some (b, _) \<Rightarrow> b | None \<Rightarrow> False)
        | (Err _, _) \<Rightarrow> False)
    | Err _ \<Rightarrow> False" by code_simp
  then obtain c srv handled st' dw' tp' dx' where c: "parse_config_at sample_env direct_text [] = Ok c"
    "server_bind sample_sockets (\<lambda>_ w. (Ok 5, w)) c () = (Ok srv, ())"
    "handle_udp_client_packet (?ac srv) sample_packet (assoc_start (V4 9) sample_hint 1 0) (sample_dns, [], [])
      = Some (handled, st', dw')"
    "handle_inbound (?tx srv) (SockV4 9 1000) ?t [7] (tproxy_start 1) (sample_dns, [], []) = Some (True, tp', dx')"
    by (auto split: result.splits option.splits prod.splits)
  have "ac_runtime (?ac srv) = srv_runtime srv" "tx_runtime (?tx srv) = srv_runtime srv" by simp_all
  note ends = datagrams_follow_configuration [OF c(1,2) this c(3,4), THEN conjunct2, THEN conjunct2, THEN conjunct2,
      rule_format, OF TrueI]
  show ?thesis using c ends by (cases dw'; cases dx') (simp add: tproxy_start_def)
qed

end
